(* ===== verification/Iw_Prelude.thy ===== *)
theory Iw_Prelude
  imports Main "HOL-Library.Word"
begin

text \<open>
  The vocabulary every component shares: C run-time faults and the sum monad that carries
  them, buffers of bytes with bounds-checked access, C strings, 16-bit fields in network
  byte order, and \<open>size_t\<close> subtraction.

  A byte (\<open>uint8_t\<close>, \<open>char\<close>) is a HOL \<^typ>\<open>char\<close>, an 8-bit value; a buffer is the list of
  its bytes, as long as the C array. A computation of the C program has the type
  \<open>fault + 'a\<close>: \<open>Inr x\<close> is a defined result, \<open>Inl e\<close> says that the C program has left the
  defined part of the language (and which way).
\<close>

section \<open>Faults and their propagation\<close>

datatype fault =
    Use_after_free nat   \<comment> \<open>access to a heap object that is not allocated (any more)\<close>
  | Null_deref           \<comment> \<open>access through a null pointer\<close>
  | Out_of_bounds        \<comment> \<open>access outside an array\<close>
  | Uninitialised        \<comment> \<open>read of an automatic variable that was never assigned\<close>
  | Diverges             \<comment> \<open>a loop that does not end\<close>

definition ebind :: "'e + 'a \<Rightarrow> ('a \<Rightarrow> 'e + 'b) \<Rightarrow> 'e + 'b" where
  "ebind m f = (case m of Inl e \<Rightarrow> Inl e | Inr x \<Rightarrow> f x)"

lemma ebind_simps [simp]: "ebind (Inl e) f = Inl e" "ebind (Inr x) f = f x"
  by (simp_all add: ebind_def)

lemma ebind_Inr_iff: "ebind m f = Inr y \<longleftrightarrow> (\<exists>x. m = Inr x \<and> f x = Inr y)"
  by (cases m) auto

lemma ebind_Inl_iff: "ebind m f = Inl e \<longleftrightarrow> m = Inl e \<or> (\<exists>x. m = Inr x \<and> f x = Inl e)"
  by (cases m) auto

lemma ebind_InrE:
  assumes "ebind m f = Inr y"
  obtains x where "m = Inr x" and "f x = Inr y"
  using assms by (auto simp: ebind_Inr_iff)

lemma ebind_assoc: "ebind (ebind m f) g = ebind m (\<lambda>x. ebind (f x) g)"
  by (cases m) auto

lemma ebind_cong [fundef_cong]:
  "\<lbrakk>m = m'; \<And>x. m' = Inr x \<Longrightarrow> f x = f' x\<rbrakk> \<Longrightarrow> ebind m f = ebind m' f'"
  by (cases m') auto

definition defined :: "'e + 'a \<Rightarrow> bool" where
  "defined m = (case m of Inl _ \<Rightarrow> False | Inr _ \<Rightarrow> True)"

lemma defined_simps [simp]: "defined (Inr x)" "\<not> defined (Inl e)"
  by (simp_all add: defined_def)

lemma defined_iff: "defined m \<longleftrightarrow> (\<exists>x. m = Inr x)"
  by (cases m) auto

section \<open>Constants of the sources\<close>

text \<open>\<open>iw_common.h\<close>\<close>

abbreviation IW_OK :: int where "IW_OK \<equiv> 0"
abbreviation IW_ERR :: int where "IW_ERR \<equiv> -1"

text \<open>A C truth value (\<open>IW_TRUE\<close>, \<open>IW_FALSE\<close>) that is only a flag is a \<open>bool\<close>; where a
  function returns \<open>IW_TRUE\<close>, \<open>IW_FALSE\<close> or \<open>IW_ERR\<close> the three values are named.\<close>

datatype tri = IW_True | IW_False | IW_Err

section \<open>Unsigned sizes\<close>

text \<open>\<open>size_t\<close> values are \<open>nat\<close>; subtraction wraps around at \<open>2 ^ 64\<close>, as it does in C.\<close>

definition sz_sub :: "nat \<Rightarrow> nat \<Rightarrow> nat" where
  "sz_sub a b = (if b \<le> a then a - b else a + (2 ^ 64 - b mod 2 ^ 64))"

lemma sz_sub_le [simp]: "b \<le> a \<Longrightarrow> sz_sub a b = a - b"
  by (simp add: sz_sub_def)

lemma sz_sub_0 [simp]: "sz_sub a b = 0 \<longleftrightarrow> a = b"
proof -
  have "b mod 2 ^ 64 < 2 ^ 64" by simp
  then have "0 < 2 ^ 64 - b mod (2 ^ 64 :: nat)" by linarith
  then show ?thesis by (auto simp: sz_sub_def)
qed

section \<open>Buffers\<close>

type_synonym bytes = "char list"

definition rd_byte :: "bytes \<Rightarrow> nat \<Rightarrow> fault + char" where
  "rd_byte buf i = (if i < length buf then Inr (buf ! i) else Inl Out_of_bounds)"

definition rd_bytes :: "bytes \<Rightarrow> nat \<Rightarrow> nat \<Rightarrow> fault + bytes" where
  "rd_bytes buf i n =
     (if i + n \<le> length buf then Inr (take n (drop i buf)) else Inl Out_of_bounds)"

definition wr_bytes :: "bytes \<Rightarrow> nat \<Rightarrow> bytes \<Rightarrow> fault + bytes" where
  "wr_bytes buf i bs =
     (if i + length bs \<le> length buf
      then Inr (take i buf @ bs @ drop (i + length bs) buf) else Inl Out_of_bounds)"

definition wr_byte :: "bytes \<Rightarrow> nat \<Rightarrow> char \<Rightarrow> fault + bytes" where
  "wr_byte buf i b = (if i < length buf then Inr (buf[i := b]) else Inl Out_of_bounds)"

lemma rd_byte_Inr [simp]: "i < length buf \<Longrightarrow> rd_byte buf i = Inr (buf ! i)"
  by (simp add: rd_byte_def)

lemma rd_bytes_Inr [simp]:
  "i + n \<le> length buf \<Longrightarrow> rd_bytes buf i n = Inr (take n (drop i buf))"
  by (simp add: rd_bytes_def)

lemma wr_bytes_Inr [simp]:
  "i + length bs \<le> length buf \<Longrightarrow>
   wr_bytes buf i bs = Inr (take i buf @ bs @ drop (i + length bs) buf)"
  by (simp add: wr_bytes_def)

lemma wr_byte_Inr [simp]: "i < length buf \<Longrightarrow> wr_byte buf i b = Inr (buf[i := b])"
  by (simp add: wr_byte_def)

text \<open>\<open>blit dst p xs\<close>: the buffer with the bytes \<open>xs\<close> at position \<open>p\<close>.\<close>

abbreviation blit :: "bytes \<Rightarrow> nat \<Rightarrow> bytes \<Rightarrow> bytes" where
  "blit dst p xs \<equiv> take p dst @ xs @ drop (p + length xs) dst"

lemma wr_byte_blit:
  assumes "p + length xs < length dst" and "q = p + length xs"
  shows "wr_byte (blit dst p xs) q c = Inr (blit dst p (xs @ [c]))"
  using assms by (simp add: list_update_append Cons_nth_drop_Suc [symmetric])

lemma blit_blit:
  assumes "p + length a + length b \<le> length dst" and "q = p + length a"
  shows "blit (blit dst p a) q b = blit dst p (a @ b)"
proof -
  have l: "length (take p dst) = p" using assms(1) by simp
  have "blit dst p a = (take p dst @ a) @ drop (p + length a) dst" by simp
  then have "take q (blit dst p a) = take p dst @ a"
    "drop (q + length b) (blit dst p a) = drop (length b) (drop (p + length a) dst)"
    using l assms(2) by simp_all
  then show ?thesis by (simp add: ac_simps)
qed

lemma wr_bytes_length: "wr_bytes buf i bs = Inr buf' \<Longrightarrow> length buf' = length buf"
  by (auto simp: wr_bytes_def split: if_splits)

lemma wr_byte_length: "wr_byte buf i b = Inr buf' \<Longrightarrow> length buf' = length buf"
  by (auto simp: wr_byte_def split: if_splits)

lemma wr_bytes_prefix:
  "wr_bytes buf i bs = Inr buf' \<Longrightarrow> take (i + length bs) buf' = take i buf @ bs"
  by (auto simp: wr_bytes_def split: if_splits)

lemma rd_bytes_length: "rd_bytes buf i n = Inr bs \<Longrightarrow> length bs = n"
  by (auto simp: rd_bytes_def split: if_splits)

section \<open>C strings\<close>

abbreviation NUL :: char where "NUL \<equiv> CHR 0x00"

text \<open>\<open>cstr_at buf i\<close> is the string a \<open>char *\<close> pointer to \<open>buf[i]\<close> designates: the bytes up to
  the terminating NUL. With no NUL in the rest of the buffer, a function that walks the
  string (\<open>strlen\<close>, \<open>strcmp\<close>) leaves the buffer.\<close>

definition cstr_at :: "bytes \<Rightarrow> nat \<Rightarrow> fault + string" where
  "cstr_at buf i =
     (if NUL \<in> set (drop i buf) then Inr (takeWhile (\<lambda>c. c \<noteq> NUL) (drop i buf))
      else Inl Out_of_bounds)"

text \<open>\<open>strncpy(dst, src, n)\<close> into a zeroed array of \<open>n + 1\<close> bytes: the string the array holds
  afterwards.\<close>

definition strncpy0 :: "nat \<Rightarrow> string \<Rightarrow> string" where
  "strncpy0 n s = take n s"

lemma strncpy0_id [simp]: "length s \<le> n \<Longrightarrow> strncpy0 n s = s"
  by (simp add: strncpy0_def)

definition is_cstring :: "string \<Rightarrow> bool" where
  "is_cstring s = (NUL \<notin> set s)"

lemma takeWhile_cstring: "is_cstring s \<Longrightarrow> takeWhile (\<lambda>c. c \<noteq> NUL) (s @ NUL # t) = s"
  by (simp add: is_cstring_def takeWhile_append)

lemma is_cstring_takeWhile [simp]: "is_cstring (takeWhile (\<lambda>c. c \<noteq> NUL) s)"
  by (auto simp: is_cstring_def dest: set_takeWhileD)

lemma cstr_at_append:
  "\<lbrakk>is_cstring s; i = length p\<rbrakk> \<Longrightarrow> cstr_at (p @ s @ NUL # t) i = Inr s"
  by (simp add: cstr_at_def takeWhile_cstring)

lemma cstr_at_is_cstring: "cstr_at buf i = Inr s \<Longrightarrow> is_cstring s"
  by (auto simp: cstr_at_def split: if_splits)

section \<open>16-bit fields in network byte order\<close>

type_synonym u16 = "16 word"

text \<open>\<open>*p = htons(w)\<close> stores the bytes \<open>put_be16 w\<close>; \<open>ntohs(*p)\<close> is \<open>get_be16\<close> of the two bytes
  at \<open>p\<close>.\<close>

definition put_be16 :: "u16 \<Rightarrow> bytes" where
  "put_be16 w = [char_of (unat w div 256), char_of (unat w)]"

definition get_be16 :: "char \<Rightarrow> char \<Rightarrow> u16" where
  "get_be16 hi lo = of_nat (of_char hi * 256 + of_char lo)"

definition ntohs_at :: "bytes \<Rightarrow> nat \<Rightarrow> fault + u16" where
  "ntohs_at buf i =
     ebind (rd_byte buf i) (\<lambda>hi. ebind (rd_byte buf (i + 1)) (\<lambda>lo. Inr (get_be16 hi lo)))"

lemma length_put_be16 [simp]: "length (put_be16 w) = 2"
  by (simp add: put_be16_def)

lemma u16_bound [simp]: "unat (w :: u16) < 65536"
  using unsigned_less [of w] by simp

lemma of_char_bound [simp]: "(of_char c :: nat) < 256"
proof -
  have "(of_char c :: nat) mod 256 < 256" by simp
  then show ?thesis by (simp only: of_char_mod_256)
qed

lemma get_put_be16 [simp]:
  "get_be16 (char_of (unat w div 256)) (char_of (unat w)) = w"
proof -
  have "unat w div 256 < 256"
    using u16_bound [of w] by (simp add: less_mult_imp_div_less)
  then have "unat w div 256 mod 256 * 256 + unat w mod 256 = unat w"
    by (simp add: mod_less)
  then show ?thesis
    by (simp only: get_be16_def of_char_of) simp
qed

lemma unat_get_be16: "unat (get_be16 hi lo) = of_char hi * 256 + of_char lo"
proof -
  have "(of_char hi :: nat) * 256 + of_char lo < 65536"
    using of_char_bound [of hi] of_char_bound [of lo] by linarith
  then show ?thesis
    by (simp only: get_be16_def unsigned_of_nat) (simp add: take_bit_nat_eq_self)
qed

lemma put_get_be16 [simp]: "put_be16 (get_be16 hi lo) = [hi, lo]"
proof -
  have "(of_char hi * 256 + of_char lo :: nat) div 256 = of_char hi"
    using of_char_bound [of lo] by simp
  moreover have "char_of (of_char hi * 256 + of_char lo :: nat) = lo"
    by (simp add: char_of_eq_iff take_bit_eq_mod)
  ultimately show ?thesis
    by (simp add: put_be16_def unat_get_be16)
qed

lemma ntohs_at_put:
  "i = length p \<Longrightarrow> ntohs_at (p @ put_be16 w @ t) i = Inr w"
  by (simp add: ntohs_at_def put_be16_def nth_append rd_byte_def)

lemma ntohs_at_Inr [simp]:
  "Suc i < length buf \<Longrightarrow> ntohs_at buf i = Inr (get_be16 (buf ! i) (buf ! Suc i))"
  by (simp add: ntohs_at_def)

end
