(* ===== verification/Posix.thy ===== *)
theory Posix
  imports Iw_Prelude "HOL-Library.AList"
begin

text \<open>
  The part of the C library and of POSIX that the sources call: \<open>malloc\<close>, \<open>stat\<close>,
  \<open>fopen\<close>/\<open>fread\<close>/\<open>fwrite\<close>/\<open>fclose\<close>, \<open>time\<close>, datagram sockets and the epoll set. The state of
  the operating system is the record \<open>world\<close>.

  Every call that may fail draws the next value of \<open>outcome\<close>: 0 lets the call succeed, another
  value makes it fail. The sequence of outcomes is an arbitrary function, so a theorem about all worlds
  covers every pattern of failures; \<open>fault_free\<close> names the worlds in which nothing fails.
  \<open>clock\<close> is what \<open>time(NULL)\<close> returns; it moves between two rounds of the event loop, not
  within a round. \<open>canon\<close> is the path resolution of the kernel: two paths designate the same
  file when \<open>canon\<close> maps them to the same name. Writes are visible in the file system at
  once (stdio buffering is not modelled).
\<close>

type_synonym saddr = "string \<times> u16"   \<comment> \<open>numeric host and port of a socket address\<close>

datatype fnode = Regular bytes | Directory | Special

record stream =
  spath :: string    \<comment> \<open>canonical path of the file\<close>
  swrite :: bool     \<comment> \<open>opened with mode \<open>"w"\<close>\<close>
  spos :: nat
  serr :: bool       \<comment> \<open>error indicator, what \<open>ferror\<close> returns\<close>

record dgram =
  dg_sock :: int
  dg_to :: saddr
  dg_bytes :: bytes

record world =
  outcome :: "nat \<Rightarrow> nat"
  tick :: nat
  clock :: int
  canon :: "string \<Rightarrow> string"
  fsys :: "string \<Rightarrow> fnode option"
  streams :: "nat \<Rightarrow> stream option"
  nstreams :: nat
  socks :: "(int \<times> saddr) list"   \<comment> \<open>open sockets with their local addresses\<close>
  epoll :: "int list"             \<comment> \<open>descriptors registered with the epoll instance\<close>
  sent :: "dgram list"            \<comment> \<open>datagrams handed to the network, oldest first\<close>

definition fault_free :: "world \<Rightarrow> bool" where
  "fault_free w \<longleftrightarrow> (\<forall>n. outcome w n = 0)"

definition draw :: "world \<Rightarrow> nat \<times> world" where
  "draw w = (outcome w (tick w), w\<lparr>tick := Suc (tick w)\<rparr>)"

section \<open>Memory and files\<close>

definition sys_malloc :: "world \<Rightarrow> bool \<times> world" where
  "sys_malloc w = (let (k, w) = draw w in (k = 0, w))"

definition sys_stat :: "world \<Rightarrow> string \<Rightarrow> fnode option" where
  "sys_stat w path = fsys w (canon w path)"

definition open_stream :: "world \<Rightarrow> string \<Rightarrow> bool \<Rightarrow> nat option \<times> world" where
  "open_stream w q wr =
     (Some (nstreams w),
      w\<lparr>streams := (streams w)(nstreams w \<mapsto> \<lparr>spath = q, swrite = wr, spos = 0, serr = False\<rparr>),
        nstreams := Suc (nstreams w)\<rparr>)"

definition sys_fopen :: "world \<Rightarrow> string \<Rightarrow> bool \<Rightarrow> nat option \<times> world" where
  "sys_fopen w path wr =
     (let (k, w) = draw w; q = canon w path in
      if k \<noteq> 0 then (None, w)
      else if \<not> wr then (case fsys w q of None \<Rightarrow> (None, w) | Some _ \<Rightarrow> open_stream w q False)
      else (case fsys w q of
          Some Directory \<Rightarrow> (None, w)
        | Some Special \<Rightarrow> open_stream w q True
        | _ \<Rightarrow> open_stream (w\<lparr>fsys := (fsys w)(q \<mapsto> Regular [])\<rparr>) q True))"

text \<open>\<open>fread(buf, 1, n, fp)\<close>: the bytes read. A fault \<open>k\<close> delivers at most \<open>k - 1\<close> bytes and sets
  the error indicator.\<close>

definition sys_fread :: "world \<Rightarrow> nat \<Rightarrow> nat \<Rightarrow> fault + bytes \<times> world" where
  "sys_fread w fp n =
     (case streams w fp of None \<Rightarrow> Inl (Use_after_free fp)
      | Some s \<Rightarrow>
        (let (k, w) = draw w in
         case fsys w (spath s) of
           Some (Regular c) \<Rightarrow>
             if swrite s then Inr ([], w\<lparr>streams := (streams w)(fp \<mapsto> s\<lparr>serr := True\<rparr>)\<rparr>)
             else
              (let bs = take (if k = 0 then n else min (k - 1) n) (drop (spos s) c) in
               Inr (bs, w\<lparr>streams := (streams w)(fp \<mapsto>
                 s\<lparr>spos := spos s + length bs, serr := serr s \<or> k \<noteq> 0\<rparr>)\<rparr>))
         | _ \<Rightarrow> Inr ([], w\<lparr>streams := (streams w)(fp \<mapsto> s\<lparr>serr := True\<rparr>)\<rparr>)))"

definition sys_ferror :: "world \<Rightarrow> nat \<Rightarrow> bool" where
  "sys_ferror w fp = (case streams w fp of None \<Rightarrow> False | Some s \<Rightarrow> serr s)"

text \<open>\<open>fwrite(bs, 1, length bs, fp)\<close>: the number of bytes written. A fault \<open>k\<close> writes at most
  \<open>k - 1\<close> bytes.\<close>

definition sys_fwrite :: "world \<Rightarrow> nat \<Rightarrow> bytes \<Rightarrow> fault + nat \<times> world" where
  "sys_fwrite w fp bs =
     (case streams w fp of None \<Rightarrow> Inl (Use_after_free fp)
      | Some s \<Rightarrow>
        (let (k, w) = draw w; out = take (if k = 0 then length bs else k - 1) bs;
             s' = s\<lparr>spos := spos s + length out, serr := serr s \<or> length out < length bs\<rparr> in
         case fsys w (spath s) of
           Some (Regular c) \<Rightarrow>
             if swrite s then
               Inr (length out,
                 w\<lparr>fsys := (fsys w)(spath s \<mapsto> Regular
                       (take (spos s) (c @ replicate (spos s - length c) NUL) @ out @
                        drop (spos s + length out) c)),
                   streams := (streams w)(fp \<mapsto> s')\<rparr>)
             else Inr (0, w\<lparr>streams := (streams w)(fp \<mapsto> s\<lparr>serr := True\<rparr>)\<rparr>)
         | Some Special \<Rightarrow> Inr (length out, w\<lparr>streams := (streams w)(fp \<mapsto> s')\<rparr>)
         | _ \<Rightarrow> Inr (0, w\<lparr>streams := (streams w)(fp \<mapsto> s\<lparr>serr := True\<rparr>)\<rparr>)))"

text \<open>\<open>fclose\<close> releases the stream whether it reports an error or not.\<close>

definition sys_fclose :: "world \<Rightarrow> nat \<Rightarrow> fault + bool \<times> world" where
  "sys_fclose w fp =
     (case streams w fp of None \<Rightarrow> Inl (Use_after_free fp)
      | Some s \<Rightarrow>
        (let (k, w) = draw w in Inr (k = 0, w\<lparr>streams := (streams w)(fp := None)\<rparr>)))"

section \<open>Sockets\<close>

text \<open>A new descriptor is not in use; which one it is, the environment chooses (the least free
  one from the drawn value on).\<close>

fun pick_fd :: "nat \<Rightarrow> int list \<Rightarrow> int \<Rightarrow> int" where
  "pick_fd 0 used k = k"
| "pick_fd (Suc f) used k = (if k \<in> set used then pick_fd f used (k + 1) else k)"

definition sys_socket :: "world \<Rightarrow> int option \<times> world" where
  "sys_socket w =
     (let (k, w) = draw w; (c, w) = draw w; used = map fst (socks w);
          fd = pick_fd (length used) used (int c) in
      if k \<noteq> 0 then (None, w) else (Some fd, w\<lparr>socks := (fd, ('''', 0)) # socks w\<rparr>))"

text \<open>\<open>bind\<close> to \<open>ip\<close> and a port; port 0 (no service given) lets the environment choose one.\<close>

definition sys_bind :: "world \<Rightarrow> int \<Rightarrow> string \<Rightarrow> u16 \<Rightarrow> bool \<times> world" where
  "sys_bind w fd ip port =
     (let (k, w) = draw w; (c, w) = draw w; p = (if port = 0 then of_nat c else port) in
      if k \<noteq> 0 then (False, w)
      else (True, w\<lparr>socks := AList.update fd (ip, p) (socks w)\<rparr>))"

text \<open>Any other call that only succeeds or fails (\<open>getaddrinfo\<close>, \<open>setsockopt\<close>, \<open>getnameinfo\<close>).\<close>

definition sys_call :: "world \<Rightarrow> bool \<times> world" where
  "sys_call w = (let (k, w) = draw w in (k = 0, w))"

definition sys_getsockname :: "world \<Rightarrow> int \<Rightarrow> saddr option \<times> world" where
  "sys_getsockname w fd =
     (let (k, w) = draw w in (if k \<noteq> 0 then None else map_of (socks w) fd, w))"

definition sys_close :: "world \<Rightarrow> int \<Rightarrow> world" where
  "sys_close w fd =
     w\<lparr>socks := filter (\<lambda>(f, _). f \<noteq> fd) (socks w), epoll := removeAll fd (epoll w)\<rparr>"

text \<open>\<open>sendto(fd, buf, len, 0, to)\<close>: a length below 0 converts to a size no datagram has, and
  the call fails.\<close>

definition sys_sendto :: "world \<Rightarrow> int \<Rightarrow> bytes \<Rightarrow> int \<Rightarrow> saddr \<Rightarrow> fault + bool \<times> world" where
  "sys_sendto w fd buf len to =
     (let (k, w) = draw w in
      if k \<noteq> 0 \<or> len < 0 \<or> map_of (socks w) fd = None then Inr (False, w)
      else ebind (rd_bytes buf 0 (nat len)) (\<lambda>bs.
        Inr (True, w\<lparr>sent := sent w @ [\<lparr>dg_sock = fd, dg_to = to, dg_bytes = bs\<rparr>]\<rparr>)))"

definition sys_epoll_add :: "world \<Rightarrow> int \<Rightarrow> bool \<times> world" where
  "sys_epoll_add w fd =
     (let (k, w) = draw w in
      if k \<noteq> 0 \<or> map_of (socks w) fd = None \<or> fd \<in> set (epoll w) then (False, w)
      else (True, w\<lparr>epoll := fd # epoll w\<rparr>))"

definition sys_epoll_del :: "world \<Rightarrow> int \<Rightarrow> bool \<times> world" where
  "sys_epoll_del w fd =
     (let (k, w) = draw w in
      if k \<noteq> 0 \<or> fd \<notin> set (epoll w) then (False, w)
      else (True, w\<lparr>epoll := removeAll fd (epoll w)\<rparr>))"

section \<open>What the calls leave alone\<close>

text \<open>No call changes the outcomes to come, the clock or the path resolution.\<close>

named_theorems env_eq

definition same_env :: "world \<Rightarrow> world \<Rightarrow> bool" where
  "same_env w w' \<longleftrightarrow> outcome w' = outcome w \<and> clock w' = clock w \<and> canon w' = canon w"

lemma same_env_refl [simp]: "same_env w w"
  by (simp add: same_env_def)

lemma same_env_trans [trans]: "\<lbrakk>same_env w w'; same_env w' w''\<rbrakk> \<Longrightarrow> same_env w w''"
  by (simp add: same_env_def)

lemma same_env_fault_free: "\<lbrakk>same_env w w'; fault_free w\<rbrakk> \<Longrightarrow> fault_free w'"
  by (simp add: same_env_def fault_free_def)

lemma fault_free_draw: "fault_free w \<Longrightarrow> draw w = (0, w\<lparr>tick := Suc (tick w)\<rparr>)"
  by (simp add: draw_def fault_free_def)

lemma fault_free_upd [simp]:
  "fault_free (w\<lparr>tick := t\<rparr>) = fault_free w" "fault_free (w\<lparr>fsys := f\<rparr>) = fault_free w"
  "fault_free (w\<lparr>streams := s\<rparr>) = fault_free w" "fault_free (w\<lparr>nstreams := k\<rparr>) = fault_free w"
  "fault_free (w\<lparr>socks := so\<rparr>) = fault_free w" "fault_free (w\<lparr>epoll := e\<rparr>) = fault_free w"
  "fault_free (w\<lparr>sent := d\<rparr>) = fault_free w"
  by (simp_all add: fault_free_def)

lemma env_malloc [env_eq]: "sys_malloc w = (b, w') \<Longrightarrow> same_env w w'"
  by (auto simp: sys_malloc_def draw_def same_env_def)

lemma env_fopen [env_eq]: "sys_fopen w p m = (r, w') \<Longrightarrow> same_env w w'"
  by (auto simp: sys_fopen_def draw_def same_env_def open_stream_def Let_def
      split: if_splits option.splits fnode.splits)

lemma env_fread [env_eq]: "sys_fread w fp n = Inr (bs, w') \<Longrightarrow> same_env w w'"
  by (auto simp: sys_fread_def draw_def same_env_def Let_def
      split: if_splits option.splits fnode.splits)

lemma env_fwrite [env_eq]: "sys_fwrite w fp bs = Inr (n, w') \<Longrightarrow> same_env w w'"
  by (auto simp: sys_fwrite_def draw_def same_env_def Let_def
      split: if_splits option.splits fnode.splits)

lemma env_fclose [env_eq]: "sys_fclose w fp = Inr (b, w') \<Longrightarrow> same_env w w'"
  by (auto simp: sys_fclose_def draw_def same_env_def Let_def split: option.splits)

lemma env_socket [env_eq]: "sys_socket w = (r, w') \<Longrightarrow> same_env w w'"
  by (auto simp: sys_socket_def draw_def same_env_def Let_def split: if_splits)

lemma env_bind [env_eq]: "sys_bind w fd ip p = (r, w') \<Longrightarrow> same_env w w'"
  by (auto simp: sys_bind_def draw_def same_env_def Let_def split: if_splits)

lemma env_call [env_eq]: "sys_call w = (r, w') \<Longrightarrow> same_env w w'"
  by (auto simp: sys_call_def draw_def same_env_def)

lemma env_getsockname [env_eq]: "sys_getsockname w fd = (r, w') \<Longrightarrow> same_env w w'"
  by (auto simp: sys_getsockname_def draw_def same_env_def)

lemma env_close [env_eq]: "same_env w (sys_close w fd)"
  by (simp add: sys_close_def same_env_def)

lemma env_sendto [env_eq]: "sys_sendto w fd buf n to = Inr (r, w') \<Longrightarrow> same_env w w'"
  by (auto simp: sys_sendto_def draw_def same_env_def ebind_Inr_iff split: if_splits)

lemma env_epoll_add [env_eq]: "sys_epoll_add w fd = (r, w') \<Longrightarrow> same_env w w'"
  by (auto simp: sys_epoll_add_def draw_def same_env_def Let_def split: if_splits)

lemma env_epoll_del [env_eq]: "sys_epoll_del w fd = (r, w') \<Longrightarrow> same_env w w'"
  by (auto simp: sys_epoll_del_def draw_def same_env_def Let_def split: if_splits)

text \<open>The network calls touch neither files nor streams.\<close>

definition same_files :: "world \<Rightarrow> world \<Rightarrow> bool" where
  "same_files w w' \<longleftrightarrow> fsys w' = fsys w \<and> streams w' = streams w \<and> nstreams w' = nstreams w"

named_theorems files_eq

lemma same_files_refl [simp]: "same_files w w"
  by (simp add: same_files_def)

lemma same_files_trans [trans]: "\<lbrakk>same_files w w'; same_files w' w''\<rbrakk> \<Longrightarrow> same_files w w''"
  by (simp add: same_files_def)

lemma files_malloc [files_eq]: "sys_malloc w = (b, w') \<Longrightarrow> same_files w w'"
  by (auto simp: sys_malloc_def draw_def same_files_def)

lemma files_socket [files_eq]: "sys_socket w = (r, w') \<Longrightarrow> same_files w w'"
  by (auto simp: sys_socket_def draw_def same_files_def Let_def split: if_splits)

lemma files_bind [files_eq]: "sys_bind w fd ip p = (r, w') \<Longrightarrow> same_files w w'"
  by (auto simp: sys_bind_def draw_def same_files_def Let_def split: if_splits)

lemma files_call [files_eq]: "sys_call w = (r, w') \<Longrightarrow> same_files w w'"
  by (auto simp: sys_call_def draw_def same_files_def)

lemma files_getsockname [files_eq]: "sys_getsockname w fd = (r, w') \<Longrightarrow> same_files w w'"
  by (auto simp: sys_getsockname_def draw_def same_files_def)

lemma files_close [files_eq]: "same_files w (sys_close w fd)"
  by (simp add: sys_close_def same_files_def)

lemma files_sendto [files_eq]: "sys_sendto w fd buf n to = Inr (r, w') \<Longrightarrow> same_files w w'"
  by (auto simp: sys_sendto_def draw_def same_files_def ebind_Inr_iff split: if_splits)

lemma files_epoll_add [files_eq]: "sys_epoll_add w fd = (r, w') \<Longrightarrow> same_files w w'"
  by (auto simp: sys_epoll_add_def draw_def same_files_def Let_def split: if_splits)

lemma files_epoll_del [files_eq]: "sys_epoll_del w fd = (r, w') \<Longrightarrow> same_files w w'"
  by (auto simp: sys_epoll_del_def draw_def same_files_def Let_def split: if_splits)

section \<open>Descriptors\<close>

lemma pick_fd_ge: "k \<le> pick_fd f used k"
proof (induction f arbitrary: k)
  case (Suc f)
  show ?case using Suc [of "k + 1"] by simp
qed simp

lemma pick_fd_unused: "distinct used \<Longrightarrow> pick_fd (length used) used k \<notin> set used"
proof -
  have "length (filter (\<lambda>x. k \<le> x) used) \<le> f \<Longrightarrow> distinct used \<Longrightarrow> pick_fd f used k \<notin> set used" for f
  proof (induction f arbitrary: k)
    case 0
    then show ?case by (auto simp: filter_empty_conv)
  next
    case (Suc f)
    show ?case
    proof (cases "k \<in> set used")
      case True
      have "filter (\<lambda>x. k + 1 \<le> x) used = remove1 k (filter (\<lambda>x. k \<le> x) used)"
        using Suc.prems(2) by (simp add: distinct_remove1_removeAll removeAll_filter_not_eq)
          (rule filter_cong, auto)
      moreover have "length (remove1 k (filter (\<lambda>x. k \<le> x) used)) \<le> f"
        using Suc.prems(1) True by (simp add: length_remove1)
      ultimately show ?thesis using Suc.IH [of "k + 1"] Suc.prems(2) True by simp
    qed simp
  qed
  then show "distinct used \<Longrightarrow> pick_fd (length used) used k \<notin> set used" by simp
qed

lemma socket_fresh:
  "\<lbrakk>sys_socket w = (Some fd, w'); distinct (map fst (socks w))\<rbrakk> \<Longrightarrow>
   fd \<notin> fst ` set (socks w) \<and> distinct (map fst (socks w'))"
  using pick_fd_unused [of "map fst (socks w)"]
  by (auto simp: sys_socket_def draw_def Let_def split: if_splits)

section \<open>Opening a file\<close>

definition new_stream :: "string \<Rightarrow> bool \<Rightarrow> stream" where
  "new_stream q wr = \<lparr>spath = q, swrite = wr, spos = 0, serr = False\<rparr>"

lemma sys_fopen_cases:
  assumes "sys_fopen w path wr = (r, w')"
  obtains (fail) "r = None" "same_files w w'" "same_env w w'"
  | (opened) "r = Some (nstreams w)" "same_env w w'" "nstreams w' = Suc (nstreams w)"
      "streams w' = (streams w)(nstreams w \<mapsto> new_stream (canon w path) wr)"
      "fsys w' = (if wr \<and> fsys w (canon w path) \<noteq> Some Special
                  then (fsys w)(canon w path \<mapsto> Regular []) else fsys w)"
      "if wr then fsys w (canon w path) \<noteq> Some Directory else fsys w (canon w path) \<noteq> None"
  using assms
  by (auto simp: sys_fopen_def draw_def open_stream_def Let_def same_files_def same_env_def
      new_stream_def split: if_splits option.splits fnode.splits)

lemma sys_fopen_ok:
  assumes "fault_free w"
    and "if wr then fsys w (canon w path) \<noteq> Some Directory else fsys w (canon w path) \<noteq> None"
  shows "\<exists>w'. sys_fopen w path wr = (Some (nstreams w), w')"
  using assms by (auto simp: sys_fopen_def fault_free_draw open_stream_def Let_def
      split: option.splits fnode.splits if_splits)

section \<open>Files no stream writes\<close>

text \<open>\<open>guarded w q c\<close>: the regular file \<open>q\<close> holds \<open>c\<close> and no open stream can write to it.\<close>

definition guarded :: "world \<Rightarrow> string \<Rightarrow> bytes \<Rightarrow> bool" where
  "guarded w q c \<longleftrightarrow> fsys w q = Some (Regular c) \<and>
     (\<forall>fp s. streams w fp = Some s \<longrightarrow> swrite s \<longrightarrow> spath s \<noteq> q)"

lemma guarded_same_files: "\<lbrakk>same_files w w'; guarded w q c\<rbrakk> \<Longrightarrow> guarded w' q c"
  by (simp add: same_files_def guarded_def)

lemma guarded_fread: "\<lbrakk>sys_fread w fp n = Inr (bs, w'); guarded w q c\<rbrakk> \<Longrightarrow> guarded w' q c"
  by (auto simp: sys_fread_def draw_def guarded_def Let_def
      split: if_splits option.splits fnode.splits; blast)

lemma guarded_fwrite: "\<lbrakk>sys_fwrite w fp bs = Inr (n, w'); guarded w q c\<rbrakk> \<Longrightarrow> guarded w' q c"
  by (auto simp: sys_fwrite_def draw_def guarded_def Let_def
      split: if_splits option.splits fnode.splits; blast)

lemma guarded_fclose: "\<lbrakk>sys_fclose w fp = Inr (b, w'); guarded w q c\<rbrakk> \<Longrightarrow> guarded w' q c"
  by (auto simp: sys_fclose_def draw_def guarded_def Let_def split: if_splits option.splits; blast)

lemma guarded_fopen_read: "\<lbrakk>sys_fopen w p False = (r, w'); guarded w q c\<rbrakk> \<Longrightarrow> guarded w' q c"
  by (auto simp: sys_fopen_def draw_def guarded_def open_stream_def Let_def
      split: if_splits option.splits fnode.splits; blast)

text \<open>Opening for writing spares every file but the one the path designates.\<close>

lemma guarded_fopen_write:
  "\<lbrakk>sys_fopen w p True = (r, w'); guarded w q c; canon w p \<noteq> q\<rbrakk> \<Longrightarrow> guarded w' q c"
  by (auto simp: sys_fopen_def draw_def guarded_def open_stream_def Let_def
      split: if_splits option.splits fnode.splits; blast)

section \<open>Files out of reach\<close>

text \<open>\<open>apart w q\<close>: no path of the process resolves to \<open>q\<close> and no open stream writes to it. A
  step is \<open>confined\<close> when it leaves all such files, directories and free names as they are.\<close>

definition apart :: "world \<Rightarrow> string \<Rightarrow> bool" where
  "apart w q \<longleftrightarrow> (\<forall>p. canon w p \<noteq> q) \<and> (\<forall>fp s. streams w fp = Some s \<longrightarrow> swrite s \<longrightarrow> spath s \<noteq> q)"

definition confined :: "world \<Rightarrow> world \<Rightarrow> bool" where
  "confined w w' \<longleftrightarrow> (\<forall>q. apart w q \<longrightarrow> apart w' q \<and> fsys w' q = fsys w q)"

lemma confined_refl [simp]: "confined w w"
  by (simp add: confined_def)

lemma confined_trans [trans]: "\<lbrakk>confined w w'; confined w' w''\<rbrakk> \<Longrightarrow> confined w w''"
  by (simp add: confined_def)

lemma confined_same: "\<lbrakk>same_files w w'; same_env w w'\<rbrakk> \<Longrightarrow> confined w w'"
  by (simp add: confined_def apart_def same_files_def same_env_def)

lemma confined_upd [simp]:
  "confined w (w\<lparr>tick := t\<rparr>)" "confined w (w\<lparr>clock := now\<rparr>)" "confined w (w\<lparr>tick := t, sent := d\<rparr>)"
  by (simp_all add: confined_def apart_def)

lemma confined_fopen:
  assumes "sys_fopen w p m = (r, w')"
  shows "confined w w'"
  using assms
proof (cases rule: sys_fopen_cases)
  case fail
  then show ?thesis by (simp add: confined_same)
next
  case opened
  have "apart w' q \<and> fsys w' q = fsys w q" if a: "apart w q" for q
  proof -
    have "q \<noteq> canon w p" using a unfolding apart_def by blast
    moreover have "canon w' = canon w" using opened(2) by (simp add: same_env_def)
    ultimately show ?thesis using a opened(4,5) by (auto simp: apart_def new_stream_def)
  qed
  then show ?thesis by (simp add: confined_def)
qed

lemma confined_fread: "sys_fread w fp n = Inr (bs, w') \<Longrightarrow> confined w w'"
  by (auto simp: sys_fread_def draw_def confined_def apart_def Let_def
      split: if_splits option.splits fnode.splits; blast)

lemma confined_fwrite: "sys_fwrite w fp bs = Inr (n, w') \<Longrightarrow> confined w w'"
  by (auto simp: sys_fwrite_def draw_def confined_def apart_def Let_def
      split: if_splits option.splits fnode.splits; blast)

lemma confined_fclose: "sys_fclose w fp = Inr (b, w') \<Longrightarrow> confined w w'"
  by (auto simp: sys_fclose_def draw_def confined_def apart_def Let_def split: if_splits option.splits; blast)

text \<open>A step of file work: the environment and the network stay, files out of reach do, and so does
  every guarded file but the one named \<open>x\<close>.\<close>

definition fstep :: "string option \<Rightarrow> world \<Rightarrow> world \<Rightarrow> bool" where
  "fstep x w w' \<longleftrightarrow> same_env w w' \<and> confined w w' \<and> socks w' = socks w \<and> epoll w' = epoll w \<and> sent w' = sent w \<and>
     (\<forall>q c. guarded w q c \<longrightarrow> x \<noteq> Some q \<longrightarrow> guarded w' q c)"

lemma fstep_refl [simp]: "fstep x w w"
  by (simp add: fstep_def)

lemma fstep_trans [trans]: "\<lbrakk>fstep x w w'; fstep x w' w''\<rbrakk> \<Longrightarrow> fstep x w w''"
  by (auto simp: fstep_def intro: same_env_trans confined_trans)

lemma fstep_None: "fstep None w w' \<Longrightarrow> fstep x w w'"
  by (simp add: fstep_def)

lemma fstep_env: "fstep x w w' \<Longrightarrow> same_env w w'"
  by (simp add: fstep_def)

lemma fstep_tick [simp]: "fstep x w (w\<lparr>tick := t\<rparr>)"
  by (simp add: fstep_def same_env_def guarded_def)

lemma fstep_malloc: "sys_malloc w = (b, w') \<Longrightarrow> fstep x w w'"
  by (auto simp: sys_malloc_def draw_def)

lemma fstep_call: "sys_call w = (b, w') \<Longrightarrow> fstep x w w'"
  by (auto simp: sys_call_def draw_def)

lemma fopen_net: "sys_fopen w p m = (r, w') \<Longrightarrow> socks w' = socks w \<and> epoll w' = epoll w \<and> sent w' = sent w"
  by (auto simp: sys_fopen_def draw_def open_stream_def Let_def
      split: if_splits option.splits fnode.splits)

lemma fread_net:
  "sys_fread w fp n = Inr (r, w') \<Longrightarrow> socks w' = socks w \<and> epoll w' = epoll w \<and> sent w' = sent w"
  by (auto simp: sys_fread_def draw_def Let_def split: if_splits option.splits fnode.splits)

lemma fwrite_net:
  "sys_fwrite w fp bs = Inr (r, w') \<Longrightarrow> socks w' = socks w \<and> epoll w' = epoll w \<and> sent w' = sent w"
  by (auto simp: sys_fwrite_def draw_def Let_def split: if_splits option.splits fnode.splits)

lemma fclose_net:
  "sys_fclose w fp = Inr (r, w') \<Longrightarrow> socks w' = socks w \<and> epoll w' = epoll w \<and> sent w' = sent w"
  by (auto simp: sys_fclose_def draw_def Let_def split: option.splits)

lemma fstep_fopen_read: "sys_fopen w p False = (r, w') \<Longrightarrow> fstep x w w'"
  using fopen_net env_fopen confined_fopen guarded_fopen_read by (simp add: fstep_def)

lemma fstep_fopen_write: "sys_fopen w p True = (r, w') \<Longrightarrow> fstep (Some (canon w p)) w w'"
  using fopen_net env_fopen confined_fopen guarded_fopen_write by (simp add: fstep_def)

lemma fstep_fread: "sys_fread w fp n = Inr (bs, w') \<Longrightarrow> fstep x w w'"
  using fread_net env_fread confined_fread guarded_fread by (simp add: fstep_def)

lemma fstep_fwrite: "sys_fwrite w fp bs = Inr (n, w') \<Longrightarrow> fstep x w w'"
  using fwrite_net env_fwrite confined_fwrite guarded_fwrite by (simp add: fstep_def)

lemma fstep_fclose: "sys_fclose w fp = Inr (b, w') \<Longrightarrow> fstep x w w'"
  using fclose_net env_fclose confined_fclose guarded_fclose by (simp add: fstep_def)

text \<open>Both together: files out of reach stay, and so does every regular file nobody writes.\<close>

definition untouched :: "world \<Rightarrow> world \<Rightarrow> bool" where
  "untouched w w' \<longleftrightarrow> confined w w' \<and> (\<forall>q c. guarded w q c \<longrightarrow> guarded w' q c)"

lemma untouched_refl [simp]: "untouched w w"
  by (simp add: untouched_def)

lemma untouched_trans [trans]: "\<lbrakk>untouched w w'; untouched w' w''\<rbrakk> \<Longrightarrow> untouched w w''"
  by (auto simp: untouched_def intro: confined_trans)

lemma untouched_same: "\<lbrakk>same_files w w'; same_env w w'\<rbrakk> \<Longrightarrow> untouched w w'"
  by (auto simp: untouched_def intro: confined_same guarded_same_files)

lemma untouched_upd [simp]:
  "untouched w (w\<lparr>tick := t\<rparr>)" "untouched w (w\<lparr>clock := now\<rparr>)" "untouched w (w\<lparr>tick := t, sent := d\<rparr>)"
  by (simp_all add: untouched_def guarded_def)

lemma fstep_untouched: "fstep None w w' \<Longrightarrow> untouched w w'"
  by (simp add: fstep_def untouched_def)

end
