(* ===== verification/Util.thy ===== *)
theory Util
  imports Iw_Prelude
begin

text \<open>
  \<open>util.c\<close>: \<open>join_path\<close> joins a directory and a file name into a caller's buffer. The buffer is
  modelled as the array it is, so that each store through the pointer \<open>pm\<close> is checked
  against its end; \<open>pm\<close> is the index into it. \<open>joined\<close> is the path the function promises.
\<close>

abbreviation SLASH :: char where "SLASH \<equiv> CHR 0x2F"

text \<open>\<open>while (*src && len < bufsize) { *pm++ = *src++; len++; }\<close>\<close>

fun copy_loop :: "string \<Rightarrow> bytes \<Rightarrow> nat \<Rightarrow> nat \<Rightarrow> nat \<Rightarrow> fault + (bytes \<times> nat \<times> nat)" where
  "copy_loop [] buf pm len bufsize = Inr (buf, pm, len)"
| "copy_loop (c # cs) buf pm len bufsize =
     (if len < bufsize
      then ebind (wr_byte buf pm c) (\<lambda>buf. copy_loop cs buf (Suc pm) (Suc len) bufsize)
      else Inr (buf, pm, len))"

text \<open>\<open>*(pm - 1)\<close>\<close>

definition prev_byte :: "bytes \<Rightarrow> nat \<Rightarrow> fault + char" where
  "prev_byte buf pm = (if pm = 0 then Inl Out_of_bounds else rd_byte buf (pm - 1))"

definition wr_prev :: "bytes \<Rightarrow> nat \<Rightarrow> char \<Rightarrow> fault + bytes" where
  "wr_prev buf pm c = (if pm = 0 then Inl Out_of_bounds else wr_byte buf (pm - 1) c)"

definition join_path :: "string \<Rightarrow> string \<Rightarrow> bytes \<Rightarrow> nat \<Rightarrow> fault + (int \<times> bytes)" where
  "join_path head tail buf bufsize =
     ebind (copy_loop head buf 0 0 bufsize) (\<lambda>(buf, pm, len).
     if len = bufsize then ebind (wr_prev buf pm NUL) (\<lambda>buf. Inr (-1, buf))
     else
     ebind (prev_byte buf pm) (\<lambda>c.
     ebind (if c \<noteq> SLASH then ebind (wr_byte buf pm SLASH) (\<lambda>buf. Inr (buf, Suc pm))
            else Inr (buf, pm)) (\<lambda>(buf, pm).
     ebind (copy_loop (dropWhile (\<lambda>c. c = SLASH) tail) buf pm len bufsize) (\<lambda>(buf, pm, len).
     if len = bufsize then ebind (wr_prev buf pm NUL) (\<lambda>buf. Inr (-1, buf))
     else ebind (wr_byte buf pm NUL) (\<lambda>buf. Inr (int len, buf))))))"

definition joined :: "string \<Rightarrow> string \<Rightarrow> string" where
  "joined head tail =
     (if last head = SLASH then head else head @ [SLASH]) @ dropWhile (\<lambda>c. c = SLASH) tail"

section \<open>The copy loop\<close>

lemma copy_loop_fits:
  assumes "len + length cs \<le> bufsize" and "length pre = pm" and "length cs \<le> length rest"
  shows "copy_loop cs (pre @ rest) pm len bufsize =
    Inr (pre @ cs @ drop (length cs) rest, pm + length cs, len + length cs)"
  using assms
proof (induction cs arbitrary: pre rest pm len)
  case (Cons c cs)
  then obtain r rs where r: "rest = r # rs" by (cases rest) auto
  have "wr_byte (pre @ rest) pm c = Inr ((pre @ [c]) @ rs)"
    using Cons.prems r by (auto simp: list_update_append)
  moreover have "copy_loop cs ((pre @ [c]) @ rs) (Suc pm) (Suc len) bufsize =
      Inr ((pre @ [c]) @ cs @ drop (length cs) rs, Suc pm + length cs, Suc len + length cs)"
    using Cons.prems r by (intro Cons.IH) auto
  ultimately show ?case
    using Cons.prems r by simp
qed simp

text \<open>A string longer than the rest of the array runs off its end, unless the count stops
  the loop first.\<close>

lemma copy_loop_overflow:
  assumes "pm + length cs > length buf" and "pm \<le> length buf" and "len + (length buf - pm) < bufsize"
  shows "copy_loop cs buf pm len bufsize = Inl Out_of_bounds"
  using assms
proof (induction cs arbitrary: buf pm len)
  case (Cons c cs)
  show ?case
  proof (cases "pm < length buf")
    case True
    have "copy_loop cs (buf[pm := c]) (Suc pm) (Suc len) bufsize = Inl Out_of_bounds"
      using Cons.prems True by (intro Cons.IH) auto
    with True Cons.prems show ?thesis by simp
  next
    case False
    with Cons.prems show ?thesis by (simp add: wr_byte_def)
  qed
qed simp

section \<open>The result of joining\<close>

lemma cstring_joined: "\<lbrakk>is_cstring head; is_cstring tail\<rbrakk> \<Longrightarrow> is_cstring (joined head tail)"
  by (auto simp: joined_def is_cstring_def dest: set_dropWhileD)

lemma length_dropWhile_slash: "length (dropWhile (\<lambda>c. c = SLASH) tail) \<le> length tail"
  by (rule length_dropWhile_le)

lemma join_path_steps:
  assumes "head \<noteq> []" and "length buf = bufsize" and "tl' = dropWhile (\<lambda>c. c = SLASH) tail"
    and "length (joined head tail) < bufsize"
  shows "join_path head tail buf bufsize =
    Inr (int (length head + length tl'),
         joined head tail @ NUL # drop (Suc (length (joined head tail))) buf)"
proof -
  let ?H = "if last head = SLASH then head else head @ [SLASH]"
  have jn: "joined head tail = ?H @ tl'" using assms(3) by (simp add: joined_def)
  have lens: "length ?H + length tl' < bufsize" using assms(4) jn by simp
  have 1: "copy_loop head buf 0 0 bufsize =
      Inr (head @ drop (length head) buf, length head, length head)"
    using copy_loop_fits [of 0 head bufsize "[]" 0 buf] lens assms(2)
    by (auto split: if_splits)
  have 2: "prev_byte (head @ drop (length head) buf) (length head) = Inr (last head)"
    using assms(1) by (cases head rule: rev_cases) (auto simp: prev_byte_def rd_byte_def nth_append)
  have sl: "(head @ drop (length head) buf)[length head := SLASH] =
      (head @ [SLASH]) @ drop (Suc (length head)) buf" if "length head < length buf"
    using that by (simp add: list_update_append Cons_nth_drop_Suc [symmetric])
  have 3: "(if last head \<noteq> SLASH
        then ebind (wr_byte (head @ drop (length head) buf) (length head) SLASH)
               (\<lambda>buf. Inr (buf, Suc (length head)))
        else Inr (head @ drop (length head) buf, length head)) =
      Inr (?H @ drop (length ?H) buf, length ?H)"
    using lens assms(2) by (auto simp: sl)
  have 4: "copy_loop tl' (?H @ drop (length ?H) buf) (length ?H) (length head) bufsize =
      Inr (?H @ tl' @ drop (length tl') (drop (length ?H) buf), length ?H + length tl',
        length head + length tl')"
    using lens assms(2) by (intro copy_loop_fits) (auto split: if_splits)
  have 5: "wr_byte (?H @ tl' @ drop (length tl') (drop (length ?H) buf)) (length ?H + length tl') NUL =
      Inr (?H @ tl' @ NUL # drop (Suc (length (?H @ tl'))) buf)"
    using lens assms(2)
    by (auto simp: wr_byte_def list_update_append add.commute Cons_nth_drop_Suc [symmetric])
  have neq: "length head \<noteq> bufsize" "length head + length tl' \<noteq> bufsize"
    using lens by (auto split: if_splits)
  show ?thesis
    unfolding join_path_def 1 ebind_simps prod.case
    using neq 2 3 4 5 assms(3) by (simp add: jn)
qed

text \<open>C33: in the buffer both callers allocate (\<open>strlen(dir) + strlen(file) + 2\<close> bytes) \<open>join_path\<close>
  never writes out of bounds, never fails, and leaves the directory, exactly one separating
  slash and the file name without its leading slashes, NUL-terminated.\<close>

theorem join_path_caller:
  assumes "head \<noteq> []" and "is_cstring head" and "is_cstring tail"
    and "length buf = length head + length tail + 2"
  shows "\<exists>r buf'. join_path head tail buf (length buf) = Inr (r, buf') \<and> r \<noteq> -1 \<and>
    length buf' = length buf \<and> cstr_at buf' 0 = Inr (joined head tail)"
proof -
  let ?t = "dropWhile (\<lambda>c. c = SLASH) tail"
  have len: "length (joined head tail) < length buf"
    using length_dropWhile_slash [of tail] assms(4) by (simp add: joined_def)
  have "cstr_at (joined head tail @ NUL # drop (Suc (length (joined head tail))) buf) 0 =
      Inr (joined head tail)"
    using cstr_at_append [of "joined head tail" 0 "[]"] assms(2,3) by (simp add: cstring_joined)
  with join_path_steps [OF assms(1) refl refl len] len show ?thesis
    by (auto simp: of_nat_add [symmetric] simp del: of_nat_add)
qed

theorem join_path_caller_witness:
  "\<exists>r buf'. join_path ''/'' ''/a'' (replicate 5 NUL) 5 = Inr (r, buf') \<and> r \<noteq> -1 \<and>
    length buf' = 5 \<and> cstr_at buf' 0 = Inr ''/a''"
  using join_path_caller [of "''/''" "''/a''" "replicate 5 NUL"]
  by (simp add: is_cstring_def joined_def)

text \<open>A joined path that does not fit: the terminator is the first byte written behind the buffer, or
  the copy of the file name runs off its end before.\<close>

lemma join_path_overflows:
  assumes "head \<noteq> []" and "last head \<noteq> SLASH" and "length head < length buf"
    and long: "length buf \<le> length (joined head tail)"
  shows "join_path head tail buf (length buf) = Inl Out_of_bounds"
proof -
  define t where t: "t = dropWhile (\<lambda>c. c = SLASH) tail"
  have j: "length (joined head tail) = Suc (length head + length t)"
    using assms(2) by (simp add: joined_def t)
  let ?b = "head @ drop (length head) buf"
  have 1: "copy_loop head buf 0 0 (length buf) = Inr (?b, length head, length head)"
    using copy_loop_fits [of 0 head "length buf" "[]" 0 buf] assms(3) by simp
  have 2: "prev_byte ?b (length head) = Inr (last head)"
    using assms(1) by (cases head rule: rev_cases) (auto simp: prev_byte_def rd_byte_def nth_append)
  show ?thesis
  proof (cases "length head + length t = length head")
    case True
    then have "Suc (length head) = length buf" using long j assms(3) by simp
    then show ?thesis
      using assms(2,3) 1 2 True by (simp add: join_path_def t [symmetric] wr_byte_def)
  next
    case False
    show ?thesis
    proof (cases "Suc (length head + length t) = length buf")
      case True
      let ?b2 = "(?b[length head := SLASH])"
      have b2: "?b2 = (head @ [SLASH]) @ drop (Suc (length head)) buf"
        using assms(3) by (simp add: list_update_append Cons_nth_drop_Suc [symmetric])
      have "copy_loop t ?b2 (Suc (length head)) (length head) (length buf) =
          Inr ((head @ [SLASH]) @ t @ drop (length t) (drop (Suc (length head)) buf),
            Suc (length head) + length t, length head + length t)"
        unfolding b2 using True by (intro copy_loop_fits) auto
      then show ?thesis
        using assms(2,3) 1 2 True by (simp add: join_path_def t [symmetric] wr_byte_def)
    next
      case neq: False
      have "copy_loop t (?b[length head := SLASH]) (Suc (length head)) (length head) (length buf)
          = Inl Out_of_bounds"
        using neq long j assms(3) by (intro copy_loop_overflow) auto
      then show ?thesis
        using assms(2,3) 1 2 by (simp add: join_path_def t [symmetric])
    qed
  qed
qed



end
