(* ===== verification/Dll.thy ===== *)
theory Dll
  imports Iw_Prelude
begin

text \<open>
  Intrusive doubly linked lists on a heap. Both \<open>struct session\<close> (\<open>tftp.h\<close>) and
  \<open>struct dsession\<close> (\<open>datastore.h\<close>) begin with the two pointers \<open>next\<close> and \<open>prev\<close>; the
  model's node types extend the record \<open>dnode\<close>, so that the memory primitives and the
  list lemmas below serve both. A heap maps the addresses of the allocated nodes to their
  contents; reading or writing any other address is the fault \<^const>\<open>Use_after_free\<close>.

  The locale \<open>keyed_list\<close> is the contract the two session tables share: nodes carry a key
  that does not depend on the links, tables are searched by key, and keys stay unique. It
  is interpreted in the theories Datastore and Tftp\_Session.
\<close>

section \<open>Nodes, loads and stores\<close>

record dnode =
  nxt :: "nat option"
  prv :: "nat option"

type_synonym 'z heap = "nat \<Rightarrow> 'z dnode_scheme option"

definition load :: "'z heap \<Rightarrow> nat \<Rightarrow> fault + 'z dnode_scheme" where
  "load h a = (case h a of None \<Rightarrow> Inl (Use_after_free a) | Some n \<Rightarrow> Inr n)"

definition store :: "'z heap \<Rightarrow> nat \<Rightarrow> 'z dnode_scheme \<Rightarrow> fault + 'z heap" where
  "store h a n = (case h a of None \<Rightarrow> Inl (Use_after_free a) | Some _ \<Rightarrow> Inr (h(a \<mapsto> n)))"

definition set_nxt :: "'z heap \<Rightarrow> nat \<Rightarrow> nat option \<Rightarrow> fault + 'z heap" where
  "set_nxt h a v = ebind (load h a) (\<lambda>n. store h a (n\<lparr>nxt := v\<rparr>))"

definition set_prv :: "'z heap \<Rightarrow> nat \<Rightarrow> nat option \<Rightarrow> fault + 'z heap" where
  "set_prv h a v = ebind (load h a) (\<lambda>n. store h a (n\<lparr>prv := v\<rparr>))"

definition free :: "'z heap \<Rightarrow> nat \<Rightarrow> fault + 'z heap" where
  "free h a = (case h a of None \<Rightarrow> Inl (Use_after_free a) | Some _ \<Rightarrow> Inr (h(a := None)))"

lemma load_Some [simp]: "h a = Some n \<Longrightarrow> load h a = Inr n"
  by (simp add: load_def)

lemma load_None [simp]: "h a = None \<Longrightarrow> load h a = Inl (Use_after_free a)"
  by (simp add: load_def)

lemma load_Inr_iff: "load h a = Inr n \<longleftrightarrow> h a = Some n"
  by (simp add: load_def split: option.splits)

lemma store_Some [simp]: "h a = Some n \<Longrightarrow> store h a m = Inr (h(a \<mapsto> m))"
  by (simp add: store_def)

lemma set_nxt_Some [simp]: "h a = Some n \<Longrightarrow> set_nxt h a v = Inr (h(a \<mapsto> n\<lparr>nxt := v\<rparr>))"
  by (simp add: set_nxt_def)

lemma set_prv_Some [simp]: "h a = Some n \<Longrightarrow> set_prv h a v = Inr (h(a \<mapsto> n\<lparr>prv := v\<rparr>))"
  by (simp add: set_prv_def)

lemma free_Some [simp]: "h a = Some n \<Longrightarrow> free h a = Inr (h(a := None))"
  by (simp add: free_def)

section \<open>The list a head pointer stands for\<close>

definition hd_ptr :: "nat list \<Rightarrow> nat option" where
  "hd_ptr ps = (case ps of [] \<Rightarrow> None | a # _ \<Rightarrow> Some a)"

definition last_ptr :: "nat option \<Rightarrow> nat list \<Rightarrow> nat option" where
  "last_ptr pv ps = (if ps = [] then pv else Some (last ps))"

lemma hd_ptr_simps [simp]: "hd_ptr [] = None" "hd_ptr (a # as) = Some a"
  by (simp_all add: hd_ptr_def)

lemma hd_ptr_append: "hd_ptr (xs @ a # ys) = Some (case xs of [] \<Rightarrow> a | x # _ \<Rightarrow> x)"
  by (cases xs) auto

lemma hd_ptr_None [simp]: "hd_ptr ps = None \<longleftrightarrow> ps = []"
  by (cases ps) auto

lemma last_ptr_simps [simp]:
  "last_ptr pv [] = pv" "last_ptr pv (xs @ [a]) = Some a" "last_ptr pv (a # xs) = last_ptr (Some a) xs"
  by (simp_all add: last_ptr_def)

lemma last_ptr_None [simp]: "last_ptr None ps = None \<longleftrightarrow> ps = []"
  by (simp add: last_ptr_def)

fun chain :: "'z heap \<Rightarrow> nat option \<Rightarrow> nat list \<Rightarrow> nat option \<Rightarrow> bool" where
  "chain h pv [] nx = True"
| "chain h pv (a # as) nx =
     (case h a of None \<Rightarrow> False
      | Some n \<Rightarrow> prv n = pv \<and> nxt n = (if as = [] then nx else hd_ptr as) \<and> chain h (Some a) as nx)"

definition dll :: "'z heap \<Rightarrow> nat option \<Rightarrow> nat list \<Rightarrow> bool" where
  "dll h hp ps \<longleftrightarrow> hp = hd_ptr ps \<and> distinct ps \<and> chain h None ps None"

lemma chain_cong: "(\<And>a. a \<in> set ps \<Longrightarrow> h a = h' a) \<Longrightarrow> chain h pv ps nx = chain h' pv ps nx"
  by (induction ps arbitrary: pv) (auto split: option.splits)

lemma chain_upd_other [simp]: "a \<notin> set ps \<Longrightarrow> chain (h(a := v)) pv ps nx = chain h pv ps nx"
  by (rule chain_cong) auto

lemma chain_append:
  "chain h pv (xs @ ys) nx \<longleftrightarrow>
     chain h pv xs (if ys = [] then nx else hd_ptr ys) \<and> chain h (last_ptr pv xs) ys nx"
proof (induction xs arbitrary: pv)
  case (Cons x xs)
  then show ?case
    by (cases xs) (auto split: option.splits)
qed auto

lemma chain_mid:
  "chain h pv (xs @ a # ys) nx \<longleftrightarrow>
     chain h pv xs (Some a) \<and>
     (\<exists>n. h a = Some n \<and> prv n = last_ptr pv xs \<and> nxt n = (if ys = [] then nx else hd_ptr ys)) \<and>
     chain h (Some a) ys nx"
  by (auto simp: chain_append split: option.splits)

lemma chain_set_prv:
  "\<lbrakk>chain h pv (a # as) nx; a \<notin> set as; h a = Some n\<rbrakk> \<Longrightarrow>
   chain (h(a \<mapsto> n\<lparr>prv := pv'\<rparr>)) pv' (a # as) nx"
  by (auto split: option.splits)

lemma chain_set_nxt:
  "\<lbrakk>chain h pv (xs @ [a]) nx; a \<notin> set xs; h a = Some n\<rbrakk> \<Longrightarrow>
   chain (h(a \<mapsto> n\<lparr>nxt := nx'\<rparr>)) pv (xs @ [a]) nx'"
  by (auto simp: chain_append split: option.splits)

lemma chain_strong_cong:
  "(\<And>a. a \<in> set ps \<Longrightarrow> map_option (\<lambda>n. (nxt n, prv n)) (h a) = map_option (\<lambda>n. (nxt n, prv n)) (h' a))
   \<Longrightarrow> chain h pv ps nx = chain h' pv ps nx"
proof (induction ps arbitrary: pv)
  case (Cons a ps)
  have "map_option (\<lambda>n. (nxt n, prv n)) (h a) = map_option (\<lambda>n. (nxt n, prv n)) (h' a)"
    using Cons.prems by simp
  moreover have "chain h (Some a) ps nx = chain h' (Some a) ps nx"
    by (rule Cons.IH) (use Cons.prems in simp)
  ultimately show ?case
    by (auto split: option.splits)
qed simp

lemma dll_Nil [simp]: "dll h hp [] \<longleftrightarrow> hp = None"
  by (simp add: dll_def)

lemma dll_distinct: "dll h hp ps \<Longrightarrow> distinct ps"
  by (simp add: dll_def)

lemma dll_allocated: "\<lbrakk>dll h hp ps; a \<in> set ps\<rbrakk> \<Longrightarrow> \<exists>n. h a = Some n"
  by (auto simp: dll_def chain_mid dest!: split_list)

lemma dll_other: "\<lbrakk>dll h hp ps; a \<notin> set ps\<rbrakk> \<Longrightarrow> dll (h(a := v)) hp ps"
  by (simp add: dll_def)

text \<open>A store that leaves the links of a node alone keeps every list.\<close>

lemma dll_store_payload:
  assumes "dll h hp ps" and "h a = Some n" and "nxt m = nxt n" and "prv m = prv n"
  shows "dll (h(a \<mapsto> m)) hp ps"
proof -
  have "chain (h(a \<mapsto> m)) None ps None = chain h None ps None"
    by (rule chain_strong_cong) (use assms in auto)
  with assms(1) show ?thesis by (simp add: dll_def)
qed

lemma dll_unique: "\<lbrakk>dll h hp ps; dll h hp qs\<rbrakk> \<Longrightarrow> ps = qs"
proof -
  have "\<And>pv. \<lbrakk>hd_ptr ps = hd_ptr qs; chain h pv ps None; chain h pv qs None\<rbrakk> \<Longrightarrow> ps = qs"
  proof (induction ps arbitrary: qs)
    case Nil
    then show ?case by (metis hd_ptr_None)
  next
    case (Cons a ps)
    then obtain qs' where qs: "qs = a # qs'"
      by (cases qs) auto
    with Cons.prems have "hd_ptr ps = hd_ptr qs'" "chain h (Some a) ps None" "chain h (Some a) qs' None"
      by (auto split: option.splits if_splits)
    with Cons.IH have "ps = qs'" by blast
    with qs show ?case by simp
  qed
  then show "\<lbrakk>dll h hp ps; dll h hp qs\<rbrakk> \<Longrightarrow> ps = qs"
    by (auto simp: dll_def)
qed

section \<open>Walking a list\<close>

text \<open>
  The search loops \<open>for (pm = head; pm; pm = pm->next) if (P(pm)) break;\<close>: the result is the
  node at which the loop breaks, or null; the test itself may fault. The fuel bounds the
  number of nodes visited; a walk that needs more than there are allocated nodes goes round
  a cycle for ever.
\<close>

fun find_from :: "nat \<Rightarrow> 'z heap \<Rightarrow> ('z dnode_scheme \<Rightarrow> fault + bool) \<Rightarrow> nat option \<Rightarrow>
    fault + nat option" where
  "find_from k h P None = Inr None"
| "find_from 0 h P (Some a) = Inl Diverges"
| "find_from (Suc k) h P (Some a) =
     ebind (load h a) (\<lambda>n. ebind (P n) (\<lambda>b. if b then Inr (Some a) else find_from k h P (nxt n)))"

lemma find_from_chain:
  "\<lbrakk>chain h pv ps None; length ps \<le> k; \<forall>a \<in> set ps. P (the (h a)) = Inr (Q (the (h a)))\<rbrakk> \<Longrightarrow>
   find_from k h P (hd_ptr ps) = Inr (find (\<lambda>a. Q (the (h a))) ps)"
proof (induction ps arbitrary: k pv)
  case (Cons a ps)
  then obtain k' where k: "k = Suc k'" by (cases k) auto
  from Cons.prems obtain n where n: "h a = Some n" "nxt n = hd_ptr ps" "chain h (Some a) ps None"
    by (cases ps) (auto split: option.splits if_splits)
  with Cons.IH [of "Some a" k'] Cons.prems k show ?case by simp
qed simp

lemma find_from_dll:
  "\<lbrakk>dll h hp ps; length ps \<le> k; \<forall>a \<in> set ps. P (the (h a)) = Inr (Q (the (h a)))\<rbrakk> \<Longrightarrow>
   find_from k h P hp = Inr (find (\<lambda>a. Q (the (h a))) ps)"
  by (auto simp: dll_def find_from_chain)

lemma distinct_bounded_length:
  "\<lbrakk>distinct ps; \<forall>a \<in> set ps. a < k\<rbrakk> \<Longrightarrow> length ps \<le> (k::nat)"
proof -
  assume d: "distinct ps" and b: "\<forall>a \<in> set ps. a < k"
  have "length ps = card (set ps)" using d by (simp add: distinct_card)
  also have "\<dots> \<le> card {..<k}" using b by (intro card_mono) auto
  finally show ?thesis by simp
qed

section \<open>Linking a node in front\<close>

text \<open>The effect on the heap, whatever the order of the two stores.\<close>

lemma dll_link_front:
  assumes "dll h hp ps" and "p \<notin> set ps" and "h p = Some n" and "prv n = None" and "nxt n = None"
    and "h' = (case ps of [] \<Rightarrow> h
       | a # _ \<Rightarrow> h(p \<mapsto> n\<lparr>nxt := Some a\<rparr>, a \<mapsto> (the (h a))\<lparr>prv := Some p\<rparr>))"
  shows "dll h' (Some p) (p # ps)"
proof (cases ps)
  case Nil
  with assms show ?thesis by (simp add: dll_def)
next
  case (Cons a as)
  with assms(1) obtain m where m: "h a = Some m" "prv m = None" "a \<notin> set as" "distinct as"
      "nxt m = (if as = [] then None else hd_ptr as)" "chain h (Some a) as None"
    by (auto simp: dll_def split: option.splits)
  from assms(2) Cons have "p \<noteq> a" "p \<notin> set as" by auto
  with m assms Cons show ?thesis by (auto simp: dll_def)
qed

section \<open>Unlinking a node\<close>

definition unlink :: "'z heap \<Rightarrow> nat option \<Rightarrow> nat \<Rightarrow> fault + ('z heap \<times> nat option)" where
  "unlink h hp p = ebind (load h p) (\<lambda>n.
     case (prv n, nxt n) of
       (None, None) \<Rightarrow> Inr (h, None)
     | (None, Some b) \<Rightarrow> ebind (set_prv h b None) (\<lambda>h. Inr (h, Some b))
     | (Some a, None) \<Rightarrow> ebind (set_nxt h a None) (\<lambda>h. Inr (h, hp))
     | (Some a, Some b) \<Rightarrow> ebind (set_nxt h a (Some b)) (\<lambda>h.
         ebind (set_prv h b (Some a)) (\<lambda>h. Inr (h, hp))))"

text \<open>Two heaps that differ in links only.\<close>

definition strip :: "'z dnode_scheme \<Rightarrow> 'z dnode_scheme" where
  "strip n = n\<lparr>nxt := None, prv := None\<rparr>"

definition same_payload :: "'z heap \<Rightarrow> 'z heap \<Rightarrow> bool" where
  "same_payload h h' \<longleftrightarrow> (\<forall>a. map_option strip (h a) = map_option strip (h' a))"

lemma strip_upd [simp]: "strip (n\<lparr>nxt := x\<rparr>) = strip n" "strip (n\<lparr>prv := x\<rparr>) = strip n"
  by (simp_all add: strip_def)

lemma same_payload_refl [simp]: "same_payload h h"
  by (simp add: same_payload_def)

lemma same_payload_set_nxt: "set_nxt h a v = Inr h' \<Longrightarrow> same_payload h h'"
  by (auto simp: set_nxt_def store_def load_def same_payload_def split: option.splits)

lemma same_payload_set_prv: "set_prv h a v = Inr h' \<Longrightarrow> same_payload h h'"
  by (auto simp: set_prv_def store_def load_def same_payload_def split: option.splits)

lemma same_payload_trans [trans]: "\<lbrakk>same_payload h h'; same_payload h' h''\<rbrakk> \<Longrightarrow> same_payload h h''"
  by (simp add: same_payload_def)

lemma same_payload_Some:
  "\<lbrakk>same_payload h h'; h a = Some n\<rbrakk> \<Longrightarrow> \<exists>m. h' a = Some m \<and> strip m = strip n"
  by (metis (no_types, lifting) map_option_eq_Some same_payload_def)

lemma same_payload_None: "\<lbrakk>same_payload h h'; h a = None\<rbrakk> \<Longrightarrow> h' a = None"
  by (metis map_option_is_None same_payload_def)

lemma unlink_payload: "unlink h hp p = Inr (h', hp') \<Longrightarrow> same_payload h h'"
  by (auto simp: unlink_def ebind_Inr_iff split: option.splits
      intro: same_payload_set_nxt same_payload_set_prv
        same_payload_trans [OF same_payload_set_nxt same_payload_set_prv])

lemma unlink_dll:
  assumes "dll h hp (xs @ p # ys)"
  shows "\<exists>h'. unlink h hp p = Inr (h', hd_ptr (xs @ ys)) \<and> dll h' (hd_ptr (xs @ ys)) (xs @ ys)"
proof -
  from assms obtain n where n: "h p = Some n" "prv n = last_ptr None xs" "nxt n = hd_ptr ys"
      "chain h None xs (Some p)" "chain h (Some p) ys None" "distinct (xs @ p # ys)"
      "hp = hd_ptr (xs @ p # ys)"
    by (cases ys) (auto simp: dll_def chain_mid)
  show ?thesis
  proof (cases xs rule: rev_cases)
    case Nil
    show ?thesis
    proof (cases ys)
      case (Cons b bs)
      with n obtain m where "h b = Some m" by (auto split: option.splits)
      with n Nil Cons show ?thesis
        by (auto simp: unlink_def dll_def)
    qed (use n Nil in \<open>auto simp: unlink_def\<close>)
  next
    case (snoc as a)
    with n obtain na where na: "h a = Some na" by (auto simp: chain_append split: option.splits)
    have a: "a \<notin> set as" "a \<notin> set ys" "distinct as" "distinct ys" "set as \<inter> set ys = {}"
      using n(6) snoc by auto
    show ?thesis
    proof (cases ys)
      case Nil
      have "chain (h(a \<mapsto> na\<lparr>nxt := None\<rparr>)) None (as @ [a]) None"
        using n(4) snoc a na by (intro chain_set_nxt) auto
      with n na snoc Nil a show ?thesis
        by (auto simp: unlink_def dll_def hd_ptr_append)
    next
      case (Cons b bs)
      with n obtain nb where nb: "h b = Some nb" by (auto split: option.splits)
      let ?h = "h(a \<mapsto> na\<lparr>nxt := Some b\<rparr>, b \<mapsto> nb\<lparr>prv := Some a\<rparr>)"
      have ab: "a \<noteq> b" "b \<notin> set as" "b \<notin> set bs" "a \<notin> set bs" using a Cons by auto
      have "chain (h(a \<mapsto> na\<lparr>nxt := Some b\<rparr>)) None (as @ [a]) (Some b)"
        using n(4) snoc a na by (intro chain_set_nxt) auto
      then have 1: "chain ?h None (as @ [a]) (Some b)"
        using ab by (subst chain_upd_other) auto
      have "chain (h(b \<mapsto> nb\<lparr>prv := Some a\<rparr>)) (Some a) (b # bs) None"
        using n(5) Cons ab nb by (intro chain_set_prv) auto
      then have 2: "chain ?h (Some a) (b # bs) None"
        using ab by (subst fun_upd_twist) (auto simp del: chain.simps simp: chain_upd_other)
      have 3: "chain ?h None (xs @ ys) None"
        using 1 2 snoc Cons chain_append [of ?h None "as @ [a]" "b # bs" None]
        by (simp del: chain.simps)
      have "unlink h hp p = Inr (?h, hp)"
        using n na nb snoc Cons ab by (simp add: unlink_def)
      moreover have "hp = hd_ptr (xs @ ys)"
        using n(7) snoc by (simp add: hd_ptr_append)
      ultimately show ?thesis
        using 3 n(6) by (auto simp: dll_def)
    qed
  qed
qed

section \<open>Tables of nodes with unique keys\<close>

definition keys_of :: "('z dnode_scheme \<Rightarrow> 'k) \<Rightarrow> 'z heap \<Rightarrow> nat list \<Rightarrow> 'k list" where
  "keys_of key h ps = map (\<lambda>a. key (the (h a))) ps"

locale keyed_list =
  fixes key :: "'z dnode_scheme \<Rightarrow> 'k"
  assumes key_strip: "key (strip n) = key n"
begin

lemma key_links [simp]: "key (n\<lparr>nxt := x\<rparr>) = key n" "key (n\<lparr>prv := x\<rparr>) = key n"
  by (metis key_strip strip_upd)+

lemma key_same_payload:
  assumes "same_payload h h'" and "h a = Some n"
  shows "key (the (h' a)) = key (the (h a))"
proof -
  obtain m where "h' a = Some m" "strip m = strip n"
    using same_payload_Some [OF assms] by blast
  then show ?thesis
    using assms(2) key_strip [of m] key_strip [of n] by simp
qed

lemma keys_same_payload:
  assumes "same_payload h h'" and "\<forall>a \<in> set ps. h a \<noteq> None"
  shows "keys_of key h' ps = keys_of key h ps"
  using assms key_same_payload by (auto simp: keys_of_def)

text \<open>The search loop finds a node with the key exactly when the table has one.\<close>

lemma lookup:
  assumes "dll h hp ps" and "length ps \<le> k"
    and "\<forall>a \<in> set ps. P (the (h a)) = Inr (key (the (h a)) = x)"
  shows "\<exists>r. find_from k h P hp = Inr r \<and>
    (case r of None \<Rightarrow> x \<notin> set (keys_of key h ps)
     | Some a \<Rightarrow> a \<in> set ps \<and> key (the (h a)) = x)"
  using find_from_dll [OF assms(1,2), of P "\<lambda>n. key n = x"] assms(3)
  by (auto simp: keys_of_def find_None_iff find_Some_iff split: option.splits)

text \<open>With unique keys the node is the only one.\<close>

lemma lookup_unique:
  assumes "dll h hp ps" and "length ps \<le> k" and "distinct (keys_of key h ps)" and "a \<in> set ps"
    and "\<forall>b \<in> set ps. P (the (h b)) = Inr (key (the (h b)) = key (the (h a)))"
  shows "find_from k h P hp = Inr (Some a)"
proof -
  let ?P = "\<lambda>b. key (the (h b)) = key (the (h a))"
  have inj: "inj_on (\<lambda>b. key (the (h b))) (set ps)"
    using assms(3) by (simp add: keys_of_def distinct_map)
  have "find ?P ps = Some a"
  proof (cases "find ?P ps")
    case None
    with assms(4) show ?thesis by (auto simp: find_None_iff)
  next
    case (Some b)
    then have "b \<in> set ps" "?P b" by (auto simp: find_Some_iff)
    with inj assms(4) have "b = a" by (auto dest: inj_onD)
    with Some show ?thesis by simp
  qed
  with find_from_dll [OF assms(1,2), of P "\<lambda>n. key n = key (the (h a))"] assms(5)
  show ?thesis by simp
qed

text \<open>Unlinking and freeing the node of a key removes the key and nothing else.\<close>

lemma remove:
  assumes d: "dll h hp (xs @ p # ys)" and u: "distinct (keys_of key h (xs @ p # ys))"
  shows "\<exists>h' hp'. ebind (unlink h hp p) (\<lambda>(h, hp). ebind (free h p) (\<lambda>h. Inr (h, hp))) = Inr (h', hp')
    \<and> dll h' hp' (xs @ ys) \<and> h' p = None
    \<and> keys_of key h' (xs @ ys) = keys_of key h (xs @ ys)
    \<and> key (the (h p)) \<notin> set (keys_of key h' (xs @ ys))
    \<and> (\<forall>a. a \<noteq> p \<longrightarrow> map_option strip (h' a) = map_option strip (h a))"
proof -
  obtain h1 where h1: "unlink h hp p = Inr (h1, hd_ptr (xs @ ys))" "dll h1 (hd_ptr (xs @ ys)) (xs @ ys)"
    using unlink_dll [OF d] by blast
  have sp: "same_payload h h1" using unlink_payload [OF h1(1)] .
  have np: "p \<notin> set (xs @ ys)" using dll_distinct [OF d] by auto
  obtain n where "h p = Some n" using dll_allocated [OF d, of p] by auto
  then obtain m where m: "h1 p = Some m" using same_payload_Some [OF sp] by blast
  have al: "\<forall>a \<in> set (xs @ ys). h a \<noteq> None" using dll_allocated [OF d] by fastforce
  have k: "keys_of key (h1(p := None)) (xs @ ys) = keys_of key h (xs @ ys)"
    using keys_same_payload [OF sp al] np by (auto simp: keys_of_def)
  have "key (the (h p)) \<notin> set (keys_of key h (xs @ ys))"
    using u by (auto simp: keys_of_def)
  with h1 m np k sp show ?thesis
    by (auto simp: dll_other same_payload_def)
qed

end

end
