(* ===== verification/Datastore.thy ===== *)
theory Datastore
  imports Posix Util Dll
begin

text \<open>
  \<open>datastore.c\<close>, \<open>datastore.h\<close> and \<open>iw_ds.h\<close>: the data store serves files of one directory
  through a table of open files, one entry (\<open>struct dsession\<close>) for each pair of a client
  descriptor and a file name. \<open>iwds\<close> is the object with the part of the heap that holds its
  table. The null checks of the object and of the request are not modelled: every caller in
  the program passes both. Log messages are left out; what a
  \<open>DEBUG\<close> build prints is in the theory \<open>Debug_Output\<close>.
\<close>

section \<open>Data\<close>

record dsession = dnode +
  clid :: int
  ds_fp :: "nat option"             \<comment> \<open>\<open>FILE *\<close>\<close>
  ds_filename :: "string option"    \<comment> \<open>\<open>char *\<close>, null until allocated\<close>
  ds_derr :: int

record iwds =
  dhead :: "nat option"
  dheap :: "nat \<Rightarrow> dsession option"
  dbrk :: nat                       \<comment> \<open>all nodes allocated so far are below\<close>
  dspath :: string
  fchroot :: bool

record dsreq =
  dsid :: int
  dfile :: string
  dbuf :: bytes
  dlen :: nat
  derr :: int

text \<open>\<open>enum DSREQ_ERRCODE\<close>\<close>

abbreviation DSERR_INTERERROR :: int where "DSERR_INTERERROR \<equiv> -15"
abbreviation DSERR_NOTEXIST :: int where "DSERR_NOTEXIST \<equiv> -12"
abbreviation DSERR_NOTPERMIT :: int where "DSERR_NOTPERMIT \<equiv> -11"
abbreviation DSERR_NOSESSION :: int where "DSERR_NOSESSION \<equiv> -10"
abbreviation DSERR_READFAIL :: int where "DSERR_READFAIL \<equiv> -9"
abbreviation DSERR_WRITEFAIL :: int where "DSERR_WRITEFAIL \<equiv> -8"

definition iwds_dsreq_errmsgs :: "(int \<times> string) list" where
  "iwds_dsreq_errmsgs =
    [(DSERR_INTERERROR, ''internal error of module''),
     (-14, ''invalid object''),
     (-13, ''request was not passed''),
     (DSERR_NOTEXIST, ''file does not exist''),
     (DSERR_NOTPERMIT, ''access is not permitted''),
     (DSERR_NOSESSION, ''no the session of datastore''),
     (DSERR_READFAIL, ''file reading error''),
     (DSERR_WRITEFAIL, ''file writing error'')]"

text \<open>The table ends with a null message, which is the result for any other code.\<close>

definition iwds_strerr :: "int \<Rightarrow> string option" where
  "iwds_strerr ecode = map_of iwds_dsreq_errmsgs ecode"

section \<open>Internal functions\<close>

definition is_dspath :: "string \<Rightarrow> world \<Rightarrow> tri" where
  "is_dspath dirpath w = (case sys_stat w dirpath of Some Directory \<Rightarrow> IW_True | _ \<Rightarrow> IW_False)"

text \<open>The path both \<open>is_dsfile\<close> and \<open>create_dsession\<close> build: allocate, join; \<open>None\<close> is the branch
  to \<open>err\<close>.\<close>

definition alloc_path :: "string \<Rightarrow> string \<Rightarrow> world \<Rightarrow> fault + string option \<times> world" where
  "alloc_path dir file w =
     (let bufsize = length dir + length file + 2; (ok, w) = sys_malloc w in
      if \<not> ok then Inr (None, w)
      else ebind (join_path dir file (replicate bufsize NUL) bufsize) (\<lambda>(r, buf).
        if r = -1 then Inr (None, w)
        else ebind (cstr_at buf 0) (\<lambda>path. Inr (Some path, w))))"

definition is_dsfile :: "string \<Rightarrow> string \<Rightarrow> world \<Rightarrow> fault + tri \<times> world" where
  "is_dsfile rootdir file w =
     ebind (alloc_path rootdir file w) (\<lambda>(buf, w).
     case buf of None \<Rightarrow> Inr (IW_Err, w)
     | Some path \<Rightarrow>
         (case sys_stat w path of
            None \<Rightarrow> Inr (IW_False, w)
          | Some (Regular _) \<Rightarrow> Inr (IW_True, w)
          | Some _ \<Rightarrow> Inr (IW_False, w)))"

text \<open>\<open>strcmp(p, q) == 0\<close> on two pointers.\<close>

definition strcmp_eq :: "string option \<Rightarrow> string option \<Rightarrow> fault + bool" where
  "strcmp_eq p q = (case (p, q) of (Some s, Some t) \<Rightarrow> Inr (s = t) | _ \<Rightarrow> Inl Null_deref)"

definition dses_match :: "int \<Rightarrow> string option \<Rightarrow> dsession \<Rightarrow> fault + bool" where
  "dses_match sid file n = (if clid n = sid then strcmp_eq (ds_filename n) file else Inr False)"

definition get_dsession :: "iwds \<Rightarrow> int \<Rightarrow> string option \<Rightarrow> fault + nat option" where
  "get_dsession ds sid file = find_from (dbrk ds) (dheap ds) (dses_match sid file) (dhead ds)"

definition add_dsession :: "iwds \<Rightarrow> world \<Rightarrow> fault + nat option \<times> iwds \<times> world" where
  "add_dsession ds w =
     (let (ok, w) = sys_malloc w in
      if \<not> ok then Inr (None, ds, w)
      else
       (let node = dbrk ds;
            zero = \<lparr>nxt = None, prv = None, clid = 0, ds_fp = None, ds_filename = None, ds_derr = 0\<rparr>;
            h = (dheap ds)(node \<mapsto> zero) in
        ebind (case dhead ds of None \<Rightarrow> Inr h
               | Some a \<Rightarrow> ebind (set_prv h a (Some node)) (\<lambda>h. set_nxt h node (Some a))) (\<lambda>h.
        Inr (Some node, ds\<lparr>dheap := h, dhead := Some node, dbrk := Suc node\<rparr>, w))))"

text \<open>The pointer surgery of \<open>del_dsession\<close>, its four branches in the order of the source.\<close>

definition unlink_dsession :: "iwds \<Rightarrow> nat \<Rightarrow> fault + iwds" where
  "unlink_dsession ds pm =
     ebind (load (dheap ds) pm) (\<lambda>n.
     case (prv n, nxt n) of
       (None, Some b) \<Rightarrow> ebind (set_prv (dheap ds) b None) (\<lambda>h. Inr (ds\<lparr>dheap := h, dhead := Some b\<rparr>))
     | (Some a, Some b) \<Rightarrow> ebind (set_nxt (dheap ds) a (Some b)) (\<lambda>h.
         ebind (set_prv h b (Some a)) (\<lambda>h. Inr (ds\<lparr>dheap := h\<rparr>)))
     | (Some a, None) \<Rightarrow> ebind (set_nxt (dheap ds) a None) (\<lambda>h. Inr (ds\<lparr>dheap := h\<rparr>))
     | (None, None) \<Rightarrow> Inr (ds\<lparr>dhead := None\<rparr>))"

definition del_dsession :: "iwds \<Rightarrow> nat \<Rightarrow> world \<Rightarrow> fault + int \<times> iwds \<times> world" where
  "del_dsession ds node w =
     ebind (load (dheap ds) node) (\<lambda>n.
     ebind (get_dsession ds (clid n) (ds_filename n)) (\<lambda>r.
     case r of None \<Rightarrow> Inr (IW_ERR, ds, w)
     | Some pm \<Rightarrow>
         ebind (unlink_dsession ds pm) (\<lambda>ds.
         ebind (load (dheap ds) pm) (\<lambda>m.
         ebind (case ds_fp m of None \<Rightarrow> Inr w
                | Some fp \<Rightarrow> ebind (sys_fclose w fp) (\<lambda>(_, w). Inr w)) (\<lambda>w.
         ebind (free (dheap ds) pm) (\<lambda>h. Inr (IW_OK, ds\<lparr>dheap := h\<rparr>, w)))))))"

text \<open>The second half of \<open>create_dsession\<close>, once the file is open: add a node, set its fields,
  allocate the copy of the name.\<close>

definition enter_dsession ::
    "iwds \<Rightarrow> int \<Rightarrow> nat \<Rightarrow> string \<Rightarrow> world \<Rightarrow> fault + nat option \<times> iwds \<times> world" where
  "enter_dsession ds sid pst file w =
     ebind (add_dsession ds w) (\<lambda>(node, ds, w).
     case node of None \<Rightarrow> ebind (sys_fclose w pst) (\<lambda>(_, w). Inr (None, ds, w))
     | Some a \<Rightarrow>
        ebind (load (dheap ds) a) (\<lambda>n.
        ebind (store (dheap ds) a (n\<lparr>ds_fp := Some pst, clid := sid\<rparr>)) (\<lambda>h.
        (let ds = ds\<lparr>dheap := h\<rparr>; (ok, w) = sys_malloc w in
         if \<not> ok then ebind (del_dsession ds a w) (\<lambda>(_, ds, w). Inr (None, ds, w))
         else
          ebind (load h a) (\<lambda>n.
          ebind (store h a (n\<lparr>ds_filename := Some file\<rparr>)) (\<lambda>h.
          Inr (Some a, ds\<lparr>dheap := h\<rparr>, w)))))))"

text \<open>\<open>MODE_READ\<close> is \<open>wr = False\<close>, \<open>MODE_WRITE\<close> is \<open>wr = True\<close>.\<close>

definition create_dsession ::
    "iwds \<Rightarrow> int \<Rightarrow> string \<Rightarrow> string \<Rightarrow> bool \<Rightarrow> world \<Rightarrow> fault + nat option \<times> iwds \<times> world" where
  "create_dsession ds sid dir file wr w =
     ebind (alloc_path dir file w) (\<lambda>(buf, w).
     case buf of None \<Rightarrow> Inr (None, ds, w)
     | Some path \<Rightarrow>
        (let (pst, w) = sys_fopen w path wr in
         case pst of None \<Rightarrow> Inr (None, ds, w)
         | Some fp \<Rightarrow> enter_dsession ds sid fp file w))"

section \<open>Interfaces\<close>

definition iwds_isfile :: "iwds \<Rightarrow> string \<Rightarrow> world \<Rightarrow> fault + tri \<times> world" where
  "iwds_isfile ds filename w = is_dsfile (dspath ds) filename w"

text \<open>\<open>iwds_read\<close>: the bytes stored at \<open>req->dbuf\<close> (as many as the returned length), the request
  with its error code, the object and the world. \<open>iwds_err\<close> is the common end of its error
  branches.\<close>

definition iwds_err :: "iwds \<Rightarrow> nat option \<Rightarrow> world \<Rightarrow> fault + iwds \<times> world" where
  "iwds_err ds ses w =
     (case (dhead ds, ses) of
        (Some _, Some a) \<Rightarrow> ebind (del_dsession ds a w) (\<lambda>(_, ds, w). Inr (ds, w))
      | _ \<Rightarrow> Inr (ds, w))"

text \<open>The part of \<open>iwds_read\<close> after the entry \<open>a\<close> has been found or made.\<close>

definition read_entry :: "iwds \<Rightarrow> nat \<Rightarrow> dsreq \<Rightarrow> world \<Rightarrow> fault + bytes \<times> dsreq \<times> iwds \<times> world" where
  "read_entry ds a req w =
     ebind (load (dheap ds) a) (\<lambda>n.
     case ds_fp n of None \<Rightarrow> Inl Null_deref
     | Some fp \<Rightarrow>
        ebind (sys_fread w fp (dlen req)) (\<lambda>(bs, w).
        if length bs < dlen req \<and> sys_ferror w fp
        then ebind (iwds_err ds (Some a) w) (\<lambda>(ds, w). Inr (bs, req\<lparr>derr := DSERR_READFAIL\<rparr>, ds, w))
        else Inr (bs, req\<lparr>derr := IW_OK\<rparr>, ds, w)))"

definition iwds_read :: "iwds \<Rightarrow> dsreq \<Rightarrow> world \<Rightarrow> fault + bytes \<times> dsreq \<times> iwds \<times> world" where
  "iwds_read ds req w =
     ebind (is_dsfile (dspath ds) (dfile req) w) (\<lambda>(r, w).
     case r of
       IW_Err \<Rightarrow> Inr ([], req\<lparr>derr := DSERR_INTERERROR\<rparr>, ds, w)
     | IW_False \<Rightarrow> Inr ([], req\<lparr>derr := DSERR_NOTEXIST\<rparr>, ds, w)
     | IW_True \<Rightarrow>
         ebind (get_dsession ds (dsid req) (Some (dfile req))) (\<lambda>ses.
         ebind (case ses of Some a \<Rightarrow> Inr (Some a, ds, w)
                | None \<Rightarrow> create_dsession ds (dsid req) (dspath ds) (dfile req) False w)
           (\<lambda>(ses, ds, w).
         case ses of None \<Rightarrow> Inr ([], req\<lparr>derr := DSERR_NOSESSION\<rparr>, ds, w)
         | Some a \<Rightarrow> read_entry ds a req w)))"

text \<open>The part of \<open>iwds_write\<close> after the entry has been found or made: a request of length 0
  ends the writing. After a short write the code sets \<open>errcode\<close>, deletes the entry and then
  falls through to \<open>req->derr = IW_OK\<close>.\<close>

definition write_entry :: "iwds \<Rightarrow> nat \<Rightarrow> dsreq \<Rightarrow> world \<Rightarrow> fault + nat \<times> dsreq \<times> iwds \<times> world" where
  "write_entry ds a req w =
     (if dlen req = 0 then
        ebind (del_dsession ds a w) (\<lambda>(_, ds, w). Inr (0, req\<lparr>derr := IW_OK\<rparr>, ds, w))
      else
        ebind (load (dheap ds) a) (\<lambda>n.
        case ds_fp n of None \<Rightarrow> Inl Null_deref
        | Some fp \<Rightarrow>
           ebind (rd_bytes (dbuf req) 0 (dlen req)) (\<lambda>out.
           ebind (sys_fwrite w fp out) (\<lambda>(wlen, w).
           ebind (if wlen < dlen req
                  then ebind (del_dsession ds a w) (\<lambda>(_, ds, w). Inr (ds, w))
                  else Inr (ds, w)) (\<lambda>(ds, w).
           Inr (wlen, req\<lparr>derr := IW_OK\<rparr>, ds, w))))))"

definition iwds_write :: "iwds \<Rightarrow> dsreq \<Rightarrow> world \<Rightarrow> fault + nat \<times> dsreq \<times> iwds \<times> world" where
  "iwds_write ds req w =
     ebind (get_dsession ds (dsid req) (Some (dfile req))) (\<lambda>ses.
     case ses of
       Some a \<Rightarrow> write_entry ds a req w
     | None \<Rightarrow>
         ebind (is_dsfile (dspath ds) (dfile req) w) (\<lambda>(r, w).
         case r of
           IW_Err \<Rightarrow> Inr (0, req\<lparr>derr := DSERR_INTERERROR\<rparr>, ds, w)
         | IW_True \<Rightarrow> Inr (0, req\<lparr>derr := DSERR_NOTPERMIT\<rparr>, ds, w)
         | IW_False \<Rightarrow>
            ebind (create_dsession ds (dsid req) (dspath ds) (dfile req) True w) (\<lambda>(ses, ds, w).
            case ses of None \<Rightarrow> Inr (0, req\<lparr>derr := DSERR_NOSESSION\<rparr>, ds, w)
            | Some a \<Rightarrow> write_entry ds a req w)))"

definition iwds_close :: "iwds \<Rightarrow> dsreq \<Rightarrow> world \<Rightarrow> fault + int \<times> dsreq \<times> iwds \<times> world" where
  "iwds_close ds req w =
     ebind (get_dsession ds (dsid req) (Some (dfile req))) (\<lambda>ses.
     case ses of
       None \<Rightarrow>
         if dlen req = 0 then Inr (IW_OK, req, ds, w)
         else Inr (IW_ERR, req\<lparr>derr := DSERR_NOSESSION\<rparr>, ds, w)
     | Some a \<Rightarrow>
         ebind (del_dsession ds a w) (\<lambda>(_, ds, w). Inr (IW_OK, req\<lparr>derr := IW_OK\<rparr>, ds, w)))"

text \<open>\<open>*(ds->dspath) = '/'; *(ds->dspath + 1) = '\0'\<close>: the array has \<open>strlen + 1\<close> bytes.\<close>

definition iwds_set_chroot :: "iwds \<Rightarrow> fault + iwds" where
  "iwds_set_chroot ds =
     (if dspath ds = [] then Inl Out_of_bounds else Inr (ds\<lparr>fchroot := True, dspath := [SLASH]\<rparr>))"

definition iwds_get_dspath :: "iwds \<Rightarrow> string" where
  "iwds_get_dspath ds = dspath ds"

text \<open>\<open>iwds_init\<close>; \<open>realpath\<close> gives the canonical path or fails.\<close>

definition DEFAULT_DATASTORE :: string where "DEFAULT_DATASTORE = ''/tftpboot''"

definition iwds_init :: "string option \<Rightarrow> world \<Rightarrow> iwds option \<times> world" where
  "iwds_init datastore w =
     (let dir = (case datastore of None \<Rightarrow> DEFAULT_DATASTORE | Some d \<Rightarrow> d);
          (ok, w) = sys_call w; path = canon w dir in
      if \<not> ok \<or> sys_stat w dir = None then (None, w)
      else if is_dspath path w = IW_False then (None, w)
      else
       (let (ok, w) = sys_malloc w in
        if \<not> ok then (None, w)
        else (Some \<lparr>dhead = None, dheap = (\<lambda>_. None), dbrk = 0, dspath = path, fchroot = False\<rparr>, w)))"

text \<open>The loop of \<open>iwds_exit\<close> over the table; fuel as for the searches.\<close>

fun exit_loop :: "nat \<Rightarrow> (nat \<Rightarrow> dsession option) \<Rightarrow> nat option \<Rightarrow> world \<Rightarrow>
    fault + (nat \<Rightarrow> dsession option) \<times> world" where
  "exit_loop k h None w = Inr (h, w)"
| "exit_loop 0 h (Some a) w = Inl Diverges"
| "exit_loop (Suc k) h (Some a) w =
     ebind (load h a) (\<lambda>n.
     case ds_fp n of None \<Rightarrow> Inl Null_deref
     | Some fp \<Rightarrow>
        ebind (sys_fclose w fp) (\<lambda>(_, w).
        ebind (free h a) (\<lambda>h. exit_loop k h (nxt n) w)))"

definition iwds_exit :: "iwds \<Rightarrow> world \<Rightarrow> fault + (nat \<Rightarrow> dsession option) \<times> world" where
  "iwds_exit ds w = exit_loop (dbrk ds) (dheap ds) (dhead ds) w"

section \<open>The table of open files and its invariant\<close>

text \<open>An entry is what a node says besides its links; \<open>dtab\<close> is the table as a list of entries,
  the abstract view of the pointer structure.\<close>

definition dentry :: "dsession \<Rightarrow> int \<times> string option \<times> nat option" where
  "dentry n = (clid n, ds_filename n, ds_fp n)"

definition dkey :: "dsession \<Rightarrow> int \<times> string option" where
  "dkey n = (clid n, ds_filename n)"

definition dtab :: "iwds \<Rightarrow> nat list \<Rightarrow> (int \<times> string option \<times> nat option) list" where
  "dtab ds ps = keys_of dentry (dheap ds) ps"

definition tab_ok :: "world \<Rightarrow> (int \<times> string option \<times> nat option) list \<Rightarrow> bool" where
  "tab_ok w es \<longleftrightarrow> distinct (map (\<lambda>(c, f, p). (c, f)) es) \<and> distinct (map (\<lambda>(c, f, p). p) es) \<and>
     (\<forall>c f p. (c, f, p) \<in> set es \<longrightarrow>
        f \<noteq> None \<and> (\<exists>fp. p = Some fp \<and> fp < nstreams w \<and> streams w fp \<noteq> None))"

definition ds_ok :: "iwds \<Rightarrow> world \<Rightarrow> nat list \<Rightarrow> bool" where
  "ds_ok ds w ps \<longleftrightarrow> dll (dheap ds) (dhead ds) ps \<and> (\<forall>a \<in> set ps. a < dbrk ds) \<and>
     dspath ds \<noteq> [] \<and> is_cstring (dspath ds) \<and> tab_ok w (dtab ds ps)"

interpretation dses: keyed_list dkey
  by unfold_locales (simp add: dkey_def strip_def)

interpretation dent: keyed_list dentry
  by unfold_locales (simp add: dentry_def strip_def)

lemma dkeys_dtab: "keys_of dkey (dheap ds) ps = map (\<lambda>(c, f, p). (c, f)) (dtab ds ps)"
  by (simp add: keys_of_def dtab_def dkey_def dentry_def)

lemma dtab_simps [simp]:
  "dtab ds [] = []" "dtab ds (a # ps) = dentry (the (dheap ds a)) # dtab ds ps"
  "dtab ds (xs @ ys) = dtab ds xs @ dtab ds ys"
  by (simp_all add: dtab_def keys_of_def)

lemma length_dtab [simp]: "length (dtab ds ps) = length ps"
  by (simp add: dtab_def keys_of_def)

lemma ds_okD:
  assumes "ds_ok ds w ps"
  shows "dll (dheap ds) (dhead ds) ps" "length ps \<le> dbrk ds" "tab_ok w (dtab ds ps)"
    "distinct (keys_of dkey (dheap ds) ps)" "dspath ds \<noteq> []" "is_cstring (dspath ds)"
  using assms distinct_bounded_length [of ps "dbrk ds"]
  by (auto simp: ds_ok_def dll_distinct dkeys_dtab tab_ok_def)

lemma ds_ok_node:
  assumes "ds_ok ds w ps" and "a \<in> set ps"
  obtains n f fp where "dheap ds a = Some n" "ds_filename n = Some f" "ds_fp n = Some fp"
    "fp < nstreams w" "streams w fp \<noteq> None"
proof -
  obtain n where n: "dheap ds a = Some n"
    using dll_allocated [OF ds_okD(1) [OF assms(1)] assms(2)] by blast
  have "dentry n \<in> set (dtab ds ps)"
    using n assms(2) by (force simp: dtab_def keys_of_def)
  then obtain f fp where "ds_filename n = Some f" "ds_fp n = Some fp" "fp < nstreams w" "streams w fp \<noteq> None"
    using ds_okD(3) [OF assms(1)] unfolding tab_ok_def dentry_def by blast
  with n that show thesis by blast
qed

lemma tab_ok_entry:
  "\<lbrakk>tab_ok w es; (c, f, p) \<in> set es\<rbrakk> \<Longrightarrow>
   f \<noteq> None \<and> (\<exists>fp. p = Some fp \<and> fp < nstreams w \<and> streams w fp \<noteq> None)"
  unfolding tab_ok_def by blast

lemma tab_ok_world:
  assumes "tab_ok w es" and "nstreams w \<le> nstreams w'"
    and "\<And>fp. streams w fp \<noteq> None \<Longrightarrow> streams w' fp \<noteq> None"
  shows "tab_ok w' es"
proof -
  have "f \<noteq> None \<and> (\<exists>fp. p = Some fp \<and> fp < nstreams w' \<and> streams w' fp \<noteq> None)"
    if e: "(c, f, p) \<in> set es" for c f p
    using tab_ok_entry [OF assms(1) e] assms(2,3) by (metis less_le_trans)
  then show ?thesis using assms(1) unfolding tab_ok_def by blast
qed

lemma ds_ok_world:
  "\<lbrakk>ds_ok ds w ps; nstreams w \<le> nstreams w'; \<And>fp. streams w fp \<noteq> None \<Longrightarrow> streams w' fp \<noteq> None\<rbrakk> \<Longrightarrow>
   ds_ok ds w' ps"
  using tab_ok_world [of w "dtab ds ps" w'] by (simp add: ds_ok_def)

lemma ds_ok_same_files: "\<lbrakk>ds_ok ds w ps; same_files w w'\<rbrakk> \<Longrightarrow> ds_ok ds w' ps"
  by (rule ds_ok_world) (auto simp: same_files_def)

subsection \<open>Search\<close>

lemma dses_match_ok:
  assumes "ds_ok ds w ps" and "a \<in> set ps"
  shows "dses_match sid (Some f) (the (dheap ds a)) = Inr (dkey (the (dheap ds a)) = (sid, Some f))"
  by (rule ds_ok_node [OF assms]) (auto simp: dses_match_def strcmp_eq_def dkey_def)

lemma get_dsession_ok:
  assumes "ds_ok ds w ps"
  shows "\<exists>r. get_dsession ds sid (Some f) = Inr r \<and>
    (case r of None \<Rightarrow> (sid, Some f) \<notin> set (keys_of dkey (dheap ds) ps)
     | Some a \<Rightarrow> a \<in> set ps \<and> dkey (the (dheap ds a)) = (sid, Some f))"
  unfolding get_dsession_def
  by (rule dses.lookup [OF ds_okD(1,2) [OF assms]]) (simp add: dses_match_ok [OF assms])

lemma get_dsession_self:
  assumes "ds_ok ds w ps" and "a \<in> set ps" and "dheap ds a = Some n"
  shows "get_dsession ds (clid n) (ds_filename n) = Inr (Some a)"
proof -
  obtain f where f: "ds_filename n = Some f"
    using ds_ok_node [OF assms(1,2)] assms(3) by (metis option.sel)
  have "find_from (dbrk ds) (dheap ds) (dses_match (clid n) (Some f)) (dhead ds) = Inr (Some a)"
    by (rule dses.lookup_unique [OF ds_okD(1,2,4) [OF assms(1)] assms(2)])
      (auto simp: dses_match_ok [OF assms(1)] assms(3) dkey_def f)
  then show ?thesis by (simp add: get_dsession_def f)
qed

subsection \<open>Deletion\<close>

lemma unlink_dsession_unlink:
  "unlink_dsession ds pm =
   ebind (unlink (dheap ds) (dhead ds) pm) (\<lambda>(h, hp). Inr (ds\<lparr>dheap := h, dhead := hp\<rparr>))"
  by (cases "load (dheap ds) pm")
    (auto simp: unlink_dsession_def unlink_def ebind_assoc split: option.splits)

lemma tab_ok_remove:
  assumes "tab_ok w (es1 @ (c, f, Some fp) # es2)"
    and "streams w' = (streams w)(fp := None)" and "nstreams w' = nstreams w"
  shows "tab_ok w' (es1 @ es2)"
proof -
  let ?k = "\<lambda>(c, f, p). (c, f)" and ?p = "\<lambda>(c, f, p). p"
  have k: "distinct (map ?k (es1 @ (c, f, Some fp) # es2))"
    and p: "distinct (map ?p (es1 @ (c, f, Some fp) # es2))"
    using assms(1) unfolding tab_ok_def by blast+
  from p have "Some fp \<notin> ?p ` set (es1 @ es2)"
    by (simp add: image_Un)
  then have np: "p \<noteq> Some fp" if "(c', f', p) \<in> set (es1 @ es2)" for c' f' p
    using that by force
  have "f' \<noteq> None \<and> (\<exists>q. p = Some q \<and> q < nstreams w' \<and> streams w' q \<noteq> None)"
    if e: "(c', f', p) \<in> set (es1 @ es2)" for c' f' p
  proof -
    have "(c', f', p) \<in> set (es1 @ (c, f, Some fp) # es2)" using e by auto
    then obtain q where "f' \<noteq> None" "p = Some q" "q < nstreams w" "streams w q \<noteq> None"
      using assms(1) unfolding tab_ok_def by blast
    then show ?thesis using np [OF e] assms(2,3) by auto
  qed
  moreover have "distinct (map ?k (es1 @ es2))" "distinct (map ?p (es1 @ es2))"
    using k p by simp_all
  ultimately show ?thesis unfolding tab_ok_def by blast
qed

text \<open>Deleting an entry of a well-formed table closes its stream and removes it alone.\<close>

lemma del_dsession_ok:
  assumes ok: "ds_ok ds w (xs @ a # ys)" and n: "dheap ds a = Some n" and fp: "ds_fp n = Some fp"
  shows "\<exists>ds' w'. del_dsession ds a w = Inr (IW_OK, ds', w') \<and> ds_ok ds' w' (xs @ ys) \<and>
    dtab ds' (xs @ ys) = dtab ds (xs @ ys) \<and> dheap ds' a = None \<and> dspath ds' = dspath ds \<and>
    dbrk ds' = dbrk ds \<and> fsys w' = fsys w \<and> streams w' = (streams w)(fp := None) \<and>
    nstreams w' = nstreams w \<and> fstep None w w'"
proof -
  note d = ds_okD [OF ok]
  have dd: "distinct (keys_of dentry (dheap ds) (xs @ a # ys))"
    using d(3) by (auto simp: tab_ok_def dtab_def distinct_map)
  obtain h' hp' where h':
    "ebind (unlink (dheap ds) (dhead ds) a) (\<lambda>(h, hp). ebind (free h a) (\<lambda>h. Inr (h, hp))) = Inr (h', hp')"
    "dll h' hp' (xs @ ys)" "h' a = None"
    "keys_of dentry h' (xs @ ys) = keys_of dentry (dheap ds) (xs @ ys)"
    using dent.remove [OF d(1) dd] by blast
  from h'(1) obtain h where h: "unlink (dheap ds) (dhead ds) a = Inr (h, hp')" "free h a = Inr h'"
    by (auto simp: ebind_Inr_iff)
  obtain m where m: "h a = Some m" "strip m = strip n"
    using same_payload_Some [OF unlink_payload [OF h(1)] n] by blast
  have "ds_fp m = ds_fp n"
    using arg_cong [OF m(2), of ds_fp] by (simp add: strip_def)
  then have mfp: "ds_fp m = Some fp" using fp by simp
  obtain st where st: "streams w fp = Some st"
    using ds_ok_node [OF ok, of a] n fp by force
  obtain w' where w': "sys_fclose w fp = Inr (fst (draw w) = 0, w')" "fsys w' = fsys w"
      "streams w' = (streams w)(fp := None)" "nstreams w' = nstreams w"
    using st by (auto simp: sys_fclose_def draw_def)
  let ?ds = "ds\<lparr>dheap := h', dhead := hp'\<rparr>"
  have del: "del_dsession ds a w = Inr (IW_OK, ?ds, w')"
    using get_dsession_self [OF ok _ n] n h m mfp w'(1)
    by (simp add: del_dsession_def unlink_dsession_unlink)
  have tab: "dtab ?ds (xs @ ys) = dtab ds (xs @ ys)"
    using h'(4) by (simp add: dtab_def)
  have "tab_ok w' (dtab ds (xs @ ys))"
    using tab_ok_remove [OF _ w'(3,4)] d(3) n fp by (simp add: dentry_def)
  then have "ds_ok ?ds w' (xs @ ys)"
    using ok h'(2) tab by (auto simp: ds_ok_def)
  with del tab h'(3) w' fstep_fclose [OF w'(1)] show ?thesis by auto
qed

subsection \<open>Paths and file checks\<close>

lemma alloc_path_ok:
  assumes "dir \<noteq> []" and "is_cstring dir" and "is_cstring file"
  shows "alloc_path dir file w =
    Inr (if outcome w (tick w) = 0 then Some (joined dir file) else None, w\<lparr>tick := Suc (tick w)\<rparr>)"
proof -
  let ?n = "length dir + length file + 2"
  have "length (joined dir file) < ?n"
    using length_dropWhile_slash [of "file"] by (simp add: joined_def)
  then have "join_path dir file (replicate ?n NUL) ?n =
      Inr (int (length dir + length (dropWhile (\<lambda>c. c = SLASH) file)),
        joined dir file @ NUL # drop (Suc (length (joined dir file))) (replicate ?n NUL))"
    by (intro join_path_steps [OF assms(1) _ refl]) auto
  moreover have "cstr_at (joined dir file @ NUL # t) 0 = Inr (joined dir file)" for t
    using cstr_at_append [of "joined dir file" 0 "[]"] assms by (simp add: cstring_joined)
  ultimately show ?thesis
    by (simp add: alloc_path_def sys_malloc_def draw_def Let_def)
qed

definition file_kind :: "fnode option \<Rightarrow> tri" where
  "file_kind x = (case x of Some (Regular _) \<Rightarrow> IW_True | _ \<Rightarrow> IW_False)"

lemma is_dsfile_ok:
  assumes "dir \<noteq> []" and "is_cstring dir" and "is_cstring file"
  shows "is_dsfile dir file w =
    Inr (if outcome w (tick w) = 0 then file_kind (fsys w (canon w (joined dir file))) else IW_Err,
         w\<lparr>tick := Suc (tick w)\<rparr>)"
  using alloc_path_ok [OF assms, of w]
  by (auto simp: is_dsfile_def sys_stat_def file_kind_def split: option.splits fnode.splits)

subsection \<open>Creation\<close>

lemma add_dsession_ok:
  assumes ok: "ds_ok ds w ps"
  shows "(\<exists>w'. add_dsession ds w = Inr (None, ds, w') \<and> same_files w w' \<and> fstep None w w') \<or>
    (\<exists>ds' w'. add_dsession ds w = Inr (Some (dbrk ds), ds', w') \<and> same_files w w' \<and> fstep None w w' \<and>
       dll (dheap ds') (dhead ds') (dbrk ds # ps) \<and> dbrk ds' = Suc (dbrk ds) \<and>
       dhead ds' = Some (dbrk ds) \<and> dtab ds' ps = dtab ds ps \<and> dheap ds' (dbrk ds) \<noteq> None \<and>
       dspath ds' = dspath ds \<and> fchroot ds' = fchroot ds)"
proof -
  note d = ds_okD [OF ok]
  let ?p = "dbrk ds"
  let ?z = "\<lparr>nxt = None, prv = None, clid = 0, ds_fp = None, ds_filename = None, ds_derr = 0\<rparr>"
  let ?h = "(dheap ds)(?p \<mapsto> ?z)"
  obtain b w' where m: "sys_malloc w = (b, w')" by fastforce
  then have w': "same_files w w'" "fstep None w w'" by (auto intro: files_malloc fstep_malloc)
  have p: "?p \<notin> set ps" using ok by (auto simp: ds_ok_def)
  have dh: "dll ?h (dhead ds) ps" using dll_other [OF d(1) p] .
  show ?thesis
  proof (cases b)
    case False
    with m w' show ?thesis by (simp add: add_dsession_def)
  next
    case True
    show ?thesis
    proof (cases ps)
      case Nil
      with d(1) have "dhead ds = None" by simp
      with True m w' Nil show ?thesis
        by (auto simp: add_dsession_def dll_def Let_def)
    next
      case (Cons a as)
      then obtain na where na: "dheap ds a = Some na" using dll_allocated [OF d(1), of a] by auto
      have hd: "dhead ds = Some a" using d(1) Cons by (simp add: dll_def)
      have ap: "a \<noteq> ?p" using p Cons by auto
      let ?h' = "?h(a \<mapsto> na\<lparr>prv := Some ?p\<rparr>, ?p \<mapsto> ?z\<lparr>nxt := Some a\<rparr>)"
      have tw: "?h' = ?h(?p \<mapsto> ?z\<lparr>nxt := Some a\<rparr>, a \<mapsto> (the (?h a))\<lparr>prv := Some ?p\<rparr>)"
        using ap na by (auto simp: fun_eq_iff)
      have dl: "dll ?h' (Some ?p) (?p # ps)"
        by (rule dll_link_front [OF dh p, where n = ?z]) (simp_all only: tw Cons list.case, simp_all)
      have "keys_of dentry ?h' ps = keys_of dentry (dheap ds) ps"
        using p na by (auto simp: keys_of_def dentry_def)
      with True m w' hd na ap dl show ?thesis
        by (auto simp: add_dsession_def dtab_def Let_def)
    qed
  qed
qed

lemma tab_ok_closed_new:
  assumes "tab_ok w es" and "streams w' = (streams w)(nstreams w := None)"
    and "nstreams w' = Suc (nstreams w)"
  shows "tab_ok w' es"
proof -
  have "f \<noteq> None \<and> (\<exists>q. p = Some q \<and> q < nstreams w' \<and> streams w' q \<noteq> None)"
    if e: "(c, f, p) \<in> set es" for c f p
  proof -
    obtain q where "f \<noteq> None" "p = Some q" "q < nstreams w" "streams w q \<noteq> None"
      using tab_ok_entry [OF assms(1) e] by blast
    then show ?thesis using assms(2,3) by simp
  qed
  then show ?thesis using assms(1) unfolding tab_ok_def by blast
qed

lemma tab_ok_add:
  assumes "tab_ok w es" and "(sid, Some f) \<notin> set (map (\<lambda>(c, f, p). (c, f)) es)"
    and "streams w' = (streams w)(nstreams w \<mapsto> s)" and "nstreams w' = Suc (nstreams w)"
  shows "tab_ok w' ((sid, Some f, Some (nstreams w)) # es)"
  unfolding tab_ok_def
proof (intro conjI allI impI)
  show "distinct (map (\<lambda>(c, f, p). (c, f)) ((sid, Some f, Some (nstreams w)) # es))"
    using assms(1,2) unfolding tab_ok_def by simp
  show "distinct (map (\<lambda>(c, f, p). p) ((sid, Some f, Some (nstreams w)) # es))"
    using assms(1) tab_ok_entry [OF assms(1)] by (fastforce simp: tab_ok_def)
next
  fix c' f' p assume "(c', f', p) \<in> set ((sid, Some f, Some (nstreams w)) # es)"
  then consider "c' = sid" "f' = Some f" "p = Some (nstreams w)" | "(c', f', p) \<in> set es" by auto
  then show "f' \<noteq> None" "\<exists>q. p = Some q \<and> q < nstreams w' \<and> streams w' q \<noteq> None"
    using tab_ok_entry [OF assms(1)] assms(3,4) by (cases; fastforce)+
qed

text \<open>The three ends of \<open>enter_dsession\<close>: the allocation of the name fails and the cleanup
  dereferences the null name; the node is not allocated and the stream is closed again; or a
  node is added in front. The stream \<open>nstreams w\<close> has just been opened in \<open>w1\<close>.\<close>

text \<open>Without memory for the entry the stream just opened is closed again.\<close>

lemma enter_dsession_none:
  assumes ok: "ds_ok ds w ps" and st1: "streams w1 = (streams w)(nstreams w \<mapsto> s)" "nstreams w1 = Suc (nstreams w)"
    and a: "add_dsession ds w1 = Inr (None, ds, w2)" "same_files w1 w2" "fstep None w1 w2"
  shows "\<exists>w'. enter_dsession ds sid (nstreams w) f w1 = Inr (None, ds, w') \<and> ds_ok ds w' ps \<and> fstep None w1 w' \<and>
    \<not> fault_free w1 \<and> (\<forall>q < nstreams w. streams w' q = streams w q)"
proof -
  let ?fp = "nstreams w"
  have "streams w2 ?fp = Some s" using st1 a(2) by (simp add: same_files_def)
  then obtain b w3 where cl: "sys_fclose w2 ?fp = Inr (b, w3)" "streams w3 = (streams w2)(?fp := None)"
      "nstreams w3 = nstreams w2"
    by (auto simp: sys_fclose_def draw_def)
  have "tab_ok w3 (dtab ds ps)"
    using tab_ok_closed_new [OF ds_okD(3) [OF ok]] a(2) cl st1 by (simp add: same_files_def)
  then have "ds_ok ds w3 ps" using ok by (simp add: ds_ok_def)
  moreover have "\<not> fault_free w1"
    using a(1) by (auto simp: add_dsession_def sys_malloc_def fault_free_draw Let_def ebind_Inr_iff)
  moreover have "fstep None w1 w3"
    using a(3) fstep_fclose [OF cl(1)] fstep_trans by blast
  moreover have "streams w3 q = streams w q" if "q < nstreams w" for q
    using that cl(2) a(2) st1(1) by (simp add: same_files_def)
  ultimately show ?thesis using a cl by (simp add: enter_dsession_def)
qed

lemma enter_dsession_cases:
  assumes ok: "ds_ok ds w ps" and new: "(sid, Some f) \<notin> set (keys_of dkey (dheap ds) ps)"
    and st1: "streams w1 = (streams w)(nstreams w \<mapsto> s)" "nstreams w1 = Suc (nstreams w)"
  obtains (fault) "enter_dsession ds sid (nstreams w) f w1 = Inl Null_deref" "\<not> fault_free w1"
  | (none) w' where "enter_dsession ds sid (nstreams w) f w1 = Inr (None, ds, w')"
      "ds_ok ds w' ps" "fstep None w1 w'" "\<not> fault_free w1" "\<And>q. q < nstreams w \<Longrightarrow> streams w' q = streams w q"
  | (some) ds' w' where "enter_dsession ds sid (nstreams w) f w1 = Inr (Some (dbrk ds), ds', w')"
      "ds_ok ds' w' (dbrk ds # ps)" "fstep None w1 w'" "same_files w1 w'"
      "dtab ds' (dbrk ds # ps) = (sid, Some f, Some (nstreams w)) # dtab ds ps"
      "dspath ds' = dspath ds" "fchroot ds' = fchroot ds"
proof -
  note d = ds_okD [OF ok]
  let ?fp = "nstreams w" and ?a = "dbrk ds"
  have ok1: "ds_ok ds w1 ps"
    by (rule ds_ok_world [OF ok]) (auto simp: st1)
  from add_dsession_ok [OF ok1] show thesis
  proof (elim disjE exE conjE)
    fix w2 assume "add_dsession ds w1 = Inr (None, ds, w2)" "same_files w1 w2" "fstep None w1 w2"
    from enter_dsession_none [OF ok st1 this] show thesis using none by blast
  next
    fix ds2 w2
    assume a: "add_dsession ds w1 = Inr (Some ?a, ds2, w2)" "same_files w1 w2" "fstep None w1 w2"
      "dll (dheap ds2) (dhead ds2) (?a # ps)" "dbrk ds2 = Suc ?a" "dhead ds2 = Some ?a"
      "dtab ds2 ps = dtab ds ps" "dheap ds2 ?a \<noteq> None" "dspath ds2 = dspath ds" "fchroot ds2 = fchroot ds"
    obtain n where n: "dheap ds2 ?a = Some n" using a(8) by blast
    let ?n1 = "n\<lparr>ds_fp := Some ?fp, clid := sid\<rparr>"
    obtain b w3 where m: "sys_malloc w2 = (b, w3)" by fastforce
    have e3: "same_files w1 w3" "fstep None w1 w3"
      using files_malloc [OF m] fstep_malloc [OF m] a(2,3) fstep_trans same_files_trans by blast+
    show thesis
    proof (cases b)
      case False
      have fnone: "ds_filename n = None"
        using a(1) n by (auto simp: add_dsession_def sys_malloc_def Let_def ebind_Inr_iff
            set_prv_def set_nxt_def store_def load_def split: if_splits option.splits prod.splits)
      then have "get_dsession (ds2\<lparr>dheap := (dheap ds2)(?a \<mapsto> ?n1)\<rparr>) sid None = Inl Null_deref"
        using a(5,6) by (simp add: get_dsession_def dses_match_def strcmp_eq_def)
      then have "enter_dsession ds sid ?fp f w1 = Inl Null_deref"
        using a(1) n m False fnone by (simp add: enter_dsession_def del_dsession_def)
      moreover have "\<not> fault_free w1"
        using m False same_env_fault_free [OF fstep_env [OF a(3)]] by (auto simp: sys_malloc_def fault_free_draw)
      ultimately show thesis by (rule fault)
    next
      case True
      let ?n2 = "?n1\<lparr>ds_filename := Some f\<rparr>"
      let ?ds4 = "ds2\<lparr>dheap := (dheap ds2)(?a \<mapsto> ?n2)\<rparr>"
      have c: "enter_dsession ds sid ?fp f w1 = Inr (Some ?a, ?ds4, w3)"
        using a(1) n m True by (simp add: enter_dsession_def)
      have dl: "dll (dheap ?ds4) (dhead ?ds4) (?a # ps)"
        using dll_store_payload [OF a(4) n, of ?n2] by simp
      have tab: "dtab ?ds4 (?a # ps) = (sid, Some f, Some ?fp) # dtab ds ps"
        using dll_distinct [OF a(4)] a(7) by (auto simp: dtab_def keys_of_def dentry_def)
      have "tab_ok w3 (dtab ?ds4 (?a # ps))"
        unfolding tab using tab_ok_add [OF d(3)] new e3(1) st1
        by (simp add: dkeys_dtab same_files_def)
      then have "ds_ok ?ds4 w3 (?a # ps)"
        using dl ok a(5,9) by (auto simp: ds_ok_def)
      then show thesis using some c e3 tab a(9,10) by simp
    qed
  qed
qed

text \<open>The three ends of \<open>create_dsession\<close>.\<close>

lemma create_dsession_cases:
  assumes ok: "ds_ok ds w ps" and new: "(sid, Some f) \<notin> set (keys_of dkey (dheap ds) ps)"
    and cs: "is_cstring f"
  obtains (fault) "create_dsession ds sid (dspath ds) f wr w = Inl Null_deref" "\<not> fault_free w"
  | (none) w' where "create_dsession ds sid (dspath ds) f wr w = Inr (None, ds, w')"
      "ds_ok ds w' ps" "fstep (if wr then Some (canon w (joined (dspath ds) f)) else None) w w'"
      "\<not> fault_free w \<or> (if wr then fsys w (canon w (joined (dspath ds) f)) = Some Directory
        else fsys w (canon w (joined (dspath ds) f)) = None)"
      "\<And>q. q < nstreams w \<Longrightarrow> streams w' q = streams w q"
  | (some) ds' w' where "create_dsession ds sid (dspath ds) f wr w = Inr (Some (dbrk ds), ds', w')"
      "ds_ok ds' w' (dbrk ds # ps)"
      "fstep (if wr then Some (canon w (joined (dspath ds) f)) else None) w w'"
      "dtab ds' (dbrk ds # ps) = (sid, Some f, Some (nstreams w)) # dtab ds ps"
      "streams w' = (streams w)(nstreams w \<mapsto> new_stream (canon w (joined (dspath ds) f)) wr)"
      "fsys w' = (if wr \<and> fsys w (canon w (joined (dspath ds) f)) \<noteq> Some Special
         then (fsys w)(canon w (joined (dspath ds) f) \<mapsto> Regular []) else fsys w)"
      "nstreams w' = Suc (nstreams w)"
      "dspath ds' = dspath ds" "fchroot ds' = fchroot ds"
proof -
  note d = ds_okD [OF ok]
  let ?path = "joined (dspath ds) f"
  let ?w0 = "w\<lparr>tick := Suc (tick w)\<rparr>"
  let ?x = "if wr then Some (canon w ?path) else None"
  have w0: "fstep ?x w ?w0" "same_files w ?w0" by (simp_all add: same_files_def)
  show thesis
  proof (cases "outcome w (tick w) = 0")
    case False
    then have "create_dsession ds sid (dspath ds) f wr w = Inr (None, ds, ?w0)"
      by (simp add: create_dsession_def alloc_path_ok [OF d(5,6) cs])
    moreover have "\<not> fault_free w" using False by (auto simp: fault_free_def)
    ultimately show thesis
      using none [of ?w0] w0 ds_ok_same_files [OF ok w0(2)] by simp
  next
    case True
    then have al: "alloc_path (dspath ds) f w = Inr (Some ?path, ?w0)"
      by (simp add: alloc_path_ok [OF d(5,6) cs])
    obtain r w1 where fo: "sys_fopen ?w0 ?path wr = (r, w1)" by fastforce
    have f1: "fstep ?x w w1"
      using fo fstep_fopen_read [of ?w0 ?path r w1 None] fstep_fopen_write [of ?w0 ?path r w1]
      by (intro fstep_trans [OF w0(1)]) auto
    from fo show thesis
    proof (cases rule: sys_fopen_cases)
      case fail
      then have "create_dsession ds sid (dspath ds) f wr w = Inr (None, ds, w1)"
        using fo by (simp add: create_dsession_def al)
      moreover have "same_files w w1" using fail(2) w0(2) same_files_trans by blast
      moreover have "\<not> fault_free w \<or> (if wr then fsys w (canon w ?path) = Some Directory
          else fsys w (canon w ?path) = None)"
        by (rule ccontr) (use sys_fopen_ok [of ?w0 wr ?path] fo fail(1) in \<open>auto split: if_splits\<close>)
      ultimately show thesis
        using none [of w1] f1 ds_ok_same_files [OF ok] by (simp add: same_files_def)
    next
      case opened
      then have c: "create_dsession ds sid (dspath ds) f wr w = enter_dsession ds sid (nstreams w) f w1"
        using fo by (simp add: create_dsession_def al)
      have st1: "streams w1 = (streams w)(nstreams w \<mapsto> new_stream (canon w ?path) wr)"
          "nstreams w1 = Suc (nstreams w)"
        using opened by simp_all
      note ff = same_env_fault_free [OF fstep_env [OF f1]]
        and tr = fstep_trans [OF f1 fstep_None]
      from ok new st1 show thesis
      proof (cases rule: enter_dsession_cases)
        case fault
        then show thesis using that(1) c ff by metis
      next
        case (none w')
        then show thesis using that(2) [of w'] c ff tr by metis
      next
        case (some ds' w')
        then show thesis
          using that(3) [of ds' w'] c tr [OF some(3)] st1 opened by (simp add: same_files_def)
      qed
    qed
  qed
qed

subsection \<open>The open stream of a client\<close>

text \<open>The stream a client has open for a file.\<close>

definition entry_stream :: "iwds \<Rightarrow> world \<Rightarrow> int \<Rightarrow> string \<Rightarrow> stream option" where
  "entry_stream ds w sid f =
     (case get_dsession ds sid (Some f) of
        Inr (Some a) \<Rightarrow> Option.bind (dheap ds a) (\<lambda>n. Option.bind (ds_fp n) (streams w))
      | _ \<Rightarrow> None)"

lemma entry_stream_in:
  assumes ok: "ds_ok ds w ps" and e: "(sid, Some f, Some fp) \<in> set (dtab ds ps)"
  shows "entry_stream ds w sid f = streams w fp"
proof -
  from e obtain a n where a: "a \<in> set ps" "dheap ds a = Some n" "dentry n = (sid, Some f, Some fp)"
    using dll_allocated [OF ds_okD(1) [OF ok]] by (fastforce simp: dtab_def keys_of_def)
  then show ?thesis
    using get_dsession_self [OF ok a(1,2)] by (simp add: entry_stream_def dentry_def)
qed

lemma entry_stream_notin:
  assumes ok: "ds_ok ds w ps" and no: "\<And>fp. (sid, Some f, Some fp) \<notin> set (dtab ds ps)"
  shows "entry_stream ds w sid f = None"
proof -
  obtain r where r: "get_dsession ds sid (Some f) = Inr r" "case r of None \<Rightarrow> True
      | Some a \<Rightarrow> a \<in> set ps \<and> dkey (the (dheap ds a)) = (sid, Some f)"
    using get_dsession_ok [OF ok, of sid f] by (fastforce split: option.splits)
  have "r = None"
  proof (rule ccontr)
    assume "r \<noteq> None"
    then obtain a where a: "a \<in> set ps" "dkey (the (dheap ds a)) = (sid, Some f)" using r by auto
    obtain n f' fp where "dheap ds a = Some n" "ds_fp n = Some fp" using ds_ok_node [OF ok a(1)] by metis
    then have "(sid, Some f, Some fp) \<in> set (dtab ds ps)"
      using a by (force simp: dtab_def keys_of_def dentry_def dkey_def)
    with no show False by blast
  qed
  with r(1) show ?thesis by (simp add: entry_stream_def)
qed

lemma entry_stream_cong:
  assumes "ds_ok ds w ps" and "ds_ok ds' w' ps'"
    and "\<And>fp. (sid, Some f, Some fp) \<in> set (dtab ds' ps') \<longleftrightarrow> (sid, Some f, Some fp) \<in> set (dtab ds ps)"
    and "\<And>fp. (sid, Some f, Some fp) \<in> set (dtab ds ps) \<Longrightarrow> streams w' fp = streams w fp"
  shows "entry_stream ds' w' sid f = entry_stream ds w sid f"
proof (cases "\<exists>fp. (sid, Some f, Some fp) \<in> set (dtab ds ps)")
  case True
  then obtain fp where "(sid, Some f, Some fp) \<in> set (dtab ds ps)" by blast
  with assms show ?thesis using entry_stream_in [OF assms(1)] entry_stream_in [OF assms(2)] by metis
next
  case False
  with assms(3) show ?thesis using entry_stream_notin [OF assms(1)] entry_stream_notin [OF assms(2)] by metis
qed

lemma tab_ok_fp_unique:
  assumes "tab_ok w es" and "(c, f, p) \<in> set es" and "(c', f', p) \<in> set es"
  shows "c' = c \<and> f' = f"
proof -
  have "inj_on (\<lambda>(c, f, p). p) (set es)" using assms(1) by (simp add: tab_ok_def distinct_map)
  then have "(c, f, p) = (c', f', p)" by (rule inj_onD) (use assms in simp_all)
  then show ?thesis by simp
qed

section \<open>The operations keep the invariant\<close>

text \<open>What every operation guarantees, whatever fails: the table stays well formed, the path
  stays, and no regular file outside the open write streams changes.\<close>

definition ds_step :: "iwds \<Rightarrow> world \<Rightarrow> iwds \<Rightarrow> world \<Rightarrow> bool" where
  "ds_step ds w ds' w' \<longleftrightarrow> (\<exists>ps'. ds_ok ds' w' ps') \<and> fstep None w w' \<and> dspath ds' = dspath ds"

text \<open>A step of the client \<open>sid\<close> leaves the streams of all others where they are.\<close>

definition ds_step_of :: "int \<Rightarrow> iwds \<Rightarrow> world \<Rightarrow> iwds \<Rightarrow> world \<Rightarrow> bool" where
  "ds_step_of sid ds w ds' w' \<longleftrightarrow> ds_step ds w ds' w' \<and>
     (\<forall>s f. s \<noteq> sid \<longrightarrow> entry_stream ds' w' s f = entry_stream ds w s f)"

lemma ds_step_of_step [dest]: "ds_step_of sid ds w ds' w' \<Longrightarrow> ds_step ds w ds' w'"
  by (simp add: ds_step_of_def)

lemma ds_step_trans: "\<lbrakk>ds_step ds w ds' w'; ds_step ds' w' ds'' w''\<rbrakk> \<Longrightarrow> ds_step ds w ds'' w''"
  by (auto simp: ds_step_def intro: fstep_trans)

lemma ds_step_of_trans:
  "\<lbrakk>ds_step_of sid ds w ds' w'; ds_step_of sid ds' w' ds'' w''\<rbrakk> \<Longrightarrow> ds_step_of sid ds w ds'' w''"
  by (auto simp: ds_step_of_def intro: ds_step_trans)

lemma ds_step_ofI:
  assumes "ds_ok ds w ps" and "ds_ok ds' w' ps'" and "fstep None w w'" and "dspath ds' = dspath ds"
    and "\<And>e. fst e \<noteq> sid \<Longrightarrow> e \<in> set (dtab ds' ps') \<longleftrightarrow> e \<in> set (dtab ds ps)"
    and "\<And>s f fp. \<lbrakk>s \<noteq> sid; (s, f, Some fp) \<in> set (dtab ds ps)\<rbrakk> \<Longrightarrow> streams w' fp = streams w fp"
  shows "ds_step_of sid ds w ds' w'"
proof -
  have "entry_stream ds' w' s f = entry_stream ds w s f" if "s \<noteq> sid" for s f
    by (rule entry_stream_cong [OF assms(1,2)]) (use that assms(5) [of "(s, Some f, Some _)"] assms(6) in auto)
  then show ?thesis using assms(2-4) by (auto simp: ds_step_of_def ds_step_def)
qed

lemma ds_step_of_same_files:
  "\<lbrakk>ds_ok ds w ps; same_files w w'; fstep None w w'\<rbrakk> \<Longrightarrow> ds_step_of sid ds w ds w'"
  by (rule ds_step_ofI [OF _ ds_ok_same_files]) (auto simp: same_files_def)

lemma fstep_unguarded:
  "\<lbrakk>fstep (Some q) w w'; file_kind (fsys w q) \<noteq> IW_True\<rbrakk> \<Longrightarrow> fstep None w w'"
proof -
  assume f: "fstep (Some q) w w'" and k: "file_kind (fsys w q) \<noteq> IW_True"
  have "q' \<noteq> q" if "guarded w q' c" for q' c
    using that k by (auto simp: guarded_def file_kind_def)
  with f show "fstep None w w'" unfolding fstep_def by blast
qed

text \<open>Work on the open stream of an entry of the client.\<close>

lemma ds_step_of_stream:
  assumes ok: "ds_ok ds w ps" and a: "a \<in> set ps" "dheap ds a = Some n" "ds_fp n = Some fp"
    and s: "nstreams w' = nstreams w" "\<And>q. streams w q \<noteq> None \<Longrightarrow> streams w' q \<noteq> None"
      "\<And>q. q \<noteq> fp \<Longrightarrow> streams w' q = streams w q" "fstep None w w'"
  shows "ds_step_of (clid n) ds w ds w'" and "ds_ok ds w' ps"
proof -
  show ok': "ds_ok ds w' ps" by (rule ds_ok_world [OF ok]) (use s in auto)
  have e: "(clid n, ds_filename n, Some fp) \<in> set (dtab ds ps)"
    using a by (force simp: dtab_def keys_of_def dentry_def)
  have "streams w' q = streams w q" if "c \<noteq> clid n" "(c, f, Some q) \<in> set (dtab ds ps)" for c f q
    using tab_ok_fp_unique [OF ds_okD(3) [OF ok] e, of c f] that by (intro s(3)) auto
  then show "ds_step_of (clid n) ds w ds w'" using ds_step_ofI [OF ok ok' s(4)] by blast
qed

lemma del_dsession_step:
  assumes "ds_ok ds w ps" and "a \<in> set ps" and "clid (the (dheap ds a)) = sid"
  shows "\<exists>ds' w'. del_dsession ds a w = Inr (IW_OK, ds', w') \<and> ds_step_of sid ds w ds' w'"
proof -
  obtain xs ys where ps: "ps = xs @ a # ys" using assms(2) by (meson split_list)
  obtain n f fp where n: "dheap ds a = Some n" "ds_fp n = Some fp"
    using ds_ok_node [OF assms(1,2)] by metis
  obtain ds' w' where d: "del_dsession ds a w = Inr (IW_OK, ds', w')" "ds_ok ds' w' (xs @ ys)"
      "dtab ds' (xs @ ys) = dtab ds (xs @ ys)" "dspath ds' = dspath ds" "streams w' = (streams w)(fp := None)"
      "fstep None w w'"
    using del_dsession_ok [OF assms(1) [unfolded ps] n] by blast
  have e: "(clid n, ds_filename n, Some fp) \<in> set (dtab ds ps)"
    using assms(2) n by (force simp: dtab_def keys_of_def dentry_def)
  have "streams w' q = streams w q" if "c \<noteq> sid" "(c, f, Some q) \<in> set (dtab ds ps)" for c f q
    using tab_ok_fp_unique [OF ds_okD(3) [OF assms(1)] e, of c f] that assms(3) n d(5) by auto
  moreover have "e \<in> set (dtab ds' (xs @ ys)) \<longleftrightarrow> e \<in> set (dtab ds ps)" if "fst e \<noteq> sid" for e
    using that assms(3) n d(3) unfolding ps by (auto simp: dentry_def)
  ultimately show ?thesis using d(1) ds_step_ofI [OF assms(1) d(2,6,4)] by blast
qed

lemma iwds_err_step:
  assumes "ds_ok ds w ps" and "a \<in> set ps" and "clid (the (dheap ds a)) = sid"
  shows "\<exists>ds' w'. iwds_err ds (Some a) w = Inr (ds', w') \<and> ds_step_of sid ds w ds' w'"
proof -
  have "dhead ds \<noteq> None" using ds_okD(1) [OF assms(1)] assms(2) by (auto simp: dll_def)
  then show ?thesis using del_dsession_step [OF assms] by (auto simp: iwds_err_def)
qed

lemma fread_streams:
  assumes "sys_fread w fp n = Inr (bs, w')"
  shows "nstreams w' = nstreams w" "streams w q \<noteq> None \<Longrightarrow> streams w' q \<noteq> None"
    "q \<noteq> fp \<Longrightarrow> streams w' q = streams w q" "length bs \<le> n"
  using assms by (auto simp: sys_fread_def draw_def Let_def split: if_splits option.splits fnode.splits)

lemma fread_defined: "streams w fp \<noteq> None \<Longrightarrow> \<exists>bs w'. sys_fread w fp n = Inr (bs, w')"
  by (auto simp: sys_fread_def Let_def split: option.splits fnode.splits prod.splits)

lemma fwrite_streams:
  assumes "sys_fwrite w fp bs = Inr (n, w')"
  shows "nstreams w' = nstreams w" "streams w q \<noteq> None \<Longrightarrow> streams w' q \<noteq> None"
    "q \<noteq> fp \<Longrightarrow> streams w' q = streams w q" "n \<le> length bs"
  using assms by (auto simp: sys_fwrite_def draw_def Let_def split: if_splits option.splits fnode.splits)

lemma fwrite_defined: "streams w fp \<noteq> None \<Longrightarrow> \<exists>n w'. sys_fwrite w fp bs = Inr (n, w')"
  by (auto simp: sys_fwrite_def Let_def split: option.splits fnode.splits prod.splits)


lemma read_entry_safe:
  assumes ok: "ds_ok ds w ps" and a: "a \<in> set ps" "clid (the (dheap ds a)) = sid"
  shows "\<exists>bs req' ds' w'. read_entry ds a req w = Inr (bs, req', ds', w') \<and> ds_step_of sid ds w ds' w' \<and>
    length bs \<le> dlen req"
proof -
  obtain n f fp where n: "dheap ds a = Some n" "ds_fp n = Some fp" "streams w fp \<noteq> None"
    using ds_ok_node [OF ok a(1)] by metis
  obtain bs w1 where r: "sys_fread w fp (dlen req) = Inr (bs, w1)"
    using fread_defined [OF n(3)] by blast
  have s1: "ds_step_of sid ds w ds w1" and ok1: "ds_ok ds w1 ps"
    using ds_step_of_stream [OF ok a(1) n(1,2) fread_streams(1,2,3) [OF r] fstep_fread [OF r]] n(1) a(2) by auto
  obtain ds' w' where e: "iwds_err ds (Some a) w1 = Inr (ds', w')" "ds_step_of sid ds w1 ds' w'"
    using iwds_err_step [OF ok1 a] by blast
  with n r s1 ds_step_of_trans [OF s1] fread_streams(4) [OF r] show ?thesis
    by (auto simp: read_entry_def)
qed

lemma get_dsession_choice:
  assumes "ds_ok ds w ps"
  obtains (new) "get_dsession ds sid (Some f) = Inr None" "(sid, Some f) \<notin> set (keys_of dkey (dheap ds) ps)"
  | (old) a where "get_dsession ds sid (Some f) = Inr (Some a)" "a \<in> set ps" "clid (the (dheap ds a)) = sid"
  using get_dsession_ok [OF assms, of sid f] by (fastforce simp: dkey_def split: option.splits)

text \<open>An entry added in front is one of the client's.\<close>

lemma create_dsession_step:
  assumes ok: "ds_ok ds w ps" and ok': "ds_ok ds' w' (dbrk ds # ps)" and f: "fstep None w w'" and p: "dspath ds' = dspath ds"
    and t: "dtab ds' (dbrk ds # ps) = (sid, f, Some (nstreams w)) # dtab ds ps"
    and s: "streams w' = (streams w)(nstreams w \<mapsto> x)"
  shows "ds_step_of sid ds w ds' w'" and "clid (the (dheap ds' (dbrk ds))) = sid"
proof -
  have "streams w' fp = streams w fp" if "(c, g, Some fp) \<in> set (dtab ds ps)" for c g fp
    using tab_ok_entry [OF ds_okD(3) [OF ok] that] s by auto
  then show "ds_step_of sid ds w ds' w'"
    using ds_step_ofI [OF ok ok' f p, of sid] unfolding t by auto
  show "clid (the (dheap ds' (dbrk ds))) = sid" using t by (simp add: dentry_def)
qed

lemma create_dsession_of:
  assumes ok: "ds_ok ds w ps" and new: "(sid, Some f) \<notin> set (keys_of dkey (dheap ds) ps)" and cs: "is_cstring f"
    and wr: "wr \<longrightarrow> file_kind (fsys w (canon w (joined (dspath ds) f))) = IW_False"
  obtains (fault) "create_dsession ds sid (dspath ds) f wr w = Inl Null_deref" "\<not> fault_free w"
  | (none) w' where "create_dsession ds sid (dspath ds) f wr w = Inr (None, ds, w')" "ds_step_of sid ds w ds w'"
  | (some) ds' w' where "create_dsession ds sid (dspath ds) f wr w = Inr (Some (dbrk ds), ds', w')"
      "ds_step_of sid ds w ds' w'" "ds_ok ds' w' (dbrk ds # ps)" "clid (the (dheap ds' (dbrk ds))) = sid"
proof -
  have un: "fstep None w w'" if "fstep (if wr then Some (canon w (joined (dspath ds) f)) else None) w w'" for w'
    using that wr fstep_unguarded [of "canon w (joined (dspath ds) f)" w w'] by (simp split: if_splits)
  from ok new cs show thesis
  proof (cases rule: create_dsession_cases [where wr = wr])
    case fault
    then show thesis using that by blast
  next
    case n: (none w')
    have "streams w' fp = streams w fp" if "(c, g, Some fp) \<in> set (dtab ds ps)" for c g fp
      using n(5) tab_ok_entry [OF ds_okD(3) [OF ok] that] by auto
    then have "ds_step_of sid ds w ds w'" using ds_step_ofI [OF ok n(2) un [OF n(3)]] by simp
    with n(1) none show thesis by blast
  next
    case s: (some ds' w')
    from create_dsession_step [OF ok s(2) un [OF s(3)] s(8) s(4,5)] some s(1,2) show thesis by blast
  qed
qed

lemma iwds_read_safe:
  assumes ok: "ds_ok ds w ps" and cs: "is_cstring (dfile req)"
  shows "(iwds_read ds req w = Inl Null_deref \<and> \<not> fault_free w) \<or>
    (\<exists>bs req' ds' w'. iwds_read ds req w = Inr (bs, req', ds', w') \<and> ds_step_of (dsid req) ds w ds' w' \<and>
       length bs \<le> dlen req)"
proof -
  note d = ds_okD [OF ok]
  let ?w0 = "w\<lparr>tick := Suc (tick w)\<rparr>" and ?S = "ds_step_of (dsid req)"
  obtain r where r: "is_dsfile (dspath ds) (dfile req) w = Inr (r, ?w0)"
    using is_dsfile_ok [OF d(5,6) cs] by blast
  have ok0: "ds_ok ds ?w0 ps" by (rule ds_ok_world [OF ok]) auto
  have s0: "?S ds w ds ?w0" by (rule ds_step_of_same_files [OF ok]) (simp_all add: same_files_def)
  show ?thesis
  proof (cases r)
    case IW_True
    from ok show ?thesis
    proof (cases rule: get_dsession_choice [where sid = "dsid req" and f = "dfile req"])
      case (old a)
      then show ?thesis
        using read_entry_safe [OF ok0 old(2,3), of req] r IW_True ds_step_of_trans [OF s0]
        by (fastforce simp: iwds_read_def)
    next
      case new
      have "False \<longrightarrow> file_kind (fsys ?w0 (canon ?w0 (joined (dspath ds) (dfile req)))) = IW_False" by simp
      from ok0 new(2) cs this show ?thesis
      proof (cases rule: create_dsession_of [where wr = False])
        case fault
        then show ?thesis using r IW_True new by (simp add: iwds_read_def)
      next
        case (none w')
        with ds_step_of_trans [OF s0] show ?thesis using r IW_True new by (simp add: iwds_read_def)
      next
        case (some ds' w')
        note s1 = ds_step_of_trans [OF s0 some(2)]
        obtain bs req' ds2 w2 where "read_entry ds' (dbrk ds) req w' = Inr (bs, req', ds2, w2)"
            "?S ds' w' ds2 w2" "length bs \<le> dlen req"
          using read_entry_safe [OF some(3) _ some(4), of req] by auto
        then show ?thesis
          using some r IW_True new ds_step_of_trans [OF s1] by (simp add: iwds_read_def)
      qed
    qed
  qed (use r s0 in \<open>auto simp: iwds_read_def\<close>)
qed


lemma write_entry_safe:
  assumes ok: "ds_ok ds w ps" and a: "a \<in> set ps" "clid (the (dheap ds a)) = sid"
    and len: "dlen req \<le> length (dbuf req)"
  shows "\<exists>n req' ds' w'. write_entry ds a req w = Inr (n, req', ds', w') \<and> ds_step_of sid ds w ds' w'"
proof (cases "dlen req = 0")
  case True
  with del_dsession_step [OF ok a] show ?thesis by (auto simp: write_entry_def)
next
  case False
  obtain n f fp where n: "dheap ds a = Some n" "ds_fp n = Some fp" "streams w fp \<noteq> None"
    using ds_ok_node [OF ok a(1)] by metis
  obtain k w1 where wr: "sys_fwrite w fp (take (dlen req) (dbuf req)) = Inr (k, w1)"
    using fwrite_defined [OF n(3)] by blast
  have s1: "ds_step_of sid ds w ds w1" and ok1: "ds_ok ds w1 ps"
    using ds_step_of_stream [OF ok a(1) n(1,2) fwrite_streams(1,2,3) [OF wr] fstep_fwrite [OF wr]] n(1) a(2) by auto
  obtain ds' w' where e: "del_dsession ds a w1 = Inr (IW_OK, ds', w')" "ds_step_of sid ds w1 ds' w'"
    using del_dsession_step [OF ok1 a] by blast
  with n wr s1 ds_step_of_trans [OF s1] len False show ?thesis by (auto simp: write_entry_def)
qed

lemma iwds_write_safe:
  assumes ok: "ds_ok ds w ps" and cs: "is_cstring (dfile req)" and len: "dlen req \<le> length (dbuf req)"
  shows "(iwds_write ds req w = Inl Null_deref \<and> \<not> fault_free w) \<or>
    (\<exists>n req' ds' w'. iwds_write ds req w = Inr (n, req', ds', w') \<and> ds_step_of (dsid req) ds w ds' w')"
proof -
  note d = ds_okD [OF ok]
  let ?w0 = "w\<lparr>tick := Suc (tick w)\<rparr>" and ?S = "ds_step_of (dsid req)"
  let ?q = "canon w (joined (dspath ds) (dfile req))"
  have ok0: "ds_ok ds ?w0 ps" by (rule ds_ok_world [OF ok]) auto
  have s0: "?S ds w ds ?w0" by (rule ds_step_of_same_files [OF ok]) (simp_all add: same_files_def)
  from ok show ?thesis
  proof (cases rule: get_dsession_choice [where sid = "dsid req" and f = "dfile req"])
    case (old a)
    then show ?thesis using write_entry_safe [OF ok old(2,3) len] by (simp add: iwds_write_def)
  next
    case new
    show ?thesis
    proof (cases "outcome w (tick w) = 0 \<and> file_kind (fsys w ?q) = IW_False")
      case False
      then have "is_dsfile (dspath ds) (dfile req) w = Inr (IW_True, ?w0) \<or>
          is_dsfile (dspath ds) (dfile req) w = Inr (IW_Err, ?w0)"
        using is_dsfile_ok [OF d(5,6) cs, of w]
        by (auto simp: file_kind_def split: option.splits fnode.splits)
      with new s0 show ?thesis by (auto simp: iwds_write_def)
    next
      case True
      then have r: "is_dsfile (dspath ds) (dfile req) w = Inr (IW_False, ?w0)"
        using is_dsfile_ok [OF d(5,6) cs, of w] by simp
      have "True \<longrightarrow> file_kind (fsys ?w0 (canon ?w0 (joined (dspath ds) (dfile req)))) = IW_False"
        using True by simp
      from ok0 new(2) cs this show ?thesis
      proof (cases rule: create_dsession_of [where wr = True])
        case fault
        then show ?thesis using r new by (simp add: iwds_write_def)
      next
        case (none w')
        with ds_step_of_trans [OF s0] show ?thesis using r new by (simp add: iwds_write_def)
      next
        case (some ds' w')
        note s1 = ds_step_of_trans [OF s0 some(2)]
        obtain n req' ds2 w2 where "write_entry ds' (dbrk ds) req w' = Inr (n, req', ds2, w2)"
            "?S ds' w' ds2 w2"
          using write_entry_safe [OF some(3) _ some(4) len] by auto
        then show ?thesis
          using some r new ds_step_of_trans [OF s1] by (simp add: iwds_write_def)
      qed
    qed
  qed
qed

lemma iwds_close_safe:
  assumes ok: "ds_ok ds w ps"
  shows "\<exists>r req' ds' w'. iwds_close ds req w = Inr (r, req', ds', w') \<and> ds_step_of (dsid req) ds w ds' w'"
  using ok
proof (cases rule: get_dsession_choice [where sid = "dsid req" and f = "dfile req"])
  case new
  have "ds_step_of (dsid req) ds w ds w" by (rule ds_step_of_same_files [OF ok]) simp_all
  with new show ?thesis by (auto simp: iwds_close_def)
next
  case (old a)
  with del_dsession_step [OF ok old(2,3)] show ?thesis by (auto simp: iwds_close_def)
qed

end
