(* ===== verification/Byte_Streams.thy ===== *)
theory Byte_Streams
  imports Iw_Prelude
begin

text \<open>
  The interface between the parts of the server that pass file contents on. A byte source
  gives, at each request for \<open>n\<close> bytes, the next \<open>n\<close> bytes of what it still holds; a byte sink
  appends. The data store implements both for an open file; the session buffer implements
  the source again, towards the network, with the bytes in the form of the transfer mode.
\<close>

section \<open>Sequences of requests\<close>

text \<open>\<open>read_blocks read n k s\<close>: the results of \<open>k\<close> requests for \<open>n\<close> bytes.\<close>

fun read_blocks :: "('s \<Rightarrow> nat \<Rightarrow> fault + bytes \<times> int \<times> 's) \<Rightarrow> nat \<Rightarrow> nat \<Rightarrow> 's \<Rightarrow>
    fault + bytes list \<times> 's" where
  "read_blocks read n 0 s = Inr ([], s)"
| "read_blocks read n (Suc k) s =
     ebind (read s n) (\<lambda>(bs, _, s).
     ebind (read_blocks read n k s) (\<lambda>(bss, s). Inr (bs # bss, s)))"

fun write_blocks :: "('s \<Rightarrow> bytes \<Rightarrow> fault + nat \<times> int \<times> 's) \<Rightarrow> bytes list \<Rightarrow> 's \<Rightarrow> fault + 's" where
  "write_blocks write [] s = Inr s"
| "write_blocks write (bs # bss) s =
     ebind (write s bs) (\<lambda>(_, _, s). write_blocks write bss s)"

text \<open>The blocks of \<open>n\<close> bytes of a byte string, the last one short or empty.\<close>

fun blocks_of :: "nat \<Rightarrow> nat \<Rightarrow> bytes \<Rightarrow> bytes list" where
  "blocks_of n 0 bs = []"
| "blocks_of n (Suc k) bs = take n bs # blocks_of n k (drop n bs)"

lemma length_blocks_of [simp]: "length (blocks_of n k bs) = k"
  by (induction k arbitrary: bs) auto

lemma concat_blocks_of: "concat (blocks_of n k bs) = take (k * n) bs"
proof (induction k arbitrary: bs)
  case (Suc k)
  have "take n bs @ take (k * n) (drop n bs) = take (n + k * n) bs"
    by (rule take_add [symmetric])
  with Suc show ?case by simp
qed simp

lemma nth_blocks_of: "i < k \<Longrightarrow> blocks_of n k bs ! i = take n (drop (i * n) bs)"
proof (induction k arbitrary: bs i)
  case (Suc k)
  then show ?case by (cases i) (simp_all add: add.commute)
qed simp

text \<open>With as many blocks as the transfer protocol sends, all are full but the last, which is
  short, and together they are the byte string.\<close>

lemma blocks_of_transfer:
  fixes bs :: bytes
  assumes "0 < n"
  defines k: "k \<equiv> length bs div n + 1"
  shows "concat (blocks_of n k bs) = bs"
    and "i < length bs div n \<Longrightarrow> length (blocks_of n k bs ! i) = n"
    and "length (last (blocks_of n k bs)) = length bs mod n"
proof -
  have "length bs < k * n" using assms by (simp add: k dividend_less_div_times)
  then show "concat (blocks_of n k bs) = bs" by (simp add: concat_blocks_of)
  show "length (blocks_of n k bs ! i) = n" if i: "i < length bs div n"
  proof -
    have "Suc i * n \<le> length bs div n * n" using i by (intro mult_le_mono1) simp
    also have "\<dots> \<le> length bs" by simp
    finally have "n \<le> length bs - i * n" by simp
    then show ?thesis using i nth_blocks_of [of i k n bs] by (simp add: k del: blocks_of.simps)
  qed
  have "blocks_of n k bs \<noteq> []" by (metis k add_is_0 length_0_conv length_blocks_of one_neq_zero)
  then have "last (blocks_of n k bs) = take n (drop (length bs div n * n) bs)"
    using nth_blocks_of [of "length bs div n" k n bs] by (simp add: last_conv_nth k del: blocks_of.simps)
  moreover have "length bs - length bs div n * n = length bs mod n"
    by (metis minus_div_mult_eq_mod)
  ultimately show "length (last (blocks_of n k bs)) = length bs mod n"
    using mod_less_divisor [OF assms(1), of "length bs"] by simp
qed

section \<open>Sources\<close>

locale byte_source =
  fixes rest :: "'s \<Rightarrow> bytes \<Rightarrow> bool"
    and read :: "'s \<Rightarrow> nat \<Rightarrow> fault + bytes \<times> int \<times> 's"
    and lo :: nat and hi :: nat
  assumes read_rest: "\<lbrakk>rest s r; lo \<le> n; n \<le> hi\<rbrakk> \<Longrightarrow>
    \<exists>s'. read s n = Inr (take n r, IW_OK, s') \<and> rest s' (drop n r)"
begin

lemma read_blocks_ok:
  assumes "rest s r" and "lo \<le> n" and "n \<le> hi"
  shows "\<exists>s'. read_blocks read n k s = Inr (blocks_of n k r, s') \<and> rest s' (drop (k * n) r)"
  using assms(1)
proof (induction k arbitrary: s r)
  case (Suc k)
  obtain s1 where s1: "read s n = Inr (take n r, IW_OK, s1)" "rest s1 (drop n r)"
    using read_rest [OF Suc.prems assms(2,3)] by blast
  with Suc.IH [OF s1(2)] show ?case by (auto simp: add.commute)
qed simp

text \<open>Reading until the short block delivers everything, in full blocks but the last.\<close>

lemma read_all:
  assumes "rest s r" and "lo \<le> n" and "n \<le> hi" and "0 < n"
  shows "\<exists>bss s'. read_blocks read n (length r div n + 1) s = Inr (bss, s') \<and> concat bss = r \<and>
    (\<forall>i < length r div n. length (bss ! i) = n) \<and> length (last bss) = length r mod n \<and> rest s' []"
proof -
  have "length r < (length r div n + 1) * n" using assms(4) by (simp add: dividend_less_div_times)
  with read_blocks_ok [OF assms(1-3), of "length r div n + 1"] blocks_of_transfer [OF assms(4), where bs = r]
  show ?thesis by auto
qed

end

section \<open>Sinks\<close>

locale byte_sink =
  fixes held :: "'s \<Rightarrow> bytes \<Rightarrow> bool"
    and put :: "'s \<Rightarrow> bytes \<Rightarrow> fault + nat \<times> int \<times> 's"
  assumes write_held: "\<lbrakk>held s c; bs \<noteq> []\<rbrakk> \<Longrightarrow>
    \<exists>s'. put s bs = Inr (length bs, IW_OK, s') \<and> held s' (c @ bs)"
begin

lemma write_blocks_ok:
  "\<lbrakk>held s c; [] \<notin> set bss\<rbrakk> \<Longrightarrow>
   \<exists>s'. write_blocks put bss s = Inr s' \<and> held s' (c @ concat bss)"
proof (induction bss arbitrary: s c)
  case (Cons bs bss)
  then obtain s1 where s1: "put s bs = Inr (length bs, IW_OK, s1)" "held s1 (c @ bs)"
    using write_held [of s c bs] by auto
  with Cons.IH [OF s1(2)] Cons.prems show ?case by auto
qed simp

end

end
