(* ===== verification/Datastore_Data.thy ===== *)
theory Datastore_Data
  imports Datastore Byte_Streams
begin

text \<open>
  What the operations of the data store mean for the bytes of a file, when no system call
  fails: \<open>iwds_read\<close> delivers the file piece by piece, \<open>iwds_write\<close> appends to a file it
  creates, \<open>iwds_close\<close> leaves the files alone. These are the laws of the locales
  \<open>byte_source\<close> and \<open>byte_sink\<close>, interpreted here for one client and one file.
\<close>

section \<open>Reading and writing without faults\<close>

fun tab_fp :: "(int \<times> string option \<times> nat option) list \<Rightarrow> int \<Rightarrow> string \<Rightarrow> nat option" where
  "tab_fp [] sid f = None"
| "tab_fp ((c, f', p) # es) sid f = (if c = sid \<and> f' = Some f then p else tab_fp es sid f)"

text \<open>The stream the table has open for a descriptor and a file name.\<close>

definition ds_stream :: "iwds \<Rightarrow> world \<Rightarrow> nat list \<Rightarrow> int \<Rightarrow> string \<Rightarrow> stream option" where
  "ds_stream ds w ps sid f = (case tab_fp (dtab ds ps) sid f of None \<Rightarrow> None | Some fp \<Rightarrow> streams w fp)"

lemma ds_stream_tick [simp]: "ds_stream ds (w\<lparr>tick := t\<rparr>) ps sid f = ds_stream ds w ps sid f"
  by (simp add: ds_stream_def split: option.splits)

lemma tab_fp_in:
  "\<lbrakk>distinct (map (\<lambda>(c, f, p). (c, f)) es); (sid, Some f, p) \<in> set es\<rbrakk> \<Longrightarrow> tab_fp es sid f = p"
  by (induction es sid f rule: tab_fp.induct) force+

lemma tab_fp_notin: "(sid, Some f) \<notin> set (map (\<lambda>(c, f, p). (c, f)) es) \<Longrightarrow> tab_fp es sid f = None"
  by (induction es sid f rule: tab_fp.induct) auto

text \<open>It is what \<open>get_dsession\<close> finds.\<close>

lemma ds_stream_entry:
  assumes ok: "ds_ok ds w ps"
  shows "ds_stream ds w ps sid f = entry_stream ds w sid f"
proof (cases "\<exists>fp. (sid, Some f, Some fp) \<in> set (dtab ds ps)")
  case True
  then obtain fp where fp: "(sid, Some f, Some fp) \<in> set (dtab ds ps)" by blast
  moreover have "distinct (map (\<lambda>(c, f, p). (c, f)) (dtab ds ps))" using ok by (simp add: ds_ok_def tab_ok_def)
  ultimately show ?thesis using entry_stream_in [OF ok fp] tab_fp_in by (simp add: ds_stream_def)
next
  case False
  then have "(sid, Some f) \<notin> set (map (\<lambda>(c, f, p). (c, f)) (dtab ds ps))"
    using ok unfolding ds_ok_def tab_ok_def by fastforce
  then show ?thesis using False entry_stream_notin [OF ok] tab_fp_notin by (simp add: ds_stream_def)
qed

lemma tab_fp_node:
  assumes "ds_ok ds w ps" and "a \<in> set ps" and "dheap ds a = Some n" and "dkey n = (sid, Some f)"
  shows "tab_fp (dtab ds ps) sid f = ds_fp n"
proof (rule tab_fp_in)
  show "distinct (map (\<lambda>(c, f, p). (c, f)) (dtab ds ps))"
    using ds_okD(4) [OF assms(1)] by (simp add: dkeys_dtab)
  show "(sid, Some f, ds_fp n) \<in> set (dtab ds ps)"
    using assms(2-4) by (force simp: dtab_def keys_of_def dentry_def dkey_def)
qed

text \<open>The search finds the entry of the open stream, or there is none.\<close>

lemma get_dsession_stream:
  assumes ok: "ds_ok ds w ps"
  shows "(get_dsession ds sid (Some f) = Inr None \<and> ds_stream ds w ps sid f = None \<and>
      (sid, Some f) \<notin> set (keys_of dkey (dheap ds) ps)) \<or>
    (\<exists>a n fp s. get_dsession ds sid (Some f) = Inr (Some a) \<and> a \<in> set ps \<and> dheap ds a = Some n \<and>
      ds_fp n = Some fp \<and> tab_fp (dtab ds ps) sid f = Some fp \<and> streams w fp = Some s \<and>
      ds_stream ds w ps sid f = Some s)"
proof -
  obtain r where r: "get_dsession ds sid (Some f) = Inr r"
    "case r of None \<Rightarrow> (sid, Some f) \<notin> set (keys_of dkey (dheap ds) ps)
     | Some a \<Rightarrow> a \<in> set ps \<and> dkey (the (dheap ds a)) = (sid, Some f)"
    using get_dsession_ok [OF ok, of sid f] by blast
  show ?thesis
  proof (cases r)
    case None
    with r show ?thesis
      by (simp add: ds_stream_def tab_fp_notin dkeys_dtab)
  next
    case (Some a)
    with r have a: "a \<in> set ps" "dkey (the (dheap ds a)) = (sid, Some f)" by auto
    obtain n g fp where n: "dheap ds a = Some n" "ds_fp n = Some fp" "streams w fp \<noteq> None"
      using ds_ok_node [OF ok a(1)] by metis
    have "tab_fp (dtab ds ps) sid f = Some fp"
      using tab_fp_node [OF ok a(1) n(1)] a(2) n by simp
    with Some r a n show ?thesis by (auto simp: ds_stream_def)
  qed
qed

definition rd_stream :: "string \<Rightarrow> nat \<Rightarrow> stream" where
  "rd_stream q pos = \<lparr>spath = q, swrite = False, spos = pos, serr = False\<rparr>"

definition wr_stream :: "string \<Rightarrow> nat \<Rightarrow> stream" where
  "wr_stream q pos = \<lparr>spath = q, swrite = True, spos = pos, serr = False\<rparr>"

text \<open>\<open>reading\<close>: the descriptor has read \<open>pos\<close> bytes of the file \<open>q\<close>, none if nothing is open yet.
  \<open>writing\<close>: the file holds exactly what the descriptor has written, and does not exist if
  nothing is open yet.\<close>

definition reading :: "iwds \<Rightarrow> world \<Rightarrow> nat list \<Rightarrow> int \<Rightarrow> string \<Rightarrow> nat \<Rightarrow> bool" where
  "reading ds w ps sid f pos \<longleftrightarrow> ds_ok ds w ps \<and>
     (ds_stream ds w ps sid f = None \<and> pos = 0 \<or>
      ds_stream ds w ps sid f = Some (rd_stream (canon w (joined (dspath ds) f)) pos))"

definition writing :: "iwds \<Rightarrow> world \<Rightarrow> nat list \<Rightarrow> int \<Rightarrow> string \<Rightarrow> bytes \<Rightarrow> bool" where
  "writing ds w ps sid f c \<longleftrightarrow> ds_ok ds w ps \<and>
     (ds_stream ds w ps sid f = None \<and> fsys w (canon w (joined (dspath ds) f)) = None \<and> c = [] \<or>
      ds_stream ds w ps sid f = Some (wr_stream (canon w (joined (dspath ds) f)) (length c)) \<and>
      fsys w (canon w (joined (dspath ds) f)) = Some (Regular c))"

lemma read_entry_ok:
  assumes ok: "ds_ok ds w ps" and a: "a \<in> set ps" and n: "dheap ds a = Some n" "ds_fp n = Some fp"
    and s: "streams w fp = Some (rd_stream q pos)" and c: "fsys w q = Some (Regular c)"
    and ff: "fault_free w" and fp: "tab_fp (dtab ds ps) sid f = Some fp"
  shows "\<exists>w'. read_entry ds a req w = Inr (take (dlen req) (drop pos c), req\<lparr>derr := IW_OK\<rparr>, ds, w') \<and>
    ds_ok ds w' ps \<and> ds_stream ds w' ps sid f = Some (rd_stream q (pos + length (take (dlen req) (drop pos c)))) \<and>
    fsys w' = fsys w \<and> fstep None w w'"
proof -
  let ?bs = "take (dlen req) (drop pos c)"
  let ?w' = "w\<lparr>tick := Suc (tick w), streams := (streams w)(fp \<mapsto> rd_stream q (pos + length ?bs))\<rparr>"
  have r: "sys_fread w fp (dlen req) = Inr (?bs, ?w')"
    using s c ff by (simp add: sys_fread_def fault_free_draw rd_stream_def)
  have "ds_ok ds ?w' ps"
    by (rule ds_ok_world [OF ok]) auto
  with r n fp fstep_fread [OF r] show ?thesis
    by (auto simp: read_entry_def sys_ferror_def rd_stream_def ds_stream_def)
qed

text \<open>\<open>iwds_read\<close> delivers the next bytes of the file, as many as asked for or left.\<close>

lemma iwds_read_first:
  assumes ff: "fault_free w" and ok: "ds_ok ds w ps" and cs: "is_cstring (dfile req)"
    and g: "get_dsession ds (dsid req) (Some (dfile req)) = Inr None"
      "(dsid req, Some (dfile req)) \<notin> set (keys_of dkey (dheap ds) ps)"
    and r: "is_dsfile (dspath ds) (dfile req) w = Inr (IW_True, w\<lparr>tick := Suc (tick w)\<rparr>)"
    and c: "fsys w (canon w (joined (dspath ds) (dfile req))) = Some (Regular c)"
  shows "\<exists>ds' w' ps'. iwds_read ds req w = Inr (take (dlen req) c, req\<lparr>derr := IW_OK\<rparr>, ds', w') \<and>
    reading ds' w' ps' (dsid req) (dfile req) (length (take (dlen req) c)) \<and> fsys w' = fsys w \<and> ds_step ds w ds' w'"
proof -
  let ?f = "dfile req" and ?sid = "dsid req" and ?q = "canon w (joined (dspath ds) (dfile req))"
  let ?w0 = "w\<lparr>tick := Suc (tick w)\<rparr>"
  have ok0: "ds_ok ds ?w0 ps" by (rule ds_ok_world [OF ok]) auto
  from ok0 g(2) cs show ?thesis
  proof (cases rule: create_dsession_cases [where wr = False])
    case (some ds' w')
    have w': "fault_free w'" "fsys w' = fsys w"
      using some(3,6) ff by (auto simp: fstep_def same_env_def fault_free_def)
    obtain n where n: "dheap ds' (dbrk ds) = Some n" "dentry n = (?sid, Some ?f, Some (nstreams w))"
      using some(2,4) dll_allocated [OF ds_okD(1) [OF some(2)], of "dbrk ds"] by auto
    have "streams w' (nstreams w) = Some (rd_stream ?q 0)"
      using some(5) by (simp add: new_stream_def rd_stream_def)
    with w' n obtain w2 where w2: "read_entry ds' (dbrk ds) req w' =
          Inr (take (dlen req) (drop 0 c), req\<lparr>derr := IW_OK\<rparr>, ds', w2)"
        "ds_ok ds' w2 (dbrk ds # ps)"
        "ds_stream ds' w2 (dbrk ds # ps) ?sid ?f = Some (rd_stream ?q (0 + length (take (dlen req) (drop 0 c))))"
        "fsys w2 = fsys w'" "fstep None w' w2"
      using read_entry_ok [OF some(2), of "dbrk ds" n "nstreams w" ?q 0 c ?sid ?f req] c some(4)
      by (auto simp: dentry_def)
    have f2: "fstep None w w2"
      using some(3) w2(5) by (auto intro: fstep_trans [OF fstep_tick] fstep_trans)
    then have "canon w2 = canon w" by (simp add: fstep_def same_env_def)
    then show ?thesis
      using w2 g r some f2 w'(2)
      by (auto simp: iwds_read_def reading_def ds_step_def intro!: exI [of _ "dbrk ds # ps"])
  qed (use ff c in auto)
qed

lemma iwds_read_next:
  assumes ff: "fault_free w" and ok: "ds_ok ds w ps"
    and g: "get_dsession ds (dsid req) (Some (dfile req)) = Inr (Some a)" "a \<in> set ps" "dheap ds a = Some n"
      "ds_fp n = Some fp" "tab_fp (dtab ds ps) (dsid req) (dfile req) = Some fp"
      "streams w fp = Some (rd_stream (canon w (joined (dspath ds) (dfile req))) pos)"
    and r: "is_dsfile (dspath ds) (dfile req) w = Inr (IW_True, w\<lparr>tick := Suc (tick w)\<rparr>)"
    and c: "fsys w (canon w (joined (dspath ds) (dfile req))) = Some (Regular c)"
  shows "\<exists>w'. iwds_read ds req w = Inr (take (dlen req) (drop pos c), req\<lparr>derr := IW_OK\<rparr>, ds, w') \<and>
    reading ds w' ps (dsid req) (dfile req) (pos + length (take (dlen req) (drop pos c))) \<and> fsys w' = fsys w \<and>
    ds_step ds w ds w'"
proof -
  let ?f = "dfile req" and ?sid = "dsid req" and ?q = "canon w (joined (dspath ds) (dfile req))"
  let ?w0 = "w\<lparr>tick := Suc (tick w)\<rparr>"
  have ok0: "ds_ok ds ?w0 ps" by (rule ds_ok_world [OF ok]) auto
  obtain w2 where w2: "read_entry ds a req ?w0 =
        Inr (take (dlen req) (drop pos c), req\<lparr>derr := IW_OK\<rparr>, ds, w2)"
      "ds_ok ds w2 ps" "ds_stream ds w2 ps ?sid ?f = Some (rd_stream ?q (pos + length (take (dlen req) (drop pos c))))"
      "fsys w2 = fsys ?w0" "fstep None ?w0 w2"
    using read_entry_ok [OF ok0 g(2,3,4), of ?q pos c ?sid ?f req] g c ff by auto
  have f2: "fstep None w w2" using w2(5) fstep_trans [OF fstep_tick] by blast
  then have "canon w2 = canon w" by (simp add: fstep_def same_env_def)
  with f2 show ?thesis
    using w2 g r by (auto simp: iwds_read_def reading_def ds_step_def)
qed

lemma iwds_read_data:
  assumes ff: "fault_free w" and rd: "reading ds w ps (dsid req) (dfile req) pos"
    and cs: "is_cstring (dfile req)"
    and c: "fsys w (canon w (joined (dspath ds) (dfile req))) = Some (Regular c)"
  shows "\<exists>ds' w' ps'. iwds_read ds req w = Inr (take (dlen req) (drop pos c), req\<lparr>derr := IW_OK\<rparr>, ds', w') \<and>
    reading ds' w' ps' (dsid req) (dfile req) (pos + length (take (dlen req) (drop pos c))) \<and>
    fsys w' = fsys w \<and> ds_step ds w ds' w'"
proof -
  have ok: "ds_ok ds w ps" using rd by (simp add: reading_def)
  have r: "is_dsfile (dspath ds) (dfile req) w = Inr (IW_True, w\<lparr>tick := Suc (tick w)\<rparr>)"
    using is_dsfile_ok [OF ds_okD(5,6) [OF ok] cs, of w] ff c by (simp add: fault_free_def file_kind_def)
  from get_dsession_stream [OF ok, of "dsid req" "dfile req"] show ?thesis
  proof (elim disjE exE conjE)
    assume g: "get_dsession ds (dsid req) (Some (dfile req)) = Inr None" "ds_stream ds w ps (dsid req) (dfile req) = None"
      "(dsid req, Some (dfile req)) \<notin> set (keys_of dkey (dheap ds) ps)"
    then have "pos = 0" using rd by (auto simp: reading_def)
    with iwds_read_first [OF ff ok cs g(1,3) r c] show ?thesis by simp
  next
    fix a n fp s
    assume g: "get_dsession ds (dsid req) (Some (dfile req)) = Inr (Some a)" "a \<in> set ps" "dheap ds a = Some n"
      "ds_fp n = Some fp" "tab_fp (dtab ds ps) (dsid req) (dfile req) = Some fp" "streams w fp = Some s"
      "ds_stream ds w ps (dsid req) (dfile req) = Some s"
    then have s: "s = rd_stream (canon w (joined (dspath ds) (dfile req))) pos" using rd by (auto simp: reading_def)
    from iwds_read_next [OF ff ok g(1-5) g(6) [unfolded s] r c] show ?thesis by blast
  qed
qed

lemma write_entry_ok:
  assumes ok: "ds_ok ds w ps" and a: "a \<in> set ps" and n: "dheap ds a = Some n" "ds_fp n = Some fp"
    and s: "streams w fp = Some (wr_stream q (length c))" and c: "fsys w q = Some (Regular c)"
    and ff: "fault_free w" and fp: "tab_fp (dtab ds ps) sid f = Some fp"
    and len: "0 < dlen req" "dlen req \<le> length (dbuf req)"
  shows "\<exists>w'. write_entry ds a req w = Inr (dlen req, req\<lparr>derr := IW_OK\<rparr>, ds, w') \<and>
    ds_ok ds w' ps \<and> ds_stream ds w' ps sid f = Some (wr_stream q (length (c @ take (dlen req) (dbuf req)))) \<and>
    fsys w' = (fsys w)(q \<mapsto> Regular (c @ take (dlen req) (dbuf req))) \<and> fstep None w w'"
proof -
  let ?out = "take (dlen req) (dbuf req)"
  let ?w' = "w\<lparr>tick := Suc (tick w), fsys := (fsys w)(q \<mapsto> Regular (c @ ?out)),
      streams := (streams w)(fp \<mapsto> wr_stream q (length c + length ?out))\<rparr>"
  have r: "sys_fwrite w fp ?out = Inr (length ?out, ?w')"
    using s c ff len by (simp add: sys_fwrite_def fault_free_draw wr_stream_def)
  have "ds_ok ds ?w' ps"
    by (rule ds_ok_world [OF ok]) auto
  with r n fp fstep_fwrite [OF r] len show ?thesis
    by (auto simp: write_entry_def ds_stream_def)
qed

text \<open>\<open>iwds_write\<close> appends to the file, which it creates at the first write.\<close>

lemma iwds_write_new:
  assumes ff: "fault_free w" and ok: "ds_ok ds w ps" and cs: "is_cstring f"
    and g: "(sid, Some f) \<notin> set (keys_of dkey (dheap ds) ps)"
    and no: "fsys w (canon w (joined (dspath ds) f)) = None"
  shows "\<exists>ds' w' n. create_dsession ds sid (dspath ds) f True w = Inr (Some (dbrk ds), ds', w') \<and>
    ds_ok ds' w' (dbrk ds # ps) \<and> dheap ds' (dbrk ds) = Some n \<and> ds_fp n = Some (nstreams w) \<and>
    tab_fp (dtab ds' (dbrk ds # ps)) sid f = Some (nstreams w) \<and> dspath ds' = dspath ds \<and>
    streams w' (nstreams w) = Some (wr_stream (canon w (joined (dspath ds) f)) 0) \<and> fault_free w' \<and>
    fsys w' = (fsys w)(canon w (joined (dspath ds) f) \<mapsto> Regular []) \<and>
    fstep (Some (canon w (joined (dspath ds) f))) w w'"
  using ok g cs
proof (cases rule: create_dsession_cases [where wr = True])
  case (some ds' w')
  obtain n where n: "dheap ds' (dbrk ds) = Some n"
    using dll_allocated [OF ds_okD(1) [OF some(2)], of "dbrk ds"] by auto
  then have e: "dentry n = (sid, Some f, Some (nstreams w))"
    using some(4) by auto
  have st: "streams w' (nstreams w) = Some (wr_stream (canon w (joined (dspath ds) f)) 0)"
    using some(5) by (simp add: new_stream_def wr_stream_def)
  have "fsys w' = (fsys w)(canon w (joined (dspath ds) f) \<mapsto> Regular [])"
    using some(6) no by simp
  moreover have "fault_free w'"
    using some(3) ff by (auto simp: fstep_def intro: same_env_fault_free)
  moreover have "tab_fp (dtab ds' (dbrk ds # ps)) sid f = Some (nstreams w)"
    using n e by simp
  ultimately show ?thesis
    using some n e st by (simp add: dentry_def)
qed (use ff no in auto)

lemma iwds_write_first:
  assumes ff: "fault_free w" and ok: "ds_ok ds w ps" and cs: "is_cstring (dfile req)"
    and len: "0 < dlen req" "dlen req \<le> length (dbuf req)"
    and g: "get_dsession ds (dsid req) (Some (dfile req)) = Inr None"
      "(dsid req, Some (dfile req)) \<notin> set (keys_of dkey (dheap ds) ps)"
    and no: "fsys w (canon w (joined (dspath ds) (dfile req))) = None"
  shows "\<exists>ds' w' ps'. iwds_write ds req w = Inr (dlen req, req\<lparr>derr := IW_OK\<rparr>, ds', w') \<and>
    writing ds' w' ps' (dsid req) (dfile req) (take (dlen req) (dbuf req)) \<and>
    fsys w' = (fsys w)(canon w (joined (dspath ds) (dfile req)) \<mapsto> Regular (take (dlen req) (dbuf req))) \<and>
    ds_step ds w ds' w'"
proof -
  let ?f = "dfile req" and ?sid = "dsid req" and ?q = "canon w (joined (dspath ds) (dfile req))"
  let ?w0 = "w\<lparr>tick := Suc (tick w)\<rparr>" and ?out = "take (dlen req) (dbuf req)"
  have ok0: "ds_ok ds ?w0 ps" by (rule ds_ok_world [OF ok]) auto
  have q: "canon ?w0 (joined (dspath ds) ?f) = ?q" by simp
  have r: "is_dsfile (dspath ds) ?f w = Inr (IW_False, ?w0)"
    using is_dsfile_ok [OF ds_okD(5,6) [OF ok] cs, of w] ff no by (simp add: fault_free_def file_kind_def)
  have ff0: "fault_free ?w0" and no0: "fsys ?w0 (canon ?w0 (joined (dspath ds) ?f)) = None"
    using ff no by simp_all
  obtain ds' w' n where w': "create_dsession ds ?sid (dspath ds) ?f True ?w0 = Inr (Some (dbrk ds), ds', w')"
      "ds_ok ds' w' (dbrk ds # ps)" "dheap ds' (dbrk ds) = Some n" "ds_fp n = Some (nstreams ?w0)"
      "tab_fp (dtab ds' (dbrk ds # ps)) ?sid ?f = Some (nstreams ?w0)" "dspath ds' = dspath ds"
      "streams w' (nstreams ?w0) = Some (wr_stream ?q (length ([] :: bytes)))" "fault_free w'"
      "fsys w' = (fsys w)(?q \<mapsto> Regular [])" "fstep (Some ?q) ?w0 w'"
    using iwds_write_new [OF ff0 ok0 cs g(2) no0] unfolding q by auto
  have fq: "fsys w' ?q = Some (Regular [])" and a: "dbrk ds \<in> set (dbrk ds # ps)" using w'(9) by simp_all
  obtain w2 where w2: "write_entry ds' (dbrk ds) req w' = Inr (dlen req, req\<lparr>derr := IW_OK\<rparr>, ds', w2)"
      "ds_ok ds' w2 (dbrk ds # ps)"
      "ds_stream ds' w2 (dbrk ds # ps) ?sid ?f = Some (wr_stream ?q (length ([] @ ?out)))"
      "fsys w2 = (fsys w')(?q \<mapsto> Regular ([] @ ?out))" "fstep None w' w2"
    using write_entry_ok [OF w'(2) a w'(3,4,7) fq w'(8,5) len] by blast
  have "fstep (Some ?q) w w2"
    using fstep_trans [OF fstep_tick [of _ w] fstep_trans [OF w'(10) fstep_None [OF w2(5)]]] .
  then have f2: "fstep None w w2"
    using fstep_unguarded [of ?q w w2] no by (simp add: file_kind_def)
  then have cn: "canon w2 = canon w" by (simp add: fstep_def same_env_def)
  have "iwds_write ds req w = Inr (dlen req, req\<lparr>derr := IW_OK\<rparr>, ds', w2)"
    using w2(1) w'(1) g(1) r by (simp add: iwds_write_def)
  moreover have "writing ds' w2 (dbrk ds # ps) ?sid ?f ?out"
    using w2(2,3,4) cn w'(6) by (simp add: writing_def)
  moreover have "fsys w2 = (fsys w)(?q \<mapsto> Regular ?out)" using w2(4) w'(9) by simp
  moreover have "ds_step ds w ds' w2" using f2 w'(6) w2(2) by (auto simp: ds_step_def)
  ultimately show ?thesis by blast
qed

lemma iwds_write_data:
  assumes ff: "fault_free w" and wr: "writing ds w ps (dsid req) (dfile req) c"
    and cs: "is_cstring (dfile req)" and len: "0 < dlen req" "dlen req \<le> length (dbuf req)"
  shows "\<exists>ds' w' ps'. iwds_write ds req w = Inr (dlen req, req\<lparr>derr := IW_OK\<rparr>, ds', w') \<and>
    writing ds' w' ps' (dsid req) (dfile req) (c @ take (dlen req) (dbuf req)) \<and>
    fsys w' = (fsys w)(canon w (joined (dspath ds) (dfile req)) \<mapsto> Regular (c @ take (dlen req) (dbuf req))) \<and>
    ds_step ds w ds' w'"
proof -
  have ok: "ds_ok ds w ps" using wr by (simp add: writing_def)
  let ?f = "dfile req" and ?sid = "dsid req" and ?q = "canon w (joined (dspath ds) (dfile req))"
  let ?out = "take (dlen req) (dbuf req)"
  from get_dsession_stream [OF ok, of ?sid ?f] show ?thesis
  proof (elim disjE exE conjE)
    assume g: "get_dsession ds ?sid (Some ?f) = Inr None" "ds_stream ds w ps ?sid ?f = None"
      "(?sid, Some ?f) \<notin> set (keys_of dkey (dheap ds) ps)"
    then have "c = []" and no: "fsys w ?q = None" using wr by (auto simp: writing_def)
    with iwds_write_first [OF ff ok cs len g(1,3) no] show ?thesis by simp
  next
    fix a n fp s
    assume g: "get_dsession ds ?sid (Some ?f) = Inr (Some a)" "a \<in> set ps" "dheap ds a = Some n"
      "ds_fp n = Some fp" "tab_fp (dtab ds ps) ?sid ?f = Some fp" "streams w fp = Some s"
      "ds_stream ds w ps ?sid ?f = Some s"
    then have s: "s = wr_stream ?q (length c)" and c: "fsys w ?q = Some (Regular c)"
      using wr by (auto simp: writing_def)
    obtain w2 where w2: "write_entry ds a req w = Inr (dlen req, req\<lparr>derr := IW_OK\<rparr>, ds, w2)"
        "ds_ok ds w2 ps" "ds_stream ds w2 ps ?sid ?f = Some (wr_stream ?q (length (c @ ?out)))"
        "fsys w2 = (fsys w)(?q \<mapsto> Regular (c @ ?out))" "fstep None w w2"
      using write_entry_ok [OF ok g(2,3,4) g(6) [unfolded s] c ff g(5) len] by blast
    have "canon w2 = canon w" using w2(5) by (simp add: fstep_def same_env_def)
    then have "writing ds w2 ps ?sid ?f (c @ ?out)"
      using w2(2,3,4) by (simp add: writing_def)
    with w2 g(1) show ?thesis
      by (auto simp: iwds_write_def ds_step_def)
  qed
qed

text \<open>Closing leaves the files as they are and forgets the stream.\<close>

lemma iwds_close_data:
  assumes ok: "ds_ok ds w ps" and len: "dlen req = 0"
  shows "\<exists>req' ds' w' ps'. iwds_close ds req w = Inr (IW_OK, req', ds', w') \<and> ds_ok ds' w' ps' \<and>
    ds_stream ds' w' ps' (dsid req) (dfile req) = None \<and> fsys w' = fsys w \<and> ds_step ds w ds' w'"
proof -
  let ?f = "dfile req" and ?sid = "dsid req"
  from get_dsession_stream [OF ok, of ?sid ?f] show ?thesis
  proof (elim disjE exE conjE)
    assume "get_dsession ds ?sid (Some ?f) = Inr None" "ds_stream ds w ps ?sid ?f = None"
    with len ok show ?thesis by (auto simp: iwds_close_def ds_step_def)
  next
    fix a n fp s
    assume g: "get_dsession ds ?sid (Some ?f) = Inr (Some a)" "a \<in> set ps" "dheap ds a = Some n"
      "ds_fp n = Some fp" "tab_fp (dtab ds ps) ?sid ?f = Some fp" "streams w fp = Some s"
    obtain xs ys where ps: "ps = xs @ a # ys" using g(2) by (meson split_list)
    obtain ds' w' where del: "del_dsession ds a w = Inr (IW_OK, ds', w')" "ds_ok ds' w' (xs @ ys)"
        "dtab ds' (xs @ ys) = dtab ds (xs @ ys)" "dspath ds' = dspath ds" "fsys w' = fsys w" "fstep None w w'"
      using del_dsession_ok [OF ok [unfolded ps] g(3,4)] by blast
    have "dkey n = (?sid, Some ?f)"
      using get_dsession_ok [OF ok, of ?sid ?f] g(1,3) by auto
    then have "(?sid, Some ?f) \<notin> set (map (\<lambda>(c, f, p). (c, f)) (dtab ds (xs @ ys)))"
      using ds_okD(4) [OF ok] ps g(3) by (auto simp: dkeys_dtab [symmetric] keys_of_def)
    then have tn: "tab_fp (dtab ds (xs @ ys)) ?sid ?f = None" by (rule tab_fp_notin)
    have "ds_stream ds' w' (xs @ ys) ?sid ?f = None"
      unfolding ds_stream_def del(3) tn by simp
    with del g(1) show ?thesis by (auto simp: iwds_close_def ds_step_def)
  qed
qed

section \<open>The data store as a source and as a sink\<close>

text \<open>From the world \<open>w0\<close> on the file \<open>f\<close> of the client \<open>sid\<close> has been read up to the rest \<open>r\<close>.\<close>

definition ds_reads :: "world \<Rightarrow> string \<Rightarrow> int \<Rightarrow> string \<Rightarrow> iwds \<times> world \<Rightarrow> bytes \<Rightarrow> bool" where
  "ds_reads w0 dir sid f s r \<longleftrightarrow>
     (case s of (ds, w) \<Rightarrow> fault_free w0 \<and> fstep None w0 w \<and> fsys w = fsys w0 \<and> dspath ds = dir \<and>
       is_cstring f \<and>
       (\<exists>ps pos c. reading ds w ps sid f pos \<and> fsys w0 (canon w0 (joined dir f)) = Some (Regular c) \<and>
          r = drop pos c))"

definition ds_read :: "int \<Rightarrow> string \<Rightarrow> bytes \<Rightarrow> iwds \<times> world \<Rightarrow> nat \<Rightarrow> fault + bytes \<times> int \<times> iwds \<times> world" where
  "ds_read sid f buf s n = (case s of (ds, w) \<Rightarrow>
     ebind (iwds_read ds \<lparr>dsid = sid, dfile = f, dbuf = buf, dlen = n, derr = 0\<rparr> w)
       (\<lambda>(bs, req, ds, w). Inr (bs, derr req, ds, w)))"

text \<open>From \<open>w0\<close> on the client \<open>sid\<close> has written \<open>c\<close> to the file \<open>f\<close>; the bytes \<open>slack\<close> follow the
  written ones in the client's buffer.\<close>

definition ds_writes :: "world \<Rightarrow> string \<Rightarrow> int \<Rightarrow> string \<Rightarrow> iwds \<times> world \<Rightarrow> bytes \<Rightarrow> bool" where
  "ds_writes w0 dir sid f s c \<longleftrightarrow>
     (case s of (ds, w) \<Rightarrow> fault_free w0 \<and> fstep None w0 w \<and> dspath ds = dir \<and> is_cstring f \<and>
       fsys w = (if c = [] then fsys w0 else (fsys w0)(canon w0 (joined dir f) \<mapsto> Regular c)) \<and>
       (\<exists>ps. writing ds w ps sid f c))"

definition ds_write ::
    "int \<Rightarrow> string \<Rightarrow> bytes \<Rightarrow> iwds \<times> world \<Rightarrow> bytes \<Rightarrow> fault + nat \<times> int \<times> iwds \<times> world" where
  "ds_write sid f slack s bs = (case s of (ds, w) \<Rightarrow>
     ebind (iwds_write ds \<lparr>dsid = sid, dfile = f, dbuf = bs @ slack, dlen = length bs, derr = 0\<rparr> w)
       (\<lambda>(n, req, ds, w). Inr (n, derr req, ds, w)))"

interpretation ds_src: byte_source "ds_reads w0 dir sid f" "ds_read sid f buf" 1 hi
  for w0 dir sid f buf hi
proof unfold_locales
  fix s r n
  assume r: "ds_reads w0 dir sid f s r"
  obtain ds w where s: "s = (ds, w)" by (cases s)
  let ?req = "\<lparr>dsid = sid, dfile = f, dbuf = buf, dlen = n, derr = 0\<rparr>"
  from r s obtain ps pos c where a: "fault_free w0" "fstep None w0 w" "fsys w = fsys w0" "dspath ds = dir"
      "is_cstring f" "reading ds w ps sid f pos" "fsys w0 (canon w0 (joined dir f)) = Some (Regular c)"
      "r = drop pos c" by (auto simp: ds_reads_def)
  have e: "canon w = canon w0" "fault_free w"
    using a(1,2) by (auto simp: fstep_def same_env_def fault_free_def)
  obtain ds' w' ps' where x: "iwds_read ds ?req w = Inr (take n (drop pos c), ?req\<lparr>derr := IW_OK\<rparr>, ds', w')"
      "reading ds' w' ps' sid f (pos + length (take n (drop pos c)))" "fsys w' = fsys w" "ds_step ds w ds' w'"
    using iwds_read_data [of w ds ps ?req pos c] a e by auto
  have "drop (pos + length (take n (drop pos c))) c = drop n r"
    using a(8) by (simp add: min_def add.commute)
  moreover have "fstep None w0 w'" "dspath ds' = dir"
    using x(4) a(2,4) by (auto simp: ds_step_def intro: fstep_trans)
  ultimately have "ds_reads w0 dir sid f (ds', w') (drop n r)"
    unfolding ds_reads_def using x a by auto metis
  with x(1) s a(8) show "\<exists>s'. ds_read sid f buf s n = Inr (take n r, 0, s') \<and>
      ds_reads w0 dir sid f s' (drop n r)"
    by (simp add: ds_read_def)
qed

interpretation ds_snk: byte_sink "ds_writes w0 dir sid f" "ds_write sid f slack"
  for w0 dir sid f slack
proof unfold_locales
  fix s c bs
  assume r: "ds_writes w0 dir sid f s c" and bs: "bs \<noteq> ([] :: bytes)"
  obtain ds w where s: "s = (ds, w)" by (cases s)
  let ?req = "\<lparr>dsid = sid, dfile = f, dbuf = bs @ slack, dlen = length bs, derr = 0\<rparr>"
  from r s obtain ps where a: "fault_free w0" "fstep None w0 w" "dspath ds = dir" "is_cstring f"
      "fsys w = (if c = [] then fsys w0 else (fsys w0)(canon w0 (joined dir f) \<mapsto> Regular c))"
      "writing ds w ps sid f c" by (auto simp: ds_writes_def)
  have e: "canon w = canon w0" "fault_free w"
    using a(1,2) by (auto simp: fstep_def same_env_def fault_free_def)
  obtain ds' w' ps' where x: "iwds_write ds ?req w = Inr (length bs, ?req\<lparr>derr := IW_OK\<rparr>, ds', w')"
      "writing ds' w' ps' sid f (c @ bs)"
      "fsys w' = (fsys w)(canon w (joined (dspath ds) f) \<mapsto> Regular (c @ bs))" "ds_step ds w ds' w'"
    using iwds_write_data [of w ds ps ?req c] a e bs by auto
  have "fstep None w0 w'" "dspath ds' = dir"
    using x(4) a(2,3) by (auto simp: ds_step_def intro: fstep_trans)
  moreover have "fsys w' = (fsys w0)(canon w0 (joined dir f) \<mapsto> Regular (c @ bs))"
    using x(3) a(3,5) e(1) by auto
  ultimately have "ds_writes w0 dir sid f (ds', w') (c @ bs)"
    unfolding ds_writes_def using x(2) a(1,4) bs by auto
  with x(1) s show "\<exists>s'. ds_write sid f slack s bs = Inr (length bs, 0, s') \<and>
      ds_writes w0 dir sid f s' (c @ bs)"
    by (simp add: ds_write_def)
qed

end
