(* ===== verification/Datastore_Props.thy ===== *)
theory Datastore_Props
  imports Datastore_Data
begin

text \<open>
  The properties of the data store, stated for its interface. The fixed world and store at
  the start serve the witnesses.
\<close>

section \<open>A world for examples\<close>

definition demo_world :: "(string \<times> bytes) list \<Rightarrow> world" where
  "demo_world fs = \<lparr>outcome = (\<lambda>_. 0), tick = 0, clock = 100, canon = id,
     fsys = (\<lambda>p. map_option Regular (map_of fs p)), streams = (\<lambda>_. None), nstreams = 0,
     socks = [(3, (''10.0.0.1'', 69))], epoll = [3], sent = []\<rparr>"

definition demo_ds :: iwds where
  "demo_ds = \<lparr>dhead = None, dheap = (\<lambda>_. None), dbrk = 0, dspath = ''/d'', fchroot = False\<rparr>"

lemma demo_world_simps [simp]:
  "fault_free (demo_world fs)" "clock (demo_world fs) = 100" "canon (demo_world fs) = id"
  "fsys (demo_world fs) p = map_option Regular (map_of fs p)" "streams (demo_world fs) = (\<lambda>_. None)"
  "nstreams (demo_world fs) = 0" "socks (demo_world fs) = [(3, (''10.0.0.1'', 69))]"
  "epoll (demo_world fs) = [3]" "sent (demo_world fs) = []" "tick (demo_world fs) = 0"
  "outcome (demo_world fs) n = 0"
  by (simp_all add: demo_world_def fault_free_def)

lemma demo_ds_simps [simp]: "dspath demo_ds = ''/d''" "dhead demo_ds = None" "dbrk demo_ds = 0"
  "dheap demo_ds = (\<lambda>_. None)"
  by (simp_all add: demo_ds_def)

lemma demo_ds_ok [simp]: "ds_ok demo_ds w []"
  by (simp add: ds_ok_def demo_ds_def is_cstring_def tab_ok_def)

lemma joined_demo [simp]: "joined ''/d'' ''f'' = ''/d/f''"
  by (simp add: joined_def)

lemma ds_reads_start:
  assumes "fault_free w" and "ds_ok ds w ps" and "ds_stream ds w ps sid f = None" and "is_cstring f"
    and "fsys w (canon w (joined (dspath ds) f)) = Some (Regular c)"
  shows "ds_reads w (dspath ds) sid f (ds, w) c"
proof -
  have "reading ds w ps sid f 0" using assms(2,3) by (simp add: reading_def)
  with assms show ?thesis unfolding ds_reads_def by (auto intro!: exI [of _ ps] exI [of _ 0])
qed

lemma ds_writes_start:
  assumes "fault_free w" and "ds_ok ds w ps" and "ds_stream ds w ps sid f = None" and "is_cstring f"
    and "fsys w (canon w (joined (dspath ds) f)) = None"
  shows "ds_writes w (dspath ds) sid f (ds, w) []"
proof -
  have "writing ds w ps sid f []" using assms(2,3,5) by (simp add: writing_def)
  with assms show ?thesis by (auto simp: ds_writes_def)
qed

section \<open>Any sequence of requests\<close>

datatype ds_op = Op_read dsreq | Op_write dsreq | Op_close dsreq | Op_isfile string

fun ds_exec :: "ds_op \<Rightarrow> iwds \<times> world \<Rightarrow> fault + iwds \<times> world" where
  "ds_exec (Op_read req) (ds, w) = ebind (iwds_read ds req w) (\<lambda>(_, _, ds, w). Inr (ds, w))"
| "ds_exec (Op_write req) (ds, w) = ebind (iwds_write ds req w) (\<lambda>(_, _, ds, w). Inr (ds, w))"
| "ds_exec (Op_close req) (ds, w) = ebind (iwds_close ds req w) (\<lambda>(_, _, ds, w). Inr (ds, w))"
| "ds_exec (Op_isfile f) (ds, w) = ebind (iwds_isfile ds f w) (\<lambda>(_, w). Inr (ds, w))"

fun ds_run :: "ds_op list \<Rightarrow> iwds \<times> world \<Rightarrow> fault + iwds \<times> world" where
  "ds_run [] s = Inr s"
| "ds_run (op # ops) s = ebind (ds_exec op s) (ds_run ops)"

fun op_valid :: "ds_op \<Rightarrow> bool" where
  "op_valid (Op_read req) = is_cstring (dfile req)"
| "op_valid (Op_write req) = (is_cstring (dfile req) \<and> dlen req \<le> length (dbuf req))"
| "op_valid (Op_close req) = True"
| "op_valid (Op_isfile f) = is_cstring f"

lemma ds_exec_step:
  assumes "ds_ok ds w ps" and "op_valid opn"
  shows "(ds_exec opn (ds, w) = Inl Null_deref \<and> \<not> fault_free w) \<or>
    (\<exists>ds' w'. ds_exec opn (ds, w) = Inr (ds', w') \<and> ds_step ds w ds' w')"
proof (cases opn)
  case (Op_read req)
  with iwds_read_safe [OF assms(1), of req] assms(2) show ?thesis by auto
next
  case (Op_write req)
  with iwds_write_safe [OF assms(1), of req] assms(2) show ?thesis by auto
next
  case (Op_close req)
  with iwds_close_safe [OF assms(1), of req] show ?thesis by auto
next
  case (Op_isfile f)
  have "ds_ok ds (w\<lparr>tick := Suc (tick w)\<rparr>) ps" by (rule ds_ok_world [OF assms(1)]) auto
  with Op_isfile is_dsfile_ok [OF ds_okD(5,6) [OF assms(1)], of f w] assms(2) show ?thesis
    by (auto simp: iwds_isfile_def ds_step_def)
qed

lemma ds_step_okE: "ds_step ds w ds' w' \<Longrightarrow> \<exists>ps. ds_ok ds' w' ps"
  by (auto simp: ds_step_def)

lemma ds_run_step:
  assumes "ds_ok ds w ps" and "\<forall>opn \<in> set ops. op_valid opn"
  shows "(ds_run ops (ds, w) = Inl Null_deref \<and> \<not> fault_free w) \<or>
    (\<exists>ds' w'. ds_run ops (ds, w) = Inr (ds', w') \<and> ds_step ds w ds' w')"
  using assms
proof (induction ops arbitrary: ds w ps)
  case Nil
  then show ?case by (auto simp: ds_step_def)
next
  case (Cons opn ops)
  have v: "op_valid opn" "\<forall>opn \<in> set ops. op_valid opn" using Cons.prems(2) by auto
  from ds_exec_step [OF Cons.prems(1) v(1)] show ?case
  proof (elim disjE exE conjE)
    fix ds1 w1
    assume 1: "ds_exec opn (ds, w) = Inr (ds1, w1)" and s: "ds_step ds w ds1 w1"
    obtain ps1 where "ds_ok ds1 w1 ps1" using ds_step_okE [OF s] by blast
    from Cons.IH [OF this v(2)] show ?thesis
    proof (elim disjE exE conjE)
      assume "ds_run ops (ds1, w1) = Inl Null_deref" "\<not> fault_free w1"
      moreover have "fault_free w \<Longrightarrow> fault_free w1"
        using s by (auto simp: ds_step_def intro: same_env_fault_free fstep_env)
      ultimately show ?thesis using 1 by auto
    next
      fix ds2 w2
      assume "ds_run ops (ds1, w1) = Inr (ds2, w2)" "ds_step ds1 w1 ds2 w2"
      then show ?thesis using 1 ds_step_trans [OF s] by auto
    qed
  qed auto
qed



text \<open>C15: with no failing call, a client that has no open stream reads a regular file by
  requests for \<open>n\<close> bytes: \<open>length c div n\<close> full blocks, then one short or empty block, in
  order and together the contents of the file, which stays as it is.\<close>

theorem iwds_read_delivers_file:
  assumes "fault_free w" and "ds_ok ds w ps" and "ds_stream ds w ps sid f = None" and "is_cstring f"
    and "fsys w (canon w (joined (dspath ds) f)) = Some (Regular c)" and "0 < n"
  shows "\<exists>bss ds' w'. read_blocks (ds_read sid f buf) n (length c div n + 1) (ds, w) = Inr (bss, ds', w') \<and>
    concat bss = c \<and> (\<forall>i < length c div n. length (bss ! i) = n) \<and> length (last bss) = length c mod n \<and>
    fsys w' = fsys w"
proof -
  have n: "1 \<le> n" using assms(6) by simp
  obtain bss s where "read_blocks (ds_read sid f buf) n (length c div n + 1) (ds, w) = Inr (bss, s)"
      "concat bss = c" "\<forall>i < length c div n. length (bss ! i) = n" "length (last bss) = length c mod n"
      "ds_reads w (dspath ds) sid f s []"
    using ds_src.read_all [OF ds_reads_start [OF assms(1-5)] n order_refl assms(6)] by blast
  then show ?thesis by (cases s) (auto simp: ds_reads_def simp del: read_blocks.simps)
qed

theorem iwds_read_delivers_file_witness:
  "\<exists>bss ds' w'. read_blocks (ds_read 1 ''f'' []) 2 (length ''abc'' div 2 + 1) (demo_ds, demo_world [(''/d/f'', ''abc'')])
      = Inr (bss, ds', w') \<and> concat bss = ''abc''"
  using iwds_read_delivers_file [of "demo_world [(''/d/f'', ''abc'')]" demo_ds "[]" 1 "''f''" "''abc''" 2 "[]"]
  by (auto simp: is_cstring_def ds_stream_def simp del: read_blocks.simps)





text \<open>When the allocation of the file name fails after the entry has been linked,
  \<open>create_dsession\<close> always ends in a null dereference: its cleanup searches the table for the
  entry and compares the name that was never set.\<close>

lemma enter_dsession_null_deref:
  assumes "ds_ok ds w ps" and "outcome w (tick w) = 0" and "outcome w (Suc (tick w)) \<noteq> 0"
  shows "enter_dsession ds sid pst file w = Inl Null_deref"
proof (cases "dhead ds")
  case None
  then show ?thesis using assms(2,3)
    by (simp add: enter_dsession_def add_dsession_def sys_malloc_def draw_def del_dsession_def
        get_dsession_def dses_match_def strcmp_eq_def Let_def)
next
  case (Some b)
  note d = ds_okD [OF assms(1)]
  obtain as where ps: "ps = b # as" using d(1) Some by (cases ps) (auto simp: dll_def)
  then obtain m where m: "dheap ds b = Some m" using dll_allocated [OF d(1), of b] by auto
  have "b < dbrk ds" using assms(1) ps by (simp add: ds_ok_def)
  then show ?thesis using assms(2,3) Some m
    by (simp add: enter_dsession_def add_dsession_def sys_malloc_def draw_def del_dsession_def
        get_dsession_def dses_match_def strcmp_eq_def Let_def)
qed

end
