(* ===== verification/Tftp_Msg.thy ===== *)
theory Tftp_Msg
  imports Iw_Prelude
begin

text \<open>
  TFTP messages: the constants and message formats of \<open>tftp.h\<close>, the four parsers and
  \<open>make_tftperr_msg\<close> of \<open>tftp.c\<close>. A parser gets the receive buffer, all \<open>NWBUF_SIZE\<close> bytes of
  it, and the length of the datagram; its result is the message with its fields read out
  (the structs hold pointers to them), or \<open>None\<close> for \<open>IW_ERR\<close>. The encodings of RFC 1350
  serve as the specification the parsers are compared with; the locale \<open>wire_format\<close> is
  the contract between an encoding and its parser.
\<close>

section \<open>Constants\<close>

abbreviation NWBUF_SIZE :: nat where "NWBUF_SIZE \<equiv> 1024"
abbreviation TFTP_FILENAME_MAX :: nat where "TFTP_FILENAME_MAX \<equiv> 256"
abbreviation TFTP_MODENAME_MAX :: nat where "TFTP_MODENAME_MAX \<equiv> 9"
abbreviation TFTP_DATALEN_MAX :: nat where "TFTP_DATALEN_MAX \<equiv> 512"
abbreviation TFTP_EMSGLEN_MAX :: nat where "TFTP_EMSGLEN_MAX \<equiv> 256"
abbreviation TFTP_MSGLEN_MAX :: nat where "TFTP_MSGLEN_MAX \<equiv> 516"
abbreviation TFTP_BLKNUM_MAX :: u16 where "TFTP_BLKNUM_MAX \<equiv> 65535"

text \<open>\<open>enum TFTP_OPCODE\<close> and \<open>enum TFTP_ERRORCODE\<close>, as the 16-bit values on the wire\<close>

abbreviation OP_RRQ :: u16 where "OP_RRQ \<equiv> 1"
abbreviation OP_WRQ :: u16 where "OP_WRQ \<equiv> 2"
abbreviation OP_DATA :: u16 where "OP_DATA \<equiv> 3"
abbreviation OP_ACK :: u16 where "OP_ACK \<equiv> 4"
abbreviation OP_ERROR :: u16 where "OP_ERROR \<equiv> 5"

abbreviation TFTP_ERR_SEEMSG :: u16 where "TFTP_ERR_SEEMSG \<equiv> 0"
abbreviation TFTP_ERR_NOTFOUND :: u16 where "TFTP_ERR_NOTFOUND \<equiv> 1"
abbreviation TFTP_ERR_ACCESSDENY :: u16 where "TFTP_ERR_ACCESSDENY \<equiv> 2"
abbreviation TFTP_ERR_DISKFULL :: u16 where "TFTP_ERR_DISKFULL \<equiv> 3"
abbreviation TFTP_ERR_ILLEGALOPE :: u16 where "TFTP_ERR_ILLEGALOPE \<equiv> 4"
abbreviation TFTP_ERR_UNKNOWNID :: u16 where "TFTP_ERR_UNKNOWNID \<equiv> 5"
abbreviation TFTP_ERR_FILEEXIST :: u16 where "TFTP_ERR_FILEEXIST \<equiv> 6"
abbreviation TFTP_ERR_NOUSER :: u16 where "TFTP_ERR_NOUSER \<equiv> 7"

definition errmsgs :: "string list" where
  "errmsgs = ['''', ''file not found'', ''access violation'', ''disk full or allocation exceeded'',
     ''illegal tftp operation'', ''unknown transfer id'', ''file already exists'', ''no such user'']"

section \<open>Messages\<close>

record tftpreq =
  rq_opcode :: u16
  rq_filename :: string
  rq_mode :: string

record tftpdata =
  dt_blknum :: u16
  dt_data :: bytes     \<comment> \<open>\<open>msglen - 4\<close> bytes at the pointer \<open>data\<close>\<close>

record tftpack =
  ak_blknum :: u16

record tftperror =
  er_errcode :: u16
  er_errmsg :: string

section \<open>Parsing\<close>

text \<open>The bounded search for a terminating NUL, \<open>for (i = 0; i < n; i++) if (p[i] == 0) ...\<close>\<close>

fun find_nul :: "bytes \<Rightarrow> nat \<Rightarrow> nat \<Rightarrow> fault + bool" where
  "find_nul buf p 0 = Inr False"
| "find_nul buf p (Suc n) =
     ebind (rd_byte buf p) (\<lambda>c. if c = NUL then Inr True else find_nul buf (Suc p) n)"

definition is_netascii :: "string \<Rightarrow> bool" where "is_netascii m = (m = ''netascii'')"
definition is_octet :: "string \<Rightarrow> bool" where "is_octet m = (m = ''octet'')"

definition parse_tftpreq :: "bytes \<Rightarrow> nat \<Rightarrow> fault + tftpreq option" where
  "parse_tftpreq msg msglen =
     (if msglen < 2 + 2 + length ''octet'' + 1 then Inr None
      else
       ebind (ntohs_at msg 0) (\<lambda>opcode.
       if opcode \<noteq> OP_RRQ \<and> opcode \<noteq> OP_WRQ then Inr None
       else
        ebind (find_nul msg 2 TFTP_FILENAME_MAX) (\<lambda>passed.
        if \<not> passed then Inr None
        else
         ebind (cstr_at msg 2) (\<lambda>filename.
         let m = 2 + length filename + 1 in
         ebind (find_nul msg m TFTP_MODENAME_MAX) (\<lambda>passed.
         if \<not> passed then Inr None
         else
          ebind (cstr_at msg m) (\<lambda>mode.
          if \<not> is_netascii mode \<and> \<not> is_octet mode then Inr None
          else Inr (Some \<lparr>rq_opcode = opcode, rq_filename = filename, rq_mode = mode\<rparr>)))))))"

definition parse_tftpdata :: "bytes \<Rightarrow> nat \<Rightarrow> fault + tftpdata option" where
  "parse_tftpdata msg msglen =
     (if msglen < 4 \<or> msglen - 4 > TFTP_DATALEN_MAX then Inr None
      else
       ebind (ntohs_at msg 0) (\<lambda>opcode.
       if opcode \<noteq> OP_DATA then Inr None
       else
        ebind (ntohs_at msg 2) (\<lambda>blknum.
        ebind (rd_bytes msg 4 (msglen - 4)) (\<lambda>data.
        Inr (Some \<lparr>dt_blknum = blknum, dt_data = data\<rparr>)))))"

definition parse_tftpack :: "bytes \<Rightarrow> nat \<Rightarrow> fault + tftpack option" where
  "parse_tftpack msg msglen =
     (if msglen \<noteq> 4 then Inr None
      else
       ebind (ntohs_at msg 0) (\<lambda>opcode.
       if opcode \<noteq> OP_ACK then Inr None
       else ebind (ntohs_at msg 2) (\<lambda>blknum. Inr (Some \<lparr>ak_blknum = blknum\<rparr>))))"

definition parse_tftperror :: "bytes \<Rightarrow> nat \<Rightarrow> fault + tftperror option" where
  "parse_tftperror msg msglen =
     (if msglen < 4 + 1 then Inr None
      else
       ebind (ntohs_at msg 0) (\<lambda>opcode.
       if opcode \<noteq> OP_ERROR then Inr None
       else
        ebind (ntohs_at msg 2) (\<lambda>errcode.
        ebind (find_nul msg 4 TFTP_EMSGLEN_MAX) (\<lambda>passed.
        if \<not> passed then Inr None
        else ebind (cstr_at msg 4) (\<lambda>errmsg.
          Inr (Some \<lparr>er_errcode = errcode, er_errmsg = errmsg\<rparr>))))))"

section \<open>The error message\<close>

text \<open>\<open>make_tftperr_msg\<close>: \<open>emsg\<close> is the caller's buffer with a C string of \<open>emsglen\<close> bytes. The
  result is the length, or -1, and the message buffer.\<close>

definition make_tftperr_msg ::
    "u16 \<Rightarrow> bytes \<Rightarrow> nat \<Rightarrow> bytes \<Rightarrow> nat \<Rightarrow> fault + int \<times> bytes" where
  "make_tftperr_msg ecode buf bufsize emsg emsglen =
     ebind (wr_bytes buf 0 (put_be16 OP_ERROR)) (\<lambda>buf.
     ebind (wr_bytes buf 2 (put_be16 ecode)) (\<lambda>buf.
     ebind (if ecode \<noteq> TFTP_ERR_SEEMSG
            then (if unat ecode < length errmsgs
                  then Inr (errmsgs ! unat ecode @ [NUL], length (errmsgs ! unat ecode))
                  else Inl Out_of_bounds)
            else Inr (emsg, emsglen)) (\<lambda>(emsg, emsglen).
     if sz_sub bufsize 4 < emsglen + 1 then Inr (-1, buf)
     else
      ebind (rd_bytes emsg 0 (emsglen + 1)) (\<lambda>bs.
      ebind (wr_bytes buf 4 bs) (\<lambda>buf.
      Inr (int (4 + emsglen + 1), buf))))))"

section \<open>The encodings of RFC 1350\<close>

definition enc_req :: "tftpreq \<Rightarrow> bytes" where
  "enc_req r = put_be16 (rq_opcode r) @ rq_filename r @ [NUL] @ rq_mode r @ [NUL]"

definition enc_data :: "tftpdata \<Rightarrow> bytes" where
  "enc_data d = put_be16 OP_DATA @ put_be16 (dt_blknum d) @ dt_data d"

definition enc_ack :: "tftpack \<Rightarrow> bytes" where
  "enc_ack a = put_be16 OP_ACK @ put_be16 (ak_blknum a)"

definition enc_error :: "tftperror \<Rightarrow> bytes" where
  "enc_error e = put_be16 OP_ERROR @ put_be16 (er_errcode e) @ er_errmsg e @ [NUL]"

text \<open>The messages the server takes; \<open>TFTP_FILENAME_MAX\<close> and \<open>TFTP_EMSGLEN_MAX\<close> count the NUL.\<close>

definition req_wf :: "tftpreq \<Rightarrow> bool" where
  "req_wf r \<longleftrightarrow> rq_opcode r \<in> {OP_RRQ, OP_WRQ} \<and> is_cstring (rq_filename r) \<and>
     length (rq_filename r) < TFTP_FILENAME_MAX \<and> rq_mode r \<in> {''netascii'', ''octet''}"

definition data_fits :: "tftpdata \<Rightarrow> bool" where
  "data_fits d \<longleftrightarrow> length (dt_data d) \<le> TFTP_DATALEN_MAX"

definition error_fits :: "tftperror \<Rightarrow> bool" where
  "error_fits e \<longleftrightarrow> is_cstring (er_errmsg e) \<and> length (er_errmsg e) < TFTP_EMSGLEN_MAX"

section \<open>Searching for the NUL\<close>

lemma find_nul_ok:
  "p + n \<le> length buf \<Longrightarrow> find_nul buf p n = Inr (NUL \<in> set (take n (drop p buf)))"
proof (induction n arbitrary: p)
  case (Suc n)
  then have "take (Suc n) (drop p buf) = buf ! p # take n (drop (Suc p) buf)"
    by (simp add: Cons_nth_drop_Suc [symmetric])
  with Suc show ?case by simp
qed simp

lemma find_nul_cstring:
  "\<lbrakk>is_cstring s; length s < n; length pre = p\<rbrakk> \<Longrightarrow> find_nul (pre @ s @ NUL # t) p n = Inr True"
proof (induction s arbitrary: n pre p)
  case Nil
  then show ?case by (cases n) (auto simp: rd_byte_def)
next
  case (Cons c s)
  then obtain k where n: "n = Suc k" by (cases n) auto
  have "find_nul ((pre @ [c]) @ s @ NUL # t) (Suc p) k = Inr True"
    using Cons.prems n by (intro Cons.IH) (auto simp: is_cstring_def)
  with Cons.prems n show ?case by (auto simp: rd_byte_def is_cstring_def nth_append)
qed

lemma find_nul_TrueD:
  "find_nul buf p n = Inr True \<Longrightarrow>
   \<exists>s t. drop p buf = s @ NUL # t \<and> is_cstring s \<and> length s < n \<and> cstr_at buf p = Inr s"
proof (induction n arbitrary: p)
  case (Suc n)
  then have p: "p < length buf" by (auto simp: rd_byte_def ebind_Inr_iff split: if_splits)
  then have d: "drop p buf = buf ! p # drop (Suc p) buf" by (simp add: Cons_nth_drop_Suc)
  show ?case
  proof (cases "buf ! p = NUL")
    case True
    with d show ?thesis
      by (intro exI [of _ "[]"] exI [of _ "drop (Suc p) buf"]) (simp add: is_cstring_def cstr_at_def)
  next
    case False
    with Suc.prems p have "find_nul buf (Suc p) n = Inr True" by simp
    from Suc.IH [OF this] obtain s t where
      "drop (Suc p) buf = s @ NUL # t" "is_cstring s" "length s < n" by blast
    with d False show ?thesis
      by (intro exI [of _ "buf ! p # s"] exI [of _ t])
        (simp add: is_cstring_def cstr_at_def takeWhile_append)
  qed
qed simp

section \<open>Encodings and parsers\<close>

locale wire_format =
  fixes enc :: "'m \<Rightarrow> bytes"
    and parse :: "bytes \<Rightarrow> nat \<Rightarrow> fault + 'm option"
    and wf :: "'m \<Rightarrow> bool"
    and lo :: nat
  assumes parse_enc: "\<lbrakk>wf m; lo \<le> length (enc m)\<rbrakk> \<Longrightarrow> parse (enc m @ rest) (length (enc m)) = Inr (Some m)"
    and parse_sound: "parse buf n = Inr (Some m) \<Longrightarrow>
      wf m \<and> lo \<le> n \<and> (\<exists>rest. buf = enc m @ rest)"
begin

lemma enc_inj: "\<lbrakk>wf m; wf m'; lo \<le> length (enc m); enc m = enc m'\<rbrakk> \<Longrightarrow> m = m'"
  using parse_enc [of m "[]"] parse_enc [of m' "[]"] by simp

text \<open>Whatever an earlier, longer datagram left in the buffer does not matter.\<close>

lemma stale_tail:
  "\<lbrakk>wf m; lo \<le> length (enc m)\<rbrakk> \<Longrightarrow>
   parse (enc m @ rest) (length (enc m)) = parse (enc m @ rest') (length (enc m))"
  by (simp add: parse_enc)

text \<open>On a datagram of the right length the parser is the inverse of the encoding.\<close>

lemma parse_exact:
  assumes "n \<le> length buf" and "length (enc m) = n"
  shows "parse buf n = Inr (Some m) \<longleftrightarrow> wf m \<and> lo \<le> n \<and> take n buf = enc m"
proof
  assume "parse buf n = Inr (Some m)"
  from parse_sound [OF this] assms(2) show "wf m \<and> lo \<le> n \<and> take n buf = enc m" by auto
next
  assume r: "wf m \<and> lo \<le> n \<and> take n buf = enc m"
  then have "buf = enc m @ drop n buf" by (metis append_take_drop_id)
  with r assms(2) parse_enc [of m "drop n buf"] show "parse buf n = Inr (Some m)" by simp
qed

end

lemma ntohs_hd: "ntohs_at (put_be16 x @ t) 0 = Inr x"
  using ntohs_at_put [of 0 "[]" x t] by simp

lemma ntohs_snd: "ntohs_at (put_be16 x @ put_be16 y @ t) 2 = Inr y"
  using ntohs_at_put [of 2 "put_be16 x" y t] by simp

lemma ntohs_at_D:
  "ntohs_at buf i = Inr x \<Longrightarrow> \<exists>t. drop i buf = put_be16 x @ t"
proof -
  assume a: "ntohs_at buf i = Inr x"
  then have i: "Suc i < length buf" "x = get_be16 (buf ! i) (buf ! Suc i)"
    by (auto simp: ntohs_at_def rd_byte_def ebind_Inr_iff split: if_splits)
  then have "drop i buf = buf ! i # buf ! Suc i # drop (Suc (Suc i)) buf"
    by (simp add: Cons_nth_drop_Suc Suc_lessD)
  with i show ?thesis by simp
qed

interpretation wdata: wire_format enc_data parse_tftpdata data_fits 4
proof unfold_locales
  fix m rest
  assume "data_fits m" "4 \<le> length (enc_data m)"
  then show "parse_tftpdata (enc_data m @ rest) (length (enc_data m)) = Inr (Some m)"
    by (simp add: parse_tftpdata_def enc_data_def data_fits_def ntohs_hd ntohs_snd)
next
  fix buf n m
  assume a: "parse_tftpdata buf n = Inr (Some m)"
  then have o: "ntohs_at buf 0 = Inr OP_DATA" "ntohs_at buf 2 = Inr (dt_blknum m)"
      "rd_bytes buf 4 (n - 4) = Inr (dt_data m)" "4 \<le> n" "n - 4 \<le> TFTP_DATALEN_MAX"
    by (auto simp: parse_tftpdata_def ebind_Inr_iff split: if_splits)
  from o(1) [THEN ntohs_at_D] o(2) [THEN ntohs_at_D] obtain t u where
    b: "buf = put_be16 OP_DATA @ t" "drop 2 buf = put_be16 (dt_blknum m) @ u" by auto
  then have "t = put_be16 (dt_blknum m) @ u" by simp
  moreover from this b(1) o(3) have u: "take (n - 4) u = dt_data m" "n - 4 \<le> length u"
    by (auto simp: rd_bytes_def split: if_splits)
  moreover have "u = dt_data m @ drop (n - 4) u" "length (dt_data m) = n - 4"
    by (simp_all add: u(1) [symmetric] u(2))
  ultimately have "buf = enc_data m @ drop (n - 4) u" "data_fits m"
    using b(1) o(5) by (simp_all add: enc_data_def data_fits_def)
  with o(4) show "data_fits m \<and> 4 \<le> n \<and> (\<exists>rest. buf = enc_data m @ rest)" by blast
qed

interpretation wack: wire_format enc_ack parse_tftpack "\<lambda>_. True" 4
proof unfold_locales
  fix m rest
  show "parse_tftpack (enc_ack m @ rest) (length (enc_ack m)) = Inr (Some m)"
    by (simp add: parse_tftpack_def enc_ack_def ntohs_hd ntohs_snd)
next
  fix buf n m
  assume a: "parse_tftpack buf n = Inr (Some m)"
  then have o: "ntohs_at buf 0 = Inr OP_ACK" "ntohs_at buf 2 = Inr (ak_blknum m)" "n = 4"
    by (auto simp: parse_tftpack_def ebind_Inr_iff split: if_splits)
  from o(1) [THEN ntohs_at_D] o(2) [THEN ntohs_at_D] obtain t u where
    b: "buf = put_be16 OP_ACK @ t" "drop 2 buf = put_be16 (ak_blknum m) @ u" by auto
  then have "t = put_be16 (ak_blknum m) @ u" by simp
  with b o(3) show "True \<and> 4 \<le> n \<and> (\<exists>rest. buf = enc_ack m @ rest)"
    by (auto simp: enc_ack_def)
qed

interpretation werr: wire_format enc_error parse_tftperror error_fits 5
proof unfold_locales
  fix m rest
  assume f: "error_fits m"
  let ?p = "put_be16 OP_ERROR @ put_be16 (er_errcode m)"
  have "find_nul (?p @ er_errmsg m @ NUL # rest) 4 TFTP_EMSGLEN_MAX = Inr True"
    using f by (intro find_nul_cstring) (auto simp: error_fits_def)
  moreover have "cstr_at (?p @ er_errmsg m @ NUL # rest) 4 = Inr (er_errmsg m)"
    using f by (intro cstr_at_append) (auto simp: error_fits_def)
  ultimately show "parse_tftperror (enc_error m @ rest) (length (enc_error m)) = Inr (Some m)"
    by (simp add: parse_tftperror_def enc_error_def ntohs_hd ntohs_snd)
next
  fix buf n m
  assume a: "parse_tftperror buf n = Inr (Some m)"
  then have o: "ntohs_at buf 0 = Inr OP_ERROR" "ntohs_at buf 2 = Inr (er_errcode m)"
      "find_nul buf 4 TFTP_EMSGLEN_MAX = Inr True" "cstr_at buf 4 = Inr (er_errmsg m)" "5 \<le> n"
    by (auto simp: parse_tftperror_def ebind_Inr_iff split: if_splits)
  from o(1) [THEN ntohs_at_D] o(2) [THEN ntohs_at_D] obtain t u where
    b: "buf = put_be16 OP_ERROR @ t" "drop 2 buf = put_be16 (er_errcode m) @ u" by auto
  then have t: "t = put_be16 (er_errcode m) @ u" by simp
  from find_nul_TrueD [OF o(3)] o(4) obtain v where
    v: "drop 4 buf = er_errmsg m @ NUL # v" "is_cstring (er_errmsg m)"
       "length (er_errmsg m) < TFTP_EMSGLEN_MAX" by auto
  with b t have "u = er_errmsg m @ NUL # v" by simp
  with b t v o(5) show "error_fits m \<and> 5 \<le> n \<and> (\<exists>rest. buf = enc_error m @ rest)"
    by (auto simp: error_fits_def enc_error_def)
qed

interpretation wreq: wire_format enc_req parse_tftpreq req_wf 10
proof unfold_locales
  fix m rest
  assume f: "req_wf m" and len: "10 \<le> length (enc_req m)"
  let ?b = "put_be16 (rq_opcode m) @ rq_filename m @ NUL # rq_mode m @ NUL # rest"
  let ?m = "Suc (Suc (Suc (length (rq_filename m))))"
  have md: "is_cstring (rq_mode m)" "length (rq_mode m) < TFTP_MODENAME_MAX"
    using f by (auto simp: req_wf_def is_cstring_def)
  have 1: "find_nul ?b 2 TFTP_FILENAME_MAX = Inr True" "cstr_at ?b 2 = Inr (rq_filename m)"
    using f by (auto simp: req_wf_def intro!: find_nul_cstring cstr_at_append)
  let ?p = "put_be16 (rq_opcode m) @ rq_filename m @ [NUL]"
  have "find_nul (?p @ rq_mode m @ NUL # rest) ?m TFTP_MODENAME_MAX = Inr True"
    by (rule find_nul_cstring [OF md]) simp
  moreover have "cstr_at (?p @ rq_mode m @ NUL # rest) ?m = Inr (rq_mode m)"
    by (rule cstr_at_append [OF md(1)]) simp
  ultimately have 2: "find_nul ?b ?m TFTP_MODENAME_MAX = Inr True" "cstr_at ?b ?m = Inr (rq_mode m)"
    by simp_all
  have e: "enc_req m @ rest = ?b" by (simp add: enc_req_def)
  show "parse_tftpreq (enc_req m @ rest) (length (enc_req m)) = Inr (Some m)"
    unfolding e using f len 1 2
    by (auto simp: parse_tftpreq_def ntohs_hd req_wf_def is_netascii_def is_octet_def)
next
  fix buf n m
  assume a: "parse_tftpreq buf n = Inr (Some m)"
  let ?m = "2 + length (rq_filename m) + 1"
  from a have o: "ntohs_at buf 0 = Inr (rq_opcode m)" "rq_opcode m \<in> {OP_RRQ, OP_WRQ}"
      "find_nul buf 2 TFTP_FILENAME_MAX = Inr True" "cstr_at buf 2 = Inr (rq_filename m)"
      "find_nul buf ?m TFTP_MODENAME_MAX = Inr True" "cstr_at buf ?m = Inr (rq_mode m)"
      "rq_mode m \<in> {''netascii'', ''octet''}" "10 \<le> n"
    by (auto simp: parse_tftpreq_def ebind_Inr_iff Let_def is_netascii_def is_octet_def split: if_splits)
  from o(1) [THEN ntohs_at_D] obtain t where b: "buf = put_be16 (rq_opcode m) @ t" by auto
  from find_nul_TrueD [OF o(3)] o(4) obtain v where
    v: "drop 2 buf = rq_filename m @ NUL # v" "is_cstring (rq_filename m)"
       "length (rq_filename m) < TFTP_FILENAME_MAX" by auto
  from find_nul_TrueD [OF o(5)] o(6) obtain x where
    x: "drop ?m buf = rq_mode m @ NUL # x" by auto
  have "t = rq_filename m @ NUL # v" using b v by simp
  with b x have "v = rq_mode m @ NUL # x" by simp
  with b \<open>t = _\<close> o v show "req_wf m \<and> 10 \<le> n \<and> (\<exists>rest. buf = enc_req m @ rest)"
    by (auto simp: req_wf_def enc_req_def)
qed

lemma parse_tftpdata_length:
  "parse_tftpdata buf n = Inr (Some d) \<Longrightarrow> length (enc_data d) = n \<and> data_fits d"
proof -
  assume p: "parse_tftpdata buf n = Inr (Some d)"
  then have "rd_bytes buf 4 (n - 4) = Inr (dt_data d)" "4 \<le> n"
    by (auto simp: parse_tftpdata_def ebind_Inr_iff split: if_splits)
  with wdata.parse_sound [OF p] show ?thesis by (auto simp: enc_data_def dest: rd_bytes_length)
qed

section \<open>Properties of the parsers\<close>

text \<open>C10: none of the four parsers reads outside the receive buffer, whatever the bytes of the
  datagram, its length and what earlier datagrams left in the buffer; each returns a message
  or rejects the datagram.\<close>

theorem parsers_memory_safe:
  assumes "length buf = NWBUF_SIZE" and "n \<le> NWBUF_SIZE"
  shows "defined (parse_tftpreq buf n) \<and> defined (parse_tftpdata buf n) \<and>
    defined (parse_tftpack buf n) \<and> defined (parse_tftperror buf n)"
proof (intro conjI)
  have fn: "find_nul buf 2 TFTP_FILENAME_MAX = Inr b1 \<Longrightarrow> b1 \<Longrightarrow>
      \<exists>s. cstr_at buf 2 = Inr s \<and> length s < TFTP_FILENAME_MAX" for b1
    using find_nul_TrueD [of buf 2] by auto
  have mode: "\<exists>b. find_nul buf (2 + length s + 1) TFTP_MODENAME_MAX = Inr b \<and>
      (b \<longrightarrow> (\<exists>t. cstr_at buf (2 + length s + 1) = Inr t))" if "length s < TFTP_FILENAME_MAX" for s
    using find_nul_ok [of "2 + length s + 1" TFTP_MODENAME_MAX buf] that assms(1)
      find_nul_TrueD [of buf "2 + length s + 1" TFTP_MODENAME_MAX] by fastforce
  show "defined (parse_tftpreq buf n)"
    unfolding defined_iff
  proof (cases "find_nul buf 2 TFTP_FILENAME_MAX = Inr True")
    case True
    then obtain s where s: "cstr_at buf 2 = Inr s" "length s < TFTP_FILENAME_MAX" using fn by blast
    from mode [OF s(2)] True s assms(1) show "\<exists>x. parse_tftpreq buf n = Inr x"
      by (auto simp: parse_tftpreq_def)
  next
    case False
    then show "\<exists>x. parse_tftpreq buf n = Inr x"
      using find_nul_ok [of 2 TFTP_FILENAME_MAX buf] assms(1) by (auto simp: parse_tftpreq_def)
  qed
  show "defined (parse_tftpdata buf n)" using assms by (simp add: parse_tftpdata_def)
  show "defined (parse_tftpack buf n)" using assms by (simp add: parse_tftpack_def)
  show "defined (parse_tftperror buf n)"
    using find_nul_ok [of 4 TFTP_EMSGLEN_MAX buf] find_nul_TrueD [of buf 4 TFTP_EMSGLEN_MAX] assms(1)
    by (auto simp: parse_tftperror_def)
qed

theorem parsers_memory_safe_witness:
  "defined (parse_tftpreq (replicate 1024 NUL) 12) \<and> defined (parse_tftpdata (replicate 1024 NUL) 12) \<and>
   defined (parse_tftpack (replicate 1024 NUL) 12) \<and> defined (parse_tftperror (replicate 1024 NUL) 12)"
  by (rule parsers_memory_safe) simp_all



text \<open>C32: what \<open>parse_tftpreq\<close> accepts: the buffer starts with a well-formed request and the
  datagram has at least 10 bytes. The length of the datagram is not compared with the end of
  the request, so the bytes of the fields may lie beyond the datagram, left by an earlier one.\<close>

theorem parse_tftpreq_accepts_iff:
  assumes "length buf = NWBUF_SIZE"
  shows "(parse_tftpreq buf n = Inr (Some r)) \<longleftrightarrow>
    10 \<le> n \<and> req_wf r \<and> (\<exists>rest. buf = enc_req r @ rest)"
proof
  assume "parse_tftpreq buf n = Inr (Some r)"
  then show "10 \<le> n \<and> req_wf r \<and> (\<exists>rest. buf = enc_req r @ rest)"
    using wreq.parse_sound by blast
next
  assume a: "10 \<le> n \<and> req_wf r \<and> (\<exists>rest. buf = enc_req r @ rest)"
  then obtain rest where b: "buf = enc_req r @ rest" by blast
  have same: "parse_tftpreq buf n = parse_tftpreq buf k" if "10 \<le> k" for k
    using a that by (simp add: parse_tftpreq_def)
  show "parse_tftpreq buf n = Inr (Some r)"
  proof (cases "10 \<le> length (enc_req r)")
    case True
    with wreq.parse_enc [of r rest] a b same [OF True] show ?thesis by simp
  next
    case False
    then have f: "rq_filename r = []" "rq_mode r = ''octet''"
      using a by (cases "rq_filename r"; auto simp: enc_req_def req_wf_def)+
    let ?p = "put_be16 (rq_opcode r)"
    have e: "buf = ?p @ NUL # ''octet'' @ NUL # rest" using b f by (simp add: enc_req_def)
    have "find_nul buf 2 TFTP_FILENAME_MAX = Inr True" "cstr_at buf 2 = Inr []"
      unfolding e using find_nul_cstring [of "[]" TFTP_FILENAME_MAX ?p 2]
        cstr_at_append [of "[]" 2 ?p] by (simp_all add: is_cstring_def)
    moreover have "find_nul ((?p @ [NUL]) @ ''octet'' @ NUL # rest) 3 TFTP_MODENAME_MAX = Inr True"
      by (rule find_nul_cstring) (simp_all add: is_cstring_def)
    then have "find_nul buf (Suc (Suc (Suc 0))) TFTP_MODENAME_MAX = Inr True"
      unfolding e by (simp add: numeral_3_eq_3)
    moreover have "cstr_at ((?p @ [NUL]) @ ''octet'' @ NUL # rest) 3 = Inr ''octet''"
      by (rule cstr_at_append) (simp_all add: is_cstring_def)
    then have "cstr_at buf (Suc (Suc (Suc 0))) = Inr ''octet''"
      unfolding e by (simp add: numeral_3_eq_3)
    moreover have "ntohs_at buf 0 = Inr (rq_opcode r)" unfolding e by (rule ntohs_hd)
    moreover have "10 \<le> n" "rq_opcode r = OP_RRQ \<or> rq_opcode r = OP_WRQ"
      using a by (auto simp: req_wf_def)
    ultimately show ?thesis
      using f by (auto simp: parse_tftpreq_def is_netascii_def is_octet_def simp del: ntohs_at_Inr)
  qed
qed

theorem parse_tftpreq_accepts_iff_witness:
  "parse_tftpreq (enc_req \<lparr>rq_opcode = OP_RRQ, rq_filename = ''passwd'', rq_mode = ''octet''\<rparr> @
      replicate 1009 NUL) 10 =
    Inr (Some \<lparr>rq_opcode = OP_RRQ, rq_filename = ''passwd'', rq_mode = ''octet''\<rparr>)"
  by (subst parse_tftpreq_accepts_iff) (auto simp: enc_req_def req_wf_def is_cstring_def)

section \<open>The error message is the encoding\<close>

lemma errmsgs_nth: "ecode < 8 \<Longrightarrow> is_cstring (errmsgs ! ecode) \<and> length (errmsgs ! ecode) \<le> 50"
  by (auto simp: errmsgs_def is_cstring_def less_Suc_eq numeral_eq_Suc)

text \<open>The text of an error reply: the caller's for \<open>TFTP_ERR_SEEMSG\<close>, else the table's.\<close>

definition err_text :: "u16 \<Rightarrow> string \<Rightarrow> string" where
  "err_text ecode s = (if ecode = TFTP_ERR_SEEMSG then s else errmsgs ! unat ecode)"

lemma make_tftperr_msg_ok:
  assumes "length buf = TFTP_MSGLEN_MAX" and "unat ecode < 8"
    and "is_cstring s" and "length s < TFTP_EMSGLEN_MAX" and "emsg = s @ NUL # t"
  shows "\<exists>buf'. make_tftperr_msg ecode buf TFTP_MSGLEN_MAX emsg (length s) =
      Inr (int (length (enc_error \<lparr>er_errcode = ecode, er_errmsg = err_text ecode s\<rparr>)), buf') \<and>
    length buf' = TFTP_MSGLEN_MAX \<and>
    (\<exists>rest. buf' = enc_error \<lparr>er_errcode = ecode, er_errmsg = err_text ecode s\<rparr> @ rest)"
proof -
  let ?x = "err_text ecode s"
  have len: "length ?x < TFTP_EMSGLEN_MAX"
    using errmsgs_nth [OF assms(2)] assms(4) by (auto simp: err_text_def)
  obtain b2 where b2: "wr_bytes buf 0 (put_be16 OP_ERROR) = Inr (put_be16 OP_ERROR @ b2)" "length b2 = 514"
    using assms(1) by simp
  have b3: "wr_bytes (put_be16 OP_ERROR @ b2) 2 (put_be16 ecode) =
      Inr (put_be16 OP_ERROR @ put_be16 ecode @ drop 2 b2)"
    using b2(2) by simp
  have b4: "wr_bytes (put_be16 OP_ERROR @ put_be16 ecode @ drop 2 b2) 4 (?x @ [NUL]) =
      Inr (put_be16 OP_ERROR @ put_be16 ecode @ (?x @ [NUL]) @ drop (Suc (length ?x)) (drop 2 b2))"
    using b2(2) len by simp
  have emsg: "(if ecode \<noteq> TFTP_ERR_SEEMSG
            then (if unat ecode < length errmsgs
                  then Inr (errmsgs ! unat ecode @ [NUL], length (errmsgs ! unat ecode))
                  else Inl Out_of_bounds)
            else Inr (emsg, length s)) =
      Inr (if ecode \<noteq> TFTP_ERR_SEEMSG then (?x @ [NUL], length ?x) else (emsg, length ?x))"
    using assms(2) by (auto simp: err_text_def errmsgs_def)
  have rd: "rd_bytes (?x @ [NUL]) 0 (Suc (length ?x)) = Inr (?x @ [NUL])"
    "ecode = TFTP_ERR_SEEMSG \<Longrightarrow> rd_bytes emsg 0 (Suc (length ?x)) = Inr (?x @ [NUL])"
    using assms(5) by (simp_all add: err_text_def)
  have "make_tftperr_msg ecode buf TFTP_MSGLEN_MAX emsg (length s) =
      Inr (int (4 + length ?x + 1),
        put_be16 OP_ERROR @ put_be16 ecode @ (?x @ [NUL]) @ drop (Suc (length ?x)) (drop 2 b2))"
    unfolding make_tftperr_msg_def b2(1) ebind_simps b3 emsg
    using len rd b4 by (cases "ecode = TFTP_ERR_SEEMSG") auto
  then show ?thesis
    using b2(2) len by (simp add: enc_error_def)
qed

text \<open>C31: for every error code of the protocol \<open>make_tftperr_msg\<close> succeeds and leaves in the
  first bytes of the message buffer the encoding of the code and its text.\<close>

theorem make_tftperr_msg_encodes:
  assumes "length buf = TFTP_MSGLEN_MAX" and "unat ecode < 8"
    and "is_cstring s" and "length s < TFTP_EMSGLEN_MAX" and "emsg = s @ NUL # t"
  shows "\<exists>buf'. make_tftperr_msg ecode buf TFTP_MSGLEN_MAX emsg (length s) =
      Inr (int (length (enc_error \<lparr>er_errcode = ecode, er_errmsg = err_text ecode s\<rparr>)), buf') \<and>
    length buf' = TFTP_MSGLEN_MAX \<and>
    (\<exists>rest. buf' = enc_error \<lparr>er_errcode = ecode, er_errmsg = err_text ecode s\<rparr> @ rest)"
  by (rule make_tftperr_msg_ok [OF assms])

theorem make_tftperr_msg_encodes_witness:
  "\<exists>buf'. make_tftperr_msg TFTP_ERR_NOTFOUND (replicate 516 NUL) TFTP_MSGLEN_MAX (NUL # replicate 255 NUL) 0 =
      Inr (19, buf') \<and> length buf' = TFTP_MSGLEN_MAX \<and>
    (\<exists>rest. buf' = enc_error \<lparr>er_errcode = 1, er_errmsg = ''file not found''\<rparr> @ rest)"
  using make_tftperr_msg_encodes [of "replicate 516 NUL" TFTP_ERR_NOTFOUND "[]"
      "NUL # replicate 255 NUL" "replicate 255 NUL"]
  by (simp add: is_cstring_def err_text_def errmsgs_def enc_error_def)

end
