(* ===== verification/Tftp_Buffer.thy ===== *)
theory Tftp_Buffer
  imports Datastore_Data Tftp_Msg
begin

text \<open>
  The session record of \<open>tftp.h\<close> and the data path of \<open>tftp.c\<close>: \<open>load_data\<close>, \<open>save_data\<close> and
  \<open>close_data\<close> between the session buffer and the data store, the netascii conversions,
  \<open>get_session_data\<close> and \<open>put_session_data\<close>, and the two functions that make DATA and ACK
  messages. A function takes the session by value and returns it updated; the callers load
  it from the session heap and store it back. \<open>sesbuf\<close> is allocated and freed with its
  session, so it is a field of it; its pointer \<open>pos\<close> is the index into \<open>storage\<close>.
\<close>

section \<open>Data\<close>

abbreviation SESSION_BUFSIZE :: nat where "SESSION_BUFSIZE \<equiv> 8192"
abbreviation CR :: char where "CR \<equiv> CHR 0x0D"
abbreviation LF :: char where "LF \<equiv> CHR 0x0A"

datatype tftp_mode = TFTP_MODE_NETASCII | TFTP_MODE_OCTET

record datastorage =
  sb_pos :: nat
  sb_fopt :: bool
  sb_datalen :: nat
  sb_storage :: bytes

record session = dnode +
  clip :: string
  clport :: u16
  clsock :: int
  regevent :: bool
  tftpmode :: tftp_mode
  sesbuf :: datastorage
  filename :: string
  blknum :: u16
  fin :: bool
  lastmsg :: bytes
  lastmsglen :: nat
  lastsending :: int
  retrycount :: int
  disabled :: bool

definition set_sb :: "session \<Rightarrow> datastorage \<Rightarrow> session" where
  "set_sb clses sb = clses\<lparr>sesbuf := sb\<rparr>"

lemma set_sb_simps [simp]:
  "sesbuf (set_sb c sb) = sb" "set_sb (set_sb c sb) sb' = set_sb c sb'" "set_sb c (sesbuf c) = c"
  "clip (set_sb c sb) = clip c" "clport (set_sb c sb) = clport c" "clsock (set_sb c sb) = clsock c"
  "regevent (set_sb c sb) = regevent c" "tftpmode (set_sb c sb) = tftpmode c"
  "filename (set_sb c sb) = filename c" "blknum (set_sb c sb) = blknum c" "fin (set_sb c sb) = fin c"
  "lastmsg (set_sb c sb) = lastmsg c" "lastmsglen (set_sb c sb) = lastmsglen c"
  "lastsending (set_sb c sb) = lastsending c" "retrycount (set_sb c sb) = retrycount c"
  "disabled (set_sb c sb) = disabled c" "nxt (set_sb c sb) = nxt c" "prv (set_sb c sb) = prv c"
  by (simp_all add: set_sb_def)

section \<open>Between the session buffer and the data store\<close>

definition close_data :: "session \<Rightarrow> iwds \<Rightarrow> world \<Rightarrow> fault + iwds \<times> world" where
  "close_data clses ads w =
     ebind (iwds_close ads
       \<lparr>dsid = clsock clses, dfile = filename clses, dbuf = [], dlen = 0, derr = 0\<rparr> w)
       (\<lambda>(_, _, ads, w). Inr (ads, w))"

text \<open>The result is the session with its buffer; the flag is \<open>IW_OK\<close>.\<close>

definition load_data :: "session \<Rightarrow> iwds \<Rightarrow> world \<Rightarrow> fault + bool \<times> session \<times> iwds \<times> world" where
  "load_data clses ads w =
     (let sb = sesbuf clses in
      ebind (iwds_read ads \<lparr>dsid = clsock clses, dfile = filename clses, dbuf = sb_storage sb,
          dlen = SESSION_BUFSIZE, derr = 0\<rparr> w) (\<lambda>(bs, dticket, ads, w).
      ebind (wr_bytes (sb_storage sb) 0 bs) (\<lambda>st.
      let sb = sb\<lparr>sb_storage := st, sb_datalen := length bs\<rparr> in
      if derr dticket \<noteq> 0 then
        ebind (close_data (set_sb clses sb) ads w) (\<lambda>(ads, w). Inr (False, set_sb clses sb, ads, w))
      else Inr (True, set_sb clses (sb\<lparr>sb_pos := 0\<rparr>), ads, w))))"

definition save_data :: "session \<Rightarrow> iwds \<Rightarrow> world \<Rightarrow> fault + bool \<times> session \<times> iwds \<times> world" where
  "save_data clses ads w =
     (let sb = sesbuf clses in
      ebind (iwds_write ads \<lparr>dsid = clsock clses, dfile = filename clses, dbuf = sb_storage sb,
          dlen = sb_datalen sb, derr = 0\<rparr> w) (\<lambda>(wlen, dticket, ads, w).
      if derr dticket \<noteq> 0 \<or> wlen \<noteq> sb_datalen sb then
        ebind (close_data clses ads w) (\<lambda>(ads, w). Inr (False, clses, ads, w))
      else Inr (True, set_sb clses (sb\<lparr>sb_datalen := 0, sb_pos := 0\<rparr>), ads, w)))"

section \<open>Netascii\<close>

text \<open>The scanning loops of the two conversions. \<open>n2l_scan\<close> counts the bytes up to the next CR;
  \<open>l2n_scan\<close> moves \<open>ps\<close> up to the next LF, counting \<open>dstlen\<close> up and \<open>datalen\<close> down.\<close>

fun n2l_scan :: "bytes \<Rightarrow> nat \<Rightarrow> nat \<Rightarrow> nat \<times> bool" where
  "n2l_scan [] avail chklen = (chklen, False)"
| "n2l_scan (c # cs) avail chklen =
     (if chklen < avail
      then (if c = CR then (chklen, True) else n2l_scan cs avail (Suc chklen))
      else (chklen, False))"

definition netascii_to_local :: "datastorage \<Rightarrow> bytes \<Rightarrow> fault + nat \<times> datastorage" where
  "netascii_to_local sb src =
     (case n2l_scan src (sz_sub SESSION_BUFSIZE (sb_datalen sb)) 0 of (chklen, found) \<Rightarrow>
      ebind (if chklen > 0 then
               ebind (wr_bytes (sb_storage sb) (sb_pos sb) (take chklen src)) (\<lambda>st.
               Inr (sb\<lparr>sb_storage := st, sb_pos := sb_pos sb + chklen,
                       sb_datalen := sb_datalen sb + chklen\<rparr>))
             else Inr sb) (\<lambda>sb.
      Inr (if found then Suc chklen else chklen, sb)))"

fun l2n_scan :: "bytes \<Rightarrow> nat \<Rightarrow> nat \<Rightarrow> nat \<Rightarrow> nat \<Rightarrow> fault + nat \<times> nat \<times> nat \<times> bool" where
  "l2n_scan st ps dstlen 0 bufsize = Inr (ps, dstlen, 0, False)"
| "l2n_scan st ps dstlen (Suc datalen) bufsize =
     (if dstlen < bufsize
      then ebind (rd_byte st ps) (\<lambda>c.
        if c = LF then Inr (ps, dstlen, Suc datalen, True)
        else l2n_scan st (Suc ps) (Suc dstlen) datalen bufsize)
      else Inr (ps, dstlen, Suc datalen, False))"

text \<open>\<open>local_to_netascii dst pd bufsize sb\<close> writes at \<open>dst + pd\<close>, at most \<open>bufsize\<close> bytes.\<close>

definition local_to_netascii ::
    "bytes \<Rightarrow> nat \<Rightarrow> nat \<Rightarrow> datastorage \<Rightarrow> fault + nat \<times> bytes \<times> datastorage" where
  "local_to_netascii dst pd bufsize sb =
     ebind (l2n_scan (sb_storage sb) (sb_pos sb) 0 (sb_datalen sb) bufsize)
       (\<lambda>(ps, dstlen, datalen, found).
     ebind (if dstlen > 0
            then ebind (rd_bytes (sb_storage sb) (sb_pos sb) dstlen) (\<lambda>bs. wr_bytes dst pd bs)
            else Inr dst) (\<lambda>dst.
     let sb = sb\<lparr>sb_pos := ps, sb_datalen := datalen\<rparr> in
     if \<not> found then Inr (dstlen, dst, sb)
     else if bufsize - dstlen \<ge> 2 then
       ebind (rd_byte (sb_storage sb) ps) (\<lambda>c.
       ebind (if sb_fopt sb
              then ebind (wr_byte dst (pd + dstlen) c) (\<lambda>dst.
                Inr (dstlen + 1, dst, sb\<lparr>sb_fopt := False\<rparr>))
              else ebind (wr_byte dst (pd + dstlen) CR) (\<lambda>dst.
                ebind (wr_byte dst (pd + dstlen + 1) c) (\<lambda>dst. Inr (dstlen + 2, dst, sb))))
         (\<lambda>(dstlen, dst, sb).
       Inr (dstlen, dst, sb\<lparr>sb_pos := Suc ps, sb_datalen := datalen - 1\<rparr>)))
     else if bufsize - dstlen = 1 then
       ebind (wr_byte dst (pd + dstlen) CR) (\<lambda>dst. Inr (dstlen + 1, dst, sb\<lparr>sb_fopt := True\<rparr>))
     else Inr (dstlen, dst, sb)))"

lemma l2n_scan_progress:
  "\<lbrakk>l2n_scan st ps dstlen n bufsize = Inr (ps', dstlen', n', found)\<rbrakk> \<Longrightarrow>
   dstlen \<le> dstlen' \<and> (dstlen' = dstlen \<longrightarrow> found \<or> n = 0 \<or> bufsize \<le> dstlen) \<and>
   (found \<longrightarrow> dstlen' < bufsize)"
  by (induction st ps dstlen n bufsize rule: l2n_scan.induct)
    (auto simp: ebind_Inr_iff split: if_splits)

lemma local_to_netascii_progress:
  assumes "local_to_netascii dst pd bufsize sb = Inr (len, dst', sb')"
    and "0 < sb_datalen sb" and "0 < bufsize"
  shows "0 < len"
proof -
  obtain ps dstlen n found where s:
      "l2n_scan (sb_storage sb) (sb_pos sb) 0 (sb_datalen sb) bufsize = Inr (ps, dstlen, n, found)"
    using assms(1) by (auto simp: local_to_netascii_def ebind_Inr_iff)
  have p: "dstlen = 0 \<longrightarrow> found" "found \<longrightarrow> dstlen < bufsize"
    using l2n_scan_progress [OF s] assms(2,3) by auto
  show ?thesis
  proof (cases found)
    case False
    with p(1) assms(1) s show ?thesis
      by (auto simp: local_to_netascii_def ebind_Inr_iff Let_def split: if_splits)
  next
    case True
    then have "bufsize - dstlen \<ge> 2 \<or> bufsize - dstlen = 1" using p(2) by linarith
    with True assms(1) s show ?thesis
      by (auto simp: local_to_netascii_def ebind_Inr_iff Let_def split: if_splits)
  qed
qed

section \<open>Reading from the session buffer\<close>

text \<open>One turn of the copying in \<open>get_session_data\<close>, by the transfer mode.\<close>

definition gsd_copy :: "session \<Rightarrow> bytes \<Rightarrow> nat \<Rightarrow> nat \<Rightarrow> fault + nat \<times> bytes \<times> session" where
  "gsd_copy clses buf pm dstbufsize =
     (let sb = sesbuf clses in
      case tftpmode clses of
        TFTP_MODE_OCTET \<Rightarrow>
          (let len = (if sb_datalen sb < dstbufsize then sb_datalen sb else dstbufsize) in
           ebind (rd_bytes (sb_storage sb) (sb_pos sb) len) (\<lambda>bs.
           ebind (wr_bytes buf pm bs) (\<lambda>buf.
           Inr (len, buf,
             set_sb clses (sb\<lparr>sb_pos := sb_pos sb + len, sb_datalen := sb_datalen sb - len\<rparr>)))))
      | TFTP_MODE_NETASCII \<Rightarrow>
          ebind (local_to_netascii buf pm dstbufsize sb) (\<lambda>(len, buf, sb).
          Inr (len, buf, set_sb clses sb)))"

lemma gsd_copy_progress:
  "\<lbrakk>gsd_copy clses buf pm dstbufsize = Inr (len, buf', clses'); 0 < sb_datalen (sesbuf clses);
    0 < dstbufsize\<rbrakk> \<Longrightarrow> 0 < len"
  by (auto simp: gsd_copy_def ebind_Inr_iff Let_def split: tftp_mode.splits if_splits
      dest: local_to_netascii_progress)

text \<open>The loop of \<open>get_session_data\<close> with the write pointer \<open>pm\<close> into the message buffer; the
  result is \<open>total\<close>, or -1 after a failed load.\<close>

function gsd_loop ::
    "session \<Rightarrow> iwds \<Rightarrow> bytes \<Rightarrow> nat \<Rightarrow> nat \<Rightarrow> nat \<Rightarrow> world \<Rightarrow>
     fault + int \<times> session \<times> iwds \<times> bytes \<times> world" where
  "gsd_loop clses ads buf pm dstbufsize tot w =
     ebind (if sb_datalen (sesbuf clses) = 0 then load_data clses ads w
            else Inr (True, clses, ads, w)) (\<lambda>(ok, clses, ads, w).
     if \<not> ok then Inr (-1, clses, ads, buf, w)
     else if sb_datalen (sesbuf clses) = 0 then Inr (int tot, clses, ads, buf, w)
     else
      ebind (gsd_copy clses buf pm dstbufsize) (\<lambda>(len, buf, clses).
      if len < dstbufsize
      then gsd_loop clses ads buf (pm + len) (dstbufsize - len) (tot + len) w
      else Inr (int (tot + len), clses, ads, buf, w)))"
  by pat_completeness auto
termination
  by (relation "measure (\<lambda>(clses, ads, buf, pm, dstbufsize, tot, w). dstbufsize)")
    (auto dest!: gsd_copy_progress split: if_splits)

declare gsd_loop.simps [simp del]

definition get_session_data ::
    "session \<Rightarrow> iwds \<Rightarrow> bytes \<Rightarrow> nat \<Rightarrow> nat \<Rightarrow> world \<Rightarrow>
     fault + int \<times> session \<times> iwds \<times> bytes \<times> world" where
  "get_session_data clses ads buf dst dstbufsize w = gsd_loop clses ads buf dst dstbufsize 0 w"

section \<open>Writing to the session buffer\<close>

definition psd_copy :: "session \<Rightarrow> bytes \<Rightarrow> fault + nat \<times> session" where
  "psd_copy clses src =
     (let sb = sesbuf clses in
      case tftpmode clses of
        TFTP_MODE_OCTET \<Rightarrow>
          (let avail = sz_sub SESSION_BUFSIZE (sb_datalen sb);
               len = (if avail > length src then length src else avail) in
           ebind (wr_bytes (sb_storage sb) (sb_pos sb) (take len src)) (\<lambda>st.
           Inr (len, set_sb clses (sb\<lparr>sb_storage := st, sb_pos := sb_pos sb + len,
                                      sb_datalen := sb_datalen sb + len\<rparr>))))
      | TFTP_MODE_NETASCII \<Rightarrow>
          ebind (netascii_to_local sb src) (\<lambda>(len, sb). Inr (len, set_sb clses sb)))"

lemma n2l_scan_progress:
  "n2l_scan src avail k = (k', found) \<Longrightarrow>
   k \<le> k' \<and> (k' = k \<longrightarrow> found \<or> src = [] \<or> avail \<le> k)"
  by (induction src avail k rule: n2l_scan.induct) (auto split: if_splits)

lemma psd_copy_progress:
  "\<lbrakk>psd_copy clses src = Inr (0, clses'); src \<noteq> []\<rbrakk> \<Longrightarrow>
   sb_datalen (sesbuf clses) = SESSION_BUFSIZE \<and> sb_datalen (sesbuf clses') = SESSION_BUFSIZE"
  by (auto simp: psd_copy_def netascii_to_local_def ebind_Inr_iff Let_def
      split: tftp_mode.splits if_splits prod.splits dest: n2l_scan_progress)

lemma save_data_empties:
  "save_data clses ads w = Inr (True, clses', ads', w') \<Longrightarrow> sb_datalen (sesbuf clses') = 0"
  by (auto simp: save_data_def ebind_Inr_iff Let_def split: if_splits)

text \<open>The loop of \<open>put_session_data\<close> over the bytes of the message not yet stored.\<close>

function psd_loop ::
    "session \<Rightarrow> iwds \<Rightarrow> bytes \<Rightarrow> nat \<Rightarrow> world \<Rightarrow> fault + int \<times> session \<times> iwds \<times> world" where
  "psd_loop clses ads src tot w =
     ebind (psd_copy clses src) (\<lambda>(len, clses).
     ebind (if sb_datalen (sesbuf clses) = SESSION_BUFSIZE \<or> fin clses
            then save_data clses ads w else Inr (True, clses, ads, w)) (\<lambda>(ok, clses, ads, w).
     if \<not> ok then Inr (-1, clses, ads, w)
     else if len < length src then psd_loop clses ads (drop len src) (tot + len) w
     else Inr (int (tot + len), clses, ads, w)))"
  by pat_completeness auto
termination
proof (relation "measures [\<lambda>(clses, ads, src, tot, w). length src,
    \<lambda>(clses, ads, src, tot, w). if sb_datalen (sesbuf clses) = SESSION_BUFSIZE then 1 else 0]",
    goal_cases)
  case (2 clses ads src tot w p len clses' q ok r clses'' s ads' w')
  show ?case
  proof (cases "len = 0")
    case True
    with 2 have "sb_datalen (sesbuf clses) = SESSION_BUFSIZE" "sb_datalen (sesbuf clses') = SESSION_BUFSIZE"
      using psd_copy_progress [of clses src clses'] by auto
    moreover from this 2 have "sb_datalen (sesbuf clses'') = 0"
      using save_data_empties [of clses' ads w clses'' ads' w'] by auto
    ultimately show ?thesis using True by simp
  qed (use 2 in auto)
qed simp

declare psd_loop.simps [simp del]

definition put_session_data ::
    "session \<Rightarrow> iwds \<Rightarrow> bytes \<Rightarrow> world \<Rightarrow> fault + int \<times> session \<times> iwds \<times> world" where
  "put_session_data clses ads data w =
     (if sb_datalen (sesbuf clses) = 0 \<and> data = [] then Inr (0, clses, ads, w)
      else psd_loop clses ads data 0 w)"

section \<open>Making DATA and ACK messages\<close>

text \<open>The end both functions share: keep the message for resending.\<close>

definition keep_lastmsg :: "session \<Rightarrow> bytes \<Rightarrow> nat \<Rightarrow> world \<Rightarrow> fault + session" where
  "keep_lastmsg clses buf msglen w =
     ebind (rd_bytes buf 0 msglen) (\<lambda>bs.
     ebind (wr_bytes (lastmsg clses) 0 bs) (\<lambda>lm.
     Inr (clses\<lparr>lastmsg := lm, lastmsglen := msglen, lastsending := clock w, retrycount := 0\<rparr>)))"

definition next_blknum :: "u16 \<Rightarrow> u16" where
  "next_blknum b = (if b < TFTP_BLKNUM_MAX then b + 1 else 0)"

definition make_tftpdata_msg ::
    "session \<Rightarrow> iwds \<Rightarrow> bytes \<Rightarrow> nat \<Rightarrow> world \<Rightarrow>
     fault + int \<times> session \<times> iwds \<times> bytes \<times> world" where
  "make_tftpdata_msg clses ads buf bufsize w =
     (if bufsize < TFTP_MSGLEN_MAX then Inr (-1, clses, ads, buf, w)
      else
       ebind (wr_bytes buf 0 (put_be16 OP_DATA)) (\<lambda>buf.
       let clses = clses\<lparr>blknum := next_blknum (blknum clses)\<rparr> in
       ebind (wr_bytes buf 2 (put_be16 (blknum clses))) (\<lambda>buf.
       ebind (get_session_data clses ads buf 4 TFTP_DATALEN_MAX w) (\<lambda>(datalen, clses, ads, buf, w).
       if datalen = -1 then Inr (-1, clses, ads, buf, w)
       else
        ebind (if datalen < int TFTP_DATALEN_MAX
               then (let clses = clses\<lparr>fin := True\<rparr> in
                 ebind (close_data clses ads w) (\<lambda>(ads, w). Inr (clses, ads, w)))
               else Inr (clses, ads, w)) (\<lambda>(clses, ads, w).
        ebind (keep_lastmsg clses buf (4 + nat datalen) w) (\<lambda>clses.
        Inr (4 + datalen, clses, ads, buf, w)))))))"

definition make_tftpack_msg ::
    "session \<Rightarrow> u16 \<Rightarrow> bytes \<Rightarrow> nat \<Rightarrow> world \<Rightarrow> fault + int \<times> session \<times> bytes" where
  "make_tftpack_msg clses blk buf bufsize w =
     (if bufsize < 2 + 2 then Inr (-1, clses, buf)
      else
       ebind (wr_bytes buf 0 (put_be16 OP_ACK)) (\<lambda>buf.
       let clses = clses\<lparr>blknum := blk\<rparr> in
       ebind (wr_bytes buf 2 (put_be16 (blknum clses))) (\<lambda>buf.
       ebind (keep_lastmsg clses buf 4 w) (\<lambda>clses.
       Inr (4, clses, buf)))))"

lemma next_blknum_add: "next_blknum b = b + 1"
proof (cases "b = TFTP_BLKNUM_MAX")
  case False
  moreover have "unat b \<le> 65535" using u16_bound [of b] by linarith
  then have "b \<le> TFTP_BLKNUM_MAX" by (simp add: word_le_nat_alt)
  ultimately have "b < TFTP_BLKNUM_MAX" by (simp add: order.strict_iff_order)
  then show ?thesis by (simp add: next_blknum_def)
qed (simp add: next_blknum_def)

end
