(* ===== verification/Tftp_Data.thy ===== *)
theory Tftp_Data
  imports Tftp_Buffer
begin

text \<open>
  What the data path does to the bytes of a file when no system call fails. Going out,
  \<open>get_session_data\<close> and \<open>make_tftpdata_msg\<close> deliver the file in the form of the transfer mode
  (\<open>wire_of\<close>), in blocks: the session buffer is a \<open>byte_source\<close> again. Coming in,
  \<open>put_session_data\<close> stores the local form (\<open>local_of\<close>) of what it receives through the
  \<open>byte_sink\<close> of the data store. Memory safety of the buffer accesses is part of each lemma.
\<close>

section \<open>The forms of a file on the wire\<close>

text \<open>\<open>nvt_enc\<close> is what the server sends for a text in netascii mode: LF becomes CR LF.
  \<open>local_of\<close> is what it stores of the bytes it receives: in netascii mode every CR is dropped.\<close>

fun nvt_enc :: "bytes \<Rightarrow> bytes" where
  "nvt_enc [] = []"
| "nvt_enc (c # cs) = (if c = LF then CR # LF # nvt_enc cs else c # nvt_enc cs)"

definition wire_of :: "tftp_mode \<Rightarrow> bytes \<Rightarrow> bytes" where
  "wire_of m bs = (case m of TFTP_MODE_NETASCII \<Rightarrow> nvt_enc bs | TFTP_MODE_OCTET \<Rightarrow> bs)"

definition local_of :: "tftp_mode \<Rightarrow> bytes \<Rightarrow> bytes" where
  "local_of m bs = (case m of TFTP_MODE_NETASCII \<Rightarrow> filter (\<lambda>c. c \<noteq> CR) bs | TFTP_MODE_OCTET \<Rightarrow> bs)"

lemma nvt_enc_append [simp]: "nvt_enc (xs @ ys) = nvt_enc xs @ nvt_enc ys"
  by (induction xs rule: nvt_enc.induct) auto

lemma nvt_enc_noLF: "LF \<notin> set xs \<Longrightarrow> nvt_enc xs = xs"
  by (induction xs rule: nvt_enc.induct) auto

lemma nvt_enc_Nil [simp]: "nvt_enc xs = [] \<longleftrightarrow> xs = []"
  by (cases xs) auto

lemma wire_of_append: "wire_of m (xs @ ys) = wire_of m xs @ wire_of m ys"
  by (cases m) (auto simp: wire_of_def)

lemma wire_of_Nil [simp]: "wire_of m [] = []" "wire_of m xs = [] \<longleftrightarrow> xs = []"
  by (cases m; auto simp: wire_of_def)+

lemma local_of_nvt: "filter (\<lambda>c. c \<noteq> CR) (nvt_enc xs) = filter (\<lambda>c. c \<noteq> CR) xs"
  by (induction xs rule: nvt_enc.induct) auto

lemma local_of_append: "local_of m (xs @ ys) = local_of m xs @ local_of m ys"
  by (cases m) (auto simp: local_of_def)

section \<open>The session buffer on the way out\<close>

definition sb_bytes :: "datastorage \<Rightarrow> bytes" where
  "sb_bytes sb = take (sb_datalen sb) (drop (sb_pos sb) (sb_storage sb))"

definition sb_ok :: "datastorage \<Rightarrow> bool" where
  "sb_ok sb \<longleftrightarrow> length (sb_storage sb) = SESSION_BUFSIZE \<and> sb_pos sb + sb_datalen sb \<le> SESSION_BUFSIZE"

text \<open>\<open>fopt\<close>: the CR of the next LF has been sent at the end of the last message.\<close>

definition fopt_ok :: "tftp_mode \<Rightarrow> datastorage \<Rightarrow> bool" where
  "fopt_ok m sb \<longleftrightarrow> (sb_fopt sb \<longrightarrow> m = TFTP_MODE_NETASCII \<and> (\<exists>cs. sb_bytes sb = LF # cs))"

text \<open>The bytes on the wire the buffer still stands for.\<close>

definition sb_pend :: "tftp_mode \<Rightarrow> datastorage \<Rightarrow> bytes" where
  "sb_pend m sb = (if sb_fopt sb then tl else id) (wire_of m (sb_bytes sb))"

lemma length_sb_bytes [simp]: "sb_ok sb \<Longrightarrow> length (sb_bytes sb) = sb_datalen sb"
  by (auto simp: sb_bytes_def sb_ok_def)

lemma sb_bytes_adv:
  assumes "sb_ok sb" and "j \<le> sb_datalen sb"
  defines "sb' \<equiv> sb\<lparr>sb_pos := sb_pos sb + j, sb_datalen := sb_datalen sb - j\<rparr>"
  shows "sb_ok sb'" and "sb_bytes sb' = drop j (sb_bytes sb)"
  using assms(1,2) by (simp_all add: sb'_def sb_ok_def sb_bytes_def drop_take add.commute)

lemma sb_ok_fopt [simp]: "sb_ok (sb\<lparr>sb_fopt := b\<rparr>) = sb_ok sb"
  by (simp add: sb_ok_def)

lemma sb_bytes_fopt [simp]: "sb_bytes (sb\<lparr>sb_fopt := b\<rparr>) = sb_bytes sb"
  by (simp add: sb_bytes_def)

text \<open>The scan stops at the next LF, the end of the data or the end of the space.\<close>

lemma l2n_scan_ok:
  assumes "ps + n \<le> length st" and "k \<le> bufsize"
  shows "\<exists>j found. l2n_scan st ps k n bufsize = Inr (ps + j, k + j, n - j, found) \<and>
    j \<le> n \<and> k + j \<le> bufsize \<and> LF \<notin> set (take j (drop ps st)) \<and>
    (found \<longrightarrow> j < n \<and> k + j < bufsize \<and> st ! (ps + j) = LF) \<and> (\<not> found \<longrightarrow> j = n \<or> k + j = bufsize)"
  using assms
proof (induction st ps k n bufsize rule: l2n_scan.induct)
  case (2 st ps k n bufsize)
  show ?case
  proof (cases "k < bufsize \<and> st ! ps \<noteq> LF")
    case False
    with 2 show ?thesis
      by (intro exI [of _ 0] exI [of _ "k < bufsize"]) auto
  next
    case True
    have d: "drop ps st = st ! ps # drop (Suc ps) st"
      using 2(2) by (simp add: Cons_nth_drop_Suc)
    obtain j found where j: "l2n_scan st (Suc ps) (Suc k) n bufsize = Inr (Suc ps + j, Suc k + j, n - j, found)"
      "j \<le> n" "Suc k + j \<le> bufsize" "LF \<notin> set (take j (drop (Suc ps) st))"
      "found \<longrightarrow> j < n \<and> Suc k + j < bufsize \<and> st ! (Suc ps + j) = LF"
      "\<not> found \<longrightarrow> j = n \<or> Suc k + j = bufsize"
      using 2(1) [of "st ! ps"] 2(2,3) True by auto
    show ?thesis
      by (intro exI [of _ "Suc j"] exI [of _ found]) (use j True d 2(2) in auto)
  qed
qed (auto intro: exI [of _ False])

text \<open>The conversion after its scan: the bytes before the line feed go over as they are, the line
  feed as what fits of CR LF, or of LF when CR went out before.\<close>

lemma local_to_netascii_exec:
  assumes s: "l2n_scan (sb_storage sb) (sb_pos sb) 0 (sb_datalen sb) bufsize =
      Inr (sb_pos sb + length x, length x, sb_datalen sb - length x, found)"
    and x: "rd_bytes (sb_storage sb) (sb_pos sb) (length x) = Inr x"
    and c: "found \<Longrightarrow> length x < bufsize \<and> rd_byte (sb_storage sb) (sb_pos sb + length x) = Inr LF"
    and o: "sb_fopt sb \<Longrightarrow> x = [] \<and> found \<and> 2 \<le> bufsize"
    and len: "pd + bufsize \<le> length dst" "length x \<le> bufsize"
  defines "sb' \<equiv> sb\<lparr>sb_pos := sb_pos sb + length x, sb_datalen := sb_datalen sb - length x\<rparr>"
    and "eol \<equiv> (if \<not> found then [] else if bufsize - length x < 2 then [CR] else if sb_fopt sb then [LF] else [CR, LF])"
  shows "local_to_netascii dst pd bufsize sb = Inr (length (x @ eol), blit dst pd (x @ eol),
    if \<not> found then sb' else if bufsize - length x < 2 then sb'\<lparr>sb_fopt := True\<rparr>
    else sb'\<lparr>sb_pos := Suc (sb_pos sb'), sb_datalen := sb_datalen sb' - 1, sb_fopt := False\<rparr>)"
proof -
  have d: "(if 0 < length x then ebind (rd_bytes (sb_storage sb) (sb_pos sb) (length x)) (\<lambda>bs. wr_bytes dst pd bs)
      else Inr dst) = Inr (blit dst pd x)"
    using x len by simp
  note e = local_to_netascii_def s ebind_simps prod.case d
  have w: "wr_byte (blit dst pd x) (pd + length x) CR = Inr (blit dst pd (x @ [CR]))"
      "wr_byte (blit dst pd x) (pd + length x) LF = Inr (blit dst pd (x @ [LF]))" if found
    using c [OF that] len by (intro wr_byte_blit; simp)+
  have w2: "wr_byte (blit dst pd (x @ [CR])) (pd + length x + 1) LF = Inr (blit dst pd (x @ [CR, LF]))"
    if "2 \<le> bufsize - length x" using wr_byte_blit [of pd "x @ [CR]" dst] that len by simp
  consider (last) "\<not> found" | (one) "found" "bufsize - length x = 1" "\<not> sb_fopt sb"
    | (opt) "found" "2 \<le> bufsize - length x" "sb_fopt sb" "x = []" | (two) "found" "2 \<le> bufsize - length x" "\<not> sb_fopt sb"
    using c o by fastforce
  then show ?thesis
  proof cases
    case last
    then show ?thesis unfolding e by (simp add: Let_def sb'_def eol_def)
  next
    case one
    then show ?thesis unfolding e using w by (simp add: Let_def sb'_def eol_def del: wr_byte_Inr)
  next
    case opt
    then show ?thesis unfolding e using w c by (cases sb) (simp add: Let_def sb'_def eol_def del: wr_byte_Inr)
  next
    case two
    then show ?thesis unfolding e using w w2 c by (cases sb) (simp add: Let_def sb'_def eol_def del: wr_byte_Inr)
  qed
qed

text \<open>The scan splits what the buffer holds at the first line feed, or at the end of the space.\<close>

lemma l2n_scan_split:
  assumes ok: "sb_ok sb"
  obtains x y found where "sb_bytes sb = x @ y" "LF \<notin> set x" "length x \<le> bufsize"
    "l2n_scan (sb_storage sb) (sb_pos sb) 0 (sb_datalen sb) bufsize =
      Inr (sb_pos sb + length x, length x, sb_datalen sb - length x, found)"
    "rd_bytes (sb_storage sb) (sb_pos sb) (length x) = Inr x"
    "found \<longrightarrow> length x < bufsize \<and> (\<exists>z. y = LF # z) \<and> rd_byte (sb_storage sb) (sb_pos sb + length x) = Inr LF"
    "\<not> found \<longrightarrow> y = [] \<or> length x = bufsize"
proof -
  let ?st = "sb_storage sb" and ?d = "sb_bytes sb"
  have b: "sb_pos sb + sb_datalen sb \<le> length ?st" using ok by (simp add: sb_ok_def)
  obtain j found where s: "l2n_scan ?st (sb_pos sb) 0 (sb_datalen sb) bufsize =
        Inr (sb_pos sb + j, j, sb_datalen sb - j, found)"
      "j \<le> sb_datalen sb" "j \<le> bufsize" "LF \<notin> set (take j (drop (sb_pos sb) ?st))"
      "found \<longrightarrow> j < sb_datalen sb \<and> j < bufsize \<and> ?st ! (sb_pos sb + j) = LF"
      "\<not> found \<longrightarrow> j = sb_datalen sb \<or> j = bufsize"
    using l2n_scan_ok [OF b, of 0 bufsize] by auto
  have x: "take j ?d = take j (drop (sb_pos sb) ?st)" "length (take j ?d) = j"
    using s(2) b ok by (auto simp: sb_bytes_def min_def)
  have "drop j ?d = LF # drop (Suc j) ?d" if found
    using s(5) that ok b Cons_nth_drop_Suc [of j ?d] by (simp add: sb_bytes_def)
  then show thesis
    by (intro that [of "take j ?d" "drop j ?d" found] append_take_drop_id [symmetric]) (use s x b ok in auto)
qed

text \<open>One conversion puts a part of the pending bytes into the message; \<open>fopt\<close> is set only at
  the end of the space.\<close>

lemma local_to_netascii_ok:
  assumes ok: "sb_ok sb" "fopt_ok TFTP_MODE_NETASCII sb" and n: "0 < sb_datalen sb" "0 < bufsize"
    and f: "sb_fopt sb \<longrightarrow> 2 \<le> bufsize" and len: "pd + bufsize \<le> length dst"
  shows "\<exists>out sb'. local_to_netascii dst pd bufsize sb =
      Inr (length out, take pd dst @ out @ drop (pd + length out) dst, sb') \<and>
    length out \<le> bufsize \<and> sb_ok sb' \<and> fopt_ok TFTP_MODE_NETASCII sb' \<and>
    sb_pend TFTP_MODE_NETASCII sb = out @ sb_pend TFTP_MODE_NETASCII sb' \<and>
    (sb_fopt sb' \<longrightarrow> length out = bufsize)"
proof -
  obtain x y found where s: "sb_bytes sb = x @ y" "LF \<notin> set x" "length x \<le> bufsize"
    "l2n_scan (sb_storage sb) (sb_pos sb) 0 (sb_datalen sb) bufsize =
      Inr (sb_pos sb + length x, length x, sb_datalen sb - length x, found)"
    "rd_bytes (sb_storage sb) (sb_pos sb) (length x) = Inr x"
    "found \<longrightarrow> length x < bufsize \<and> (\<exists>z. y = LF # z) \<and> rd_byte (sb_storage sb) (sb_pos sb + length x) = Inr LF"
    "\<not> found \<longrightarrow> y = [] \<or> length x = bufsize"
    using l2n_scan_split [OF ok(1), where bufsize = bufsize] .
  have j: "length x + length y = sb_datalen sb" using s(1) length_sb_bytes [OF ok(1)] by (metis length_append)
  have o: "x = [] \<and> found \<and> 2 \<le> bufsize" if "sb_fopt sb"
    using that s(1,2,7) ok(2) f n(2) by (cases x) (auto simp: fopt_ok_def)
  have w: "wire_of TFTP_MODE_NETASCII (sb_bytes sb) = x @ wire_of TFTP_MODE_NETASCII y"
    by (simp add: s(1) wire_of_def nvt_enc_noLF [OF s(2)])
  note e = local_to_netascii_exec [OF s(4,5) _ o len s(3)]
  note adv = sb_bytes_adv [OF ok(1), of "length x"] sb_bytes_adv [OF ok(1), of "Suc (length x)"]
  show ?thesis
  proof (cases found)
    case False
    with e s adv w j o show ?thesis
      by (intro exI [of _ x]) (auto simp: fopt_ok_def sb_pend_def)
  next
    case found: True
    then obtain z where z: "y = LF # z" using s(6) by blast
    show ?thesis
    proof (cases "bufsize - length x < 2")
      case True
      then have l: "length x + 1 = bufsize" "\<not> sb_fopt sb" using s(6) found o by auto
      with e s adv w j found z True show ?thesis
        by (intro exI [of _ "x @ [CR]"]) (auto simp: fopt_ok_def sb_pend_def wire_of_def)
    next
      case False
      with e s adv w j o found z show ?thesis
        by (intro exI [of _ "x @ (if sb_fopt sb then [LF] else [CR, LF])"])
          (auto simp: fopt_ok_def sb_pend_def wire_of_def)
    qed
  qed
qed

lemma gsd_copy_ok:
  assumes ok: "sb_ok (sesbuf clses)" "fopt_ok (tftpmode clses) (sesbuf clses)"
    and n: "0 < sb_datalen (sesbuf clses)" "0 < sz"
    and f: "sb_fopt (sesbuf clses) \<longrightarrow> 2 \<le> sz" and len: "pm + sz \<le> length buf"
  shows "\<exists>out sb'. gsd_copy clses buf pm sz =
      Inr (length out, take pm buf @ out @ drop (pm + length out) buf, set_sb clses sb') \<and>
    length out \<le> sz \<and> sb_ok sb' \<and> fopt_ok (tftpmode clses) sb' \<and>
    sb_pend (tftpmode clses) (sesbuf clses) = out @ sb_pend (tftpmode clses) sb' \<and>
    (sb_fopt sb' \<longrightarrow> length out = sz)"
proof (cases "tftpmode clses")
  case TFTP_MODE_NETASCII
  then obtain out sb' where "local_to_netascii buf pm sz (sesbuf clses) =
      Inr (length out, take pm buf @ out @ drop (pm + length out) buf, sb')"
    "length out \<le> sz" "sb_ok sb'" "fopt_ok TFTP_MODE_NETASCII sb'"
    "sb_pend TFTP_MODE_NETASCII (sesbuf clses) = out @ sb_pend TFTP_MODE_NETASCII sb'"
    "sb_fopt sb' \<longrightarrow> length out = sz"
    using local_to_netascii_ok [OF ok(1) _ n f len] ok(2) by auto
  then show ?thesis
    using TFTP_MODE_NETASCII by (intro exI [of _ out] exI [of _ sb']) (simp add: gsd_copy_def)
next
  case TFTP_MODE_OCTET
  let ?sb = "sesbuf clses"
  define j where "j = (if sb_datalen ?sb < sz then sb_datalen ?sb else sz)"
  have j: "j \<le> sb_datalen ?sb" "j \<le> sz" by (auto simp: j_def)
  let ?sb' = "?sb\<lparr>sb_pos := sb_pos ?sb + j, sb_datalen := sb_datalen ?sb - j\<rparr>"
  let ?out = "take j (sb_bytes ?sb)"
  have lo: "length ?out = j" using j ok(1) by simp
  have "rd_bytes (sb_storage ?sb) (sb_pos ?sb) j = Inr ?out"
    using ok(1) j by (simp add: sb_ok_def sb_bytes_def min_def)
  moreover have "wr_bytes buf pm ?out = Inr (take pm buf @ ?out @ drop (pm + length ?out) buf)"
    using len j lo by simp
  ultimately have "gsd_copy clses buf pm sz =
      Inr (length ?out, take pm buf @ ?out @ drop (pm + length ?out) buf, set_sb clses ?sb')"
    using lo by (simp add: gsd_copy_def TFTP_MODE_OCTET Let_def j_def [symmetric])
  moreover have "\<not> sb_fopt ?sb" using ok(2) TFTP_MODE_OCTET by (auto simp: fopt_ok_def)
  ultimately show ?thesis
    using sb_bytes_adv [OF ok(1) j(1)] TFTP_MODE_OCTET lo j(2)
    by (intro exI [of _ ?out] exI [of _ ?sb']) (simp add: fopt_ok_def sb_pend_def wire_of_def)
qed

text \<open>A load refills the empty buffer with the next part of the file.\<close>

lemma load_data_ok:
  assumes r: "ds_reads w0 dir (clsock clses) (filename clses) (ads, w) r" and ok: "sb_ok (sesbuf clses)"
  shows "\<exists>sb' ads' w'. load_data clses ads w = Inr (True, set_sb clses sb', ads', w') \<and> sb_ok sb' \<and>
    sb_bytes sb' = take SESSION_BUFSIZE r \<and> sb_fopt sb' = sb_fopt (sesbuf clses) \<and>
    ds_reads w0 dir (clsock clses) (filename clses) (ads', w') (drop SESSION_BUFSIZE r)"
proof -
  define bs where "bs = take SESSION_BUFSIZE r"
  let ?sb = "sesbuf clses"
  have lb: "length bs \<le> SESSION_BUFSIZE" by (simp add: bs_def)
  obtain s' where s: "ds_read (clsock clses) (filename clses) (sb_storage ?sb) (ads, w) SESSION_BUFSIZE =
        Inr (bs, 0, s')"
      "ds_reads w0 dir (clsock clses) (filename clses) s' (drop SESSION_BUFSIZE r)"
    using ds_src.read_rest [OF r, of SESSION_BUFSIZE SESSION_BUFSIZE "sb_storage ?sb"]
    unfolding bs_def by auto
  obtain ads' w' where s': "s' = (ads', w')" by (cases s')
  with s(1) obtain req where q: "iwds_read ads \<lparr>dsid = clsock clses, dfile = filename clses,
      dbuf = sb_storage ?sb, dlen = SESSION_BUFSIZE, derr = 0\<rparr> w = Inr (bs, req, ads', w')" "derr req = 0"
    by (auto simp: ds_read_def ebind_Inr_iff)
  let ?st = "bs @ drop (length bs) (sb_storage ?sb)"
  let ?sb' = "?sb\<lparr>sb_storage := ?st, sb_datalen := length bs, sb_pos := 0\<rparr>"
  have "wr_bytes (sb_storage ?sb) 0 bs = Inr ?st"
    using ok lb by (simp add: sb_ok_def)
  then have "load_data clses ads w = Inr (True, set_sb clses ?sb', ads', w')"
    unfolding load_data_def Let_def q(1) using q(2) by simp
  moreover have "sb_ok ?sb'" "sb_bytes ?sb' = bs"
    using ok lb by (simp_all add: sb_ok_def sb_bytes_def)
  ultimately show ?thesis using s(2) s' unfolding bs_def by auto
qed

section \<open>The session as a source of DATA payloads\<close>

text \<open>\<open>ses_sends\<close>: what the session has still to send of its file, in the form of its mode.\<close>

definition ses_sends :: "world \<Rightarrow> string \<Rightarrow> session \<times> iwds \<times> world \<Rightarrow> bytes \<Rightarrow> bool" where
  "ses_sends w0 dir s out \<longleftrightarrow>
     (case s of (clses, ads, w) \<Rightarrow>
       sb_ok (sesbuf clses) \<and> fopt_ok (tftpmode clses) (sesbuf clses) \<and>
       (\<exists>r. ds_reads w0 dir (clsock clses) (filename clses) (ads, w) r \<and>
          out = sb_pend (tftpmode clses) (sesbuf clses) @ wire_of (tftpmode clses) r))"

lemma ses_sendsE:
  assumes "ses_sends w0 dir (clses, ads, w) out"
  obtains r where "sb_ok (sesbuf clses)" "fopt_ok (tftpmode clses) (sesbuf clses)"
    "ds_reads w0 dir (clsock clses) (filename clses) (ads, w) r"
    "out = sb_pend (tftpmode clses) (sesbuf clses) @ wire_of (tftpmode clses) r"
  using assms by (auto simp: ses_sends_def)

text \<open>The check at the start of a turn refills an empty buffer; the buffer stays empty only at
  the end of the file.\<close>

lemma gsd_refill:
  assumes "ses_sends w0 dir (clses, ads, w) out"
  obtains sb1 ads1 w1 where "(if sb_datalen (sesbuf clses) = 0 then load_data clses ads w
        else Inr (True, clses, ads, w)) = Inr (True, set_sb clses sb1, ads1, w1)"
    "ses_sends w0 dir (set_sb clses sb1, ads1, w1) out" "sb_fopt sb1 = sb_fopt (sesbuf clses)"
    "sb_datalen sb1 = 0 \<longrightarrow> out = []"
proof (cases "sb_datalen (sesbuf clses) = 0")
  case True
  let ?m = "tftpmode clses" and ?sb = "sesbuf clses"
  let ?R = "ds_reads w0 dir (clsock clses) (filename clses)"
  obtain r where r: "sb_ok ?sb" "fopt_ok ?m ?sb" "?R (ads, w) r" "out = sb_pend ?m ?sb @ wire_of ?m r"
    using ses_sendsE [OF assms] .
  have e: "sb_bytes ?sb = []" using True by (simp add: sb_bytes_def)
  then have nf: "\<not> sb_fopt ?sb" using r(2) by (auto simp: fopt_ok_def)
  have o: "out = wire_of ?m r" using r(4) e nf by (simp add: sb_pend_def)
  obtain sb1 ads1 w1 where x: "load_data clses ads w = Inr (True, set_sb clses sb1, ads1, w1)"
      "sb_ok sb1" "sb_bytes sb1 = take SESSION_BUFSIZE r" "sb_fopt sb1 = sb_fopt ?sb"
      "?R (ads1, w1) (drop SESSION_BUFSIZE r)"
    using load_data_ok [OF r(3,1)] by blast
  have "ses_sends w0 dir (set_sb clses sb1, ads1, w1) out"
    using x nf o wire_of_append [of ?m "take SESSION_BUFSIZE r" "drop SESSION_BUFSIZE r"]
    by (auto simp: ses_sends_def sb_pend_def fopt_ok_def)
  moreover have "out = []" if "sb_datalen sb1 = 0"
    using length_sb_bytes [OF x(2)] that o unfolding x(3) by (cases r) simp_all
  ultimately show thesis using that [of sb1 ads1 w1] x True by simp
next
  case False
  then show thesis using that [of "sesbuf clses" ads w] assms by simp
qed

text \<open>One turn sends the next part of what the session has to send.\<close>

lemma gsd_turn:
  assumes "ses_sends w0 dir (clses, ads, w) out" and "0 < sb_datalen (sesbuf clses)" "0 < sz"
    and "sb_fopt (sesbuf clses) \<longrightarrow> 2 \<le> sz" and "pm + sz \<le> length buf"
  obtains bs out2 sb2 where "gsd_copy clses buf pm sz = Inr (length bs, blit buf pm bs, set_sb clses sb2)"
    "0 < length bs" "length bs \<le> sz" "out = bs @ out2"
    "ses_sends w0 dir (set_sb clses sb2, ads, w) out2" "sb_fopt sb2 \<longrightarrow> length bs = sz"
proof -
  obtain r where r: "sb_ok (sesbuf clses)" "fopt_ok (tftpmode clses) (sesbuf clses)"
      "ds_reads w0 dir (clsock clses) (filename clses) (ads, w) r"
      "out = sb_pend (tftpmode clses) (sesbuf clses) @ wire_of (tftpmode clses) r"
    using ses_sendsE [OF assms(1)] .
  obtain bs sb2 where c: "gsd_copy clses buf pm sz = Inr (length bs, blit buf pm bs, set_sb clses sb2)"
      "length bs \<le> sz" "sb_ok sb2" "fopt_ok (tftpmode clses) sb2"
      "sb_pend (tftpmode clses) (sesbuf clses) = bs @ sb_pend (tftpmode clses) sb2"
      "sb_fopt sb2 \<longrightarrow> length bs = sz"
    using gsd_copy_ok [OF r(1,2) assms(2-5)] by blast
  have "ses_sends w0 dir (set_sb clses sb2, ads, w) (sb_pend (tftpmode clses) sb2 @ wire_of (tftpmode clses) r)"
    using c(3,4) r(3) by (auto simp: ses_sends_def)
  with that [OF c(1) gsd_copy_progress [OF c(1) assms(2,3)] c(2) _ _ c(6)] r(4) c(5) show thesis by simp
qed

lemma gsd_loop_ok:
  assumes "ses_sends w0 dir (clses, ads, w) out" and "0 < sz"
    and "sb_fopt (sesbuf clses) \<longrightarrow> 2 \<le> sz" and "pm + sz \<le> length buf"
  shows "\<exists>sb' ads' w'. gsd_loop clses ads buf pm sz tot w =
      Inr (int (tot + length (take sz out)), set_sb clses sb', ads',
        take pm buf @ take sz out @ drop (pm + length (take sz out)) buf, w') \<and>
    ses_sends w0 dir (set_sb clses sb', ads', w') (drop sz out)"
  using assms
proof (induction sz arbitrary: clses ads w out pm buf tot rule: less_induct)
  case (less sz)
  obtain sb1 ads1 w1 where l: "(if sb_datalen (sesbuf clses) = 0 then load_data clses ads w
        else Inr (True, clses, ads, w)) = Inr (True, set_sb clses sb1, ads1, w1)"
      "ses_sends w0 dir (set_sb clses sb1, ads1, w1) out" "sb_fopt sb1 = sb_fopt (sesbuf clses)"
      "sb_datalen sb1 = 0 \<longrightarrow> out = []"
    using gsd_refill [OF less.prems(1)] .
  let ?c1 = "set_sb clses sb1"
  show ?case
  proof (cases "sb_datalen sb1 = 0")
    case True
    then have "gsd_loop clses ads buf pm sz tot w = Inr (int tot, ?c1, ads1, buf, w1)"
      by (subst gsd_loop.simps) (simp only: l(1) ebind_simps prod.case, simp)
    with l(2,4) True show ?thesis by auto
  next
    case False
    then have d: "0 < sb_datalen (sesbuf ?c1)" and f: "sb_fopt (sesbuf ?c1) \<longrightarrow> 2 \<le> sz"
      using l(3) less.prems(3) by simp_all
    obtain bs out2 sb2 where c: "gsd_copy ?c1 buf pm sz = Inr (length bs, blit buf pm bs, set_sb clses sb2)"
        "0 < length bs" "length bs \<le> sz" "out = bs @ out2"
        "ses_sends w0 dir (set_sb clses sb2, ads1, w1) out2" "sb_fopt sb2 \<longrightarrow> length bs = sz"
      using gsd_turn [OF l(2) d less.prems(2) f less.prems(4)] unfolding set_sb_simps .
    let ?sz = "sz - length bs"
    have step: "gsd_loop clses ads buf pm sz tot w =
        (if length bs < sz
         then gsd_loop (set_sb clses sb2) ads1 (blit buf pm bs) (pm + length bs) ?sz (tot + length bs) w1
         else Inr (int (tot + length bs), set_sb clses sb2, ads1, blit buf pm bs, w1))"
      by (subst gsd_loop.simps) (simp only: l(1) c(1) ebind_simps prod.case, simp add: False)
    show ?thesis
    proof (cases "length bs < sz")
      case True
      obtain sb3 ads3 w3 where g: "gsd_loop (set_sb clses sb2) ads1 (blit buf pm bs) (pm + length bs) ?sz (tot + length bs) w1 =
          Inr (int (tot + length bs + length (take ?sz out2)), set_sb clses sb3, ads3,
            blit (blit buf pm bs) (pm + length bs) (take ?sz out2), w3)"
          "ses_sends w0 dir (set_sb clses sb3, ads3, w3) (drop ?sz out2)"
        using less.IH [OF _ c(5), of ?sz "pm + length bs" "blit buf pm bs" "tot + length bs"] c(2,6) True less.prems(4)
        unfolding set_sb_simps by auto
      have t: "take sz out = bs @ take ?sz out2" "drop sz out = drop ?sz out2" using c(3,4) by simp_all
      have b: "blit (blit buf pm bs) (pm + length bs) (take ?sz out2) = blit buf pm (take sz out)"
        unfolding t by (rule blit_blit) (use less.prems(4) True in auto)
      have "gsd_loop clses ads buf pm sz tot w =
          Inr (int (tot + length (take sz out)), set_sb clses sb3, ads3, blit buf pm (take sz out), w3)"
        using step True unfolding g(1) b by (simp add: t(1) add.assoc)
      with g(2) show ?thesis unfolding t(2) by blast
    next
      case False
      with c(3) have "length bs = sz" by simp
      with step False c(4,5) show ?thesis by auto
    qed
  qed
qed

text \<open>With its message buffer the session is a byte source, between the data store and the network.\<close>

definition ses_src_rest :: "world \<Rightarrow> string \<Rightarrow> session \<times> iwds \<times> bytes \<times> world \<Rightarrow> bytes \<Rightarrow> bool" where
  "ses_src_rest w0 dir s out \<longleftrightarrow>
     (case s of (clses, ads, buf, w) \<Rightarrow>
       length buf = TFTP_MSGLEN_MAX \<and> ses_sends w0 dir (clses, ads, w) out)"

definition ses_src_read :: "session \<times> iwds \<times> bytes \<times> world \<Rightarrow> nat \<Rightarrow>
    fault + bytes \<times> int \<times> session \<times> iwds \<times> bytes \<times> world" where
  "ses_src_read s n = (case s of (clses, ads, buf, w) \<Rightarrow>
     ebind (get_session_data clses ads buf 4 n w) (\<lambda>(len, clses, ads, buf, w).
     Inr (take (nat len) (drop 4 buf), if len = -1 then IW_ERR else IW_OK, clses, ads, buf, w)))"

lemma get_session_data_ok:
  assumes "ses_sends w0 dir (clses, ads, w) out" and "2 \<le> n" and "4 + n \<le> length buf"
  shows "\<exists>sb' ads' w'. get_session_data clses ads buf 4 n w =
      Inr (int (length (take n out)), set_sb clses sb', ads',
        take 4 buf @ take n out @ drop (4 + length (take n out)) buf, w') \<and>
    ses_sends w0 dir (set_sb clses sb', ads', w') (drop n out)"
  using gsd_loop_ok [OF assms(1), of n 4 buf 0] assms(2,3) unfolding get_session_data_def by simp

interpretation ses_src: byte_source "ses_src_rest w0 dir" ses_src_read 2 TFTP_DATALEN_MAX
  for w0 dir
proof unfold_locales
  fix s out n
  assume r: "ses_src_rest w0 dir s out" and n: "2 \<le> n" "n \<le> TFTP_DATALEN_MAX"
  obtain clses ads buf w where s: "s = (clses, ads, buf, w)" by (cases s)
  have buf: "length buf = TFTP_MSGLEN_MAX" and ss: "ses_sends w0 dir (clses, ads, w) out"
    using r s by (simp_all add: ses_src_rest_def)
  let ?p = "take n out"
  let ?buf = "take 4 buf @ ?p @ drop (4 + length ?p) buf"
  have l4: "length (take 4 buf) = 4" and le: "4 + n \<le> length buf" using buf n(2) by simp_all
  have lb: "length ?buf = TFTP_MSGLEN_MAX" using buf n by (simp add: min_def)
  obtain sb' ads' w' where g: "get_session_data clses ads buf 4 n w =
        Inr (int (length ?p), set_sb clses sb', ads', ?buf, w')"
      "ses_sends w0 dir (set_sb clses sb', ads', w') (drop n out)"
    using get_session_data_ok [OF ss n(1) le] by blast
  have "take (length bs) (drop 4 (take 4 buf @ bs @ x)) = bs" for bs x
    using l4 by simp
  from this [of ?p] have "take (length ?p) (drop 4 ?buf) = ?p" .
  then have "ses_src_read s n = Inr (?p, IW_OK, set_sb clses sb', ads', ?buf, w')"
    unfolding s ses_src_read_def prod.case g(1) ebind_simps by simp
  with g(2) lb show "\<exists>s'. ses_src_read s n = Inr (?p, IW_OK, s') \<and> ses_src_rest w0 dir s' (drop n out)"
    by (auto simp: ses_src_rest_def)
qed

section \<open>DATA and ACK messages\<close>

lemma close_data_ok:
  assumes "ds_ok ads w ps"
  shows "\<exists>ads' w' ps'. close_data clses ads w = Inr (ads', w') \<and> ds_ok ads' w' ps' \<and>
    ds_stream ads' w' ps' (clsock clses) (filename clses) = None \<and> fsys w' = fsys w \<and>
    ds_step ads w ads' w'"
  using iwds_close_data [OF assms, of "\<lparr>dsid = clsock clses, dfile = filename clses, dbuf = [], dlen = 0,
      derr = 0\<rparr>"] by (auto simp: close_data_def)

text \<open>\<open>ses_closed\<close>: the data store has nothing open for the session, the files are those of \<open>w0\<close>.\<close>

definition ses_closed :: "(string \<Rightarrow> fnode option) \<Rightarrow> session \<Rightarrow> iwds \<Rightarrow> world \<Rightarrow> bool" where
  "ses_closed F clses ads w \<longleftrightarrow> fsys w = F \<and>
     (\<exists>ps. ds_ok ads w ps \<and> ds_stream ads w ps (clsock clses) (filename clses) = None)"

text \<open>The last message of the session is the datagram \<open>msg\<close>, sent at the time \<open>t\<close>.\<close>

definition last_sent :: "session \<Rightarrow> bytes \<Rightarrow> int \<Rightarrow> bool" where
  "last_sent clses msg t \<longleftrightarrow> length (lastmsg clses) = TFTP_MSGLEN_MAX \<and> lastmsglen clses = length msg \<and>
     take (length msg) (lastmsg clses) = msg \<and> lastsending clses = t \<and> retrycount clses = 0"

lemma keep_lastmsg_ok:
  assumes "length (lastmsg clses) = TFTP_MSGLEN_MAX" and "length buf = TFTP_MSGLEN_MAX"
    and "take n buf = msg" and "length msg = n"
  shows "\<exists>lm. keep_lastmsg clses buf n w =
      Inr (clses\<lparr>lastmsg := lm, lastmsglen := n, lastsending := clock w, retrycount := 0\<rparr>) \<and>
    length lm = TFTP_MSGLEN_MAX \<and> take n lm = msg"
proof -
  have n: "n \<le> TFTP_MSGLEN_MAX" using assms(2-4) by auto
  have "rd_bytes buf 0 n = Inr msg" using n assms(2,3) by simp
  moreover have "wr_bytes (lastmsg clses) 0 msg = Inr (msg @ drop n (lastmsg clses))"
    using n assms(1,4) by simp
  ultimately show ?thesis
    using assms(1,4) n by (intro exI [of _ "msg @ drop n (lastmsg clses)"]) (simp add: keep_lastmsg_def)
qed

lemma make_tftpack_msg_ok:
  assumes "length (lastmsg clses) = TFTP_MSGLEN_MAX" and "length buf = TFTP_MSGLEN_MAX"
  shows "\<exists>lm buf'. make_tftpack_msg clses blk buf TFTP_MSGLEN_MAX w =
      Inr (4, clses\<lparr>blknum := blk, lastmsg := lm, lastmsglen := 4, lastsending := clock w, retrycount := 0\<rparr>,
        buf') \<and>
    length buf' = TFTP_MSGLEN_MAX \<and> take 4 buf' = enc_ack \<lparr>ak_blknum = blk\<rparr> \<and>
    length lm = TFTP_MSGLEN_MAX \<and> take 4 lm = enc_ack \<lparr>ak_blknum = blk\<rparr>"
proof -
  let ?m = "enc_ack \<lparr>ak_blknum = blk\<rparr>" and ?buf = "enc_ack \<lparr>ak_blknum = blk\<rparr> @ drop 4 buf"
  have "wr_bytes buf 0 (put_be16 OP_ACK) = Inr (put_be16 OP_ACK @ drop 2 buf)"
    using assms(2) by (simp add: numeral_2_eq_2)
  moreover have "wr_bytes (put_be16 OP_ACK @ drop 2 buf) 2 (put_be16 blk) = Inr ?buf"
    using assms(2) by (simp add: enc_ack_def)
  ultimately have "make_tftpack_msg clses blk buf TFTP_MSGLEN_MAX w =
      ebind (keep_lastmsg (clses\<lparr>blknum := blk\<rparr>) ?buf 4 w) (\<lambda>clses. Inr (4, clses, ?buf))"
    by (simp add: make_tftpack_msg_def Let_def)
  moreover have l: "length ?m = 4" by (simp add: enc_ack_def)
  then have "take 4 ?buf = ?m" "length ?buf = TFTP_MSGLEN_MAX" using assms(2) by simp_all
  ultimately show ?thesis
    using keep_lastmsg_ok [of "clses\<lparr>blknum := blk\<rparr>" ?buf 4 ?m w] l assms(1) by auto
qed

lemma ses_sends_cong:
  "\<lbrakk>ses_sends w0 dir (c, ads, w) out; sesbuf c' = sesbuf c; tftpmode c' = tftpmode c;
    clsock c' = clsock c; filename c' = filename c\<rbrakk> \<Longrightarrow> ses_sends w0 dir (c', ads, w) out"
  by (simp add: ses_sends_def)

lemma ses_sends_world: "ses_sends w0 dir (c, ads, w) out \<Longrightarrow> \<exists>ps. ds_ok ads w ps \<and> fsys w = fsys w0 \<and>
    dspath ads = dir \<and> fstep None w0 w \<and> fault_free w0"
  by (auto simp: ses_sends_def ds_reads_def reading_def)

text \<open>The header and the payload of the next block.\<close>

lemma data_msg_fill:
  assumes s: "ses_sends w0 dir (clses, ads, w) out" and buf: "length buf = TFTP_MSGLEN_MAX"
  defines "p \<equiv> take TFTP_DATALEN_MAX out" and "msg \<equiv> enc_data \<lparr>dt_blknum = blknum clses, dt_data = take TFTP_DATALEN_MAX out\<rparr>"
  obtains sb1 ads1 w1 buf1 where "wr_bytes buf 0 (put_be16 OP_DATA) = Inr (put_be16 OP_DATA @ drop 2 buf)"
    "wr_bytes (put_be16 OP_DATA @ drop 2 buf) 2 (put_be16 (blknum clses)) = Inr buf1"
    "get_session_data clses ads buf1 4 TFTP_DATALEN_MAX w =
      Inr (int (length p), set_sb clses sb1, ads1, msg @ drop (length msg) buf, w1)"
    "ses_sends w0 dir (set_sb clses sb1, ads1, w1) (drop TFTP_DATALEN_MAX out)"
    "length msg = 4 + length p"
proof -
  let ?h = "put_be16 OP_DATA @ put_be16 (blknum clses)"
  have wb: "wr_bytes buf 0 (put_be16 OP_DATA) = Inr (put_be16 OP_DATA @ drop 2 buf)"
      "wr_bytes (put_be16 OP_DATA @ drop 2 buf) 2 (put_be16 (blknum clses)) = Inr (?h @ drop 4 buf)"
    using buf by (simp add: numeral_2_eq_2, simp)
  have le: "4 + TFTP_DATALEN_MAX \<le> length (?h @ drop 4 buf)" using buf by simp
  have l: "length msg = 4 + length p" by (simp add: msg_def p_def enc_data_def)
  have "take 4 (?h @ drop 4 buf) @ p @ drop (4 + length p) (?h @ drop 4 buf) = msg @ drop (length msg) buf"
    using buf unfolding l by (simp add: add.commute msg_def p_def enc_data_def)
  with that wb l get_session_data_ok [OF s _ le, folded p_def] show thesis by auto
qed

text \<open>A short block closes the file.\<close>

lemma data_msg_close:
  assumes s: "ses_sends w0 dir (c, ads, w) rest" and n: "n \<le> TFTP_DATALEN_MAX"
  defines "c' \<equiv> c\<lparr>fin := fin c \<or> n < TFTP_DATALEN_MAX\<rparr>"
  obtains ads' w' where "(if int n < int TFTP_DATALEN_MAX
      then (let clses = c\<lparr>fin := True\<rparr> in ebind (close_data clses ads w) (\<lambda>(ads, w). Inr (clses, ads, w)))
      else Inr (c, ads, w)) = Inr (c', ads', w')"
    "fstep None w0 w'" "dspath ads' = dir"
    "if n = TFTP_DATALEN_MAX then ses_sends w0 dir (c', ads', w') rest else ses_closed (fsys w0) c' ads' w'"
proof -
  obtain ps where w: "ds_ok ads w ps" "fsys w = fsys w0" "dspath ads = dir" "fstep None w0 w"
    using ses_sends_world [OF s] by blast
  show thesis
  proof (cases "n = TFTP_DATALEN_MAX")
    case True
    then have "c' = c" by (simp add: c'_def)
    with True that [of ads w] w s show thesis by simp
  next
    case False
    then have lt: "n < TFTP_DATALEN_MAX" using n by simp
    obtain ads' w' ps' where x: "close_data c' ads w = Inr (ads', w')" "ds_ok ads' w' ps'"
        "ds_stream ads' w' ps' (clsock c') (filename c') = None" "fsys w' = fsys w" "ds_step ads w ads' w'"
      using close_data_ok [OF w(1), of c'] by blast
    have "fstep None w0 w'" "dspath ads' = dir"
      using x(5) w(3,4) by (auto simp: ds_step_def intro: fstep_trans)
    with that [of ads' w'] x w(2) lt show thesis by (auto simp: ses_closed_def c'_def)
  qed
qed

text \<open>\<open>make_tftpdata_msg\<close> sends the next block; after a short one the file is closed.\<close>

lemma make_tftpdata_msg_ok:
  assumes s: "ses_sends w0 dir (clses, ads, w) out" and buf: "length buf = TFTP_MSGLEN_MAX"
    and lm: "length (lastmsg clses) = TFTP_MSGLEN_MAX"
  defines "p \<equiv> take TFTP_DATALEN_MAX out" and "b \<equiv> next_blknum (blknum clses)"
  shows "\<exists>sb' lm' ads' buf' w' clses'. make_tftpdata_msg clses ads buf TFTP_MSGLEN_MAX w =
      Inr (4 + int (length p), clses', ads', buf', w') \<and>
    clses' = clses\<lparr>sesbuf := sb', blknum := b, fin := fin clses \<or> length p < TFTP_DATALEN_MAX,
        lastmsg := lm', lastmsglen := 4 + length p, lastsending := clock w, retrycount := 0\<rparr> \<and>
    length buf' = TFTP_MSGLEN_MAX \<and> take (4 + length p) buf' = enc_data \<lparr>dt_blknum = b, dt_data = p\<rparr> \<and>
    length lm' = TFTP_MSGLEN_MAX \<and> take (4 + length p) lm' = enc_data \<lparr>dt_blknum = b, dt_data = p\<rparr> \<and>
    fstep None w0 w' \<and> dspath ads' = dir \<and>
    (if length p = TFTP_DATALEN_MAX
     then ses_sends w0 dir (clses', ads', w') (drop TFTP_DATALEN_MAX out)
     else ses_closed (fsys w0) clses' ads' w')"
proof -
  let ?c1 = "clses\<lparr>blknum := b\<rparr>" and ?msg = "enc_data \<lparr>dt_blknum = b, dt_data = p\<rparr>"
  have lp: "length p \<le> TFTP_DATALEN_MAX" and b: "blknum ?c1 = b"
    and f: "fin (set_sb ?c1 x) = fin clses" for x by (simp_all add: p_def)
  have s1: "ses_sends w0 dir (?c1, ads, w) out" by (rule ses_sends_cong [OF s]) simp_all
  obtain sb1 ads1 w1 buf1 where g: "wr_bytes buf 0 (put_be16 OP_DATA) = Inr (put_be16 OP_DATA @ drop 2 buf)"
      "wr_bytes (put_be16 OP_DATA @ drop 2 buf) 2 (put_be16 b) = Inr buf1"
      "get_session_data ?c1 ads buf1 4 TFTP_DATALEN_MAX w =
        Inr (int (length p), set_sb ?c1 sb1, ads1, ?msg @ drop (length ?msg) buf, w1)"
      "ses_sends w0 dir (set_sb ?c1 sb1, ads1, w1) (drop TFTP_DATALEN_MAX out)" "length ?msg = 4 + length p"
    using data_msg_fill [OF s1 buf] unfolding b p_def [symmetric] .
  let ?c2 = "(set_sb ?c1 sb1)\<lparr>fin := fin clses \<or> length p < TFTP_DATALEN_MAX\<rparr>" and ?buf = "?msg @ drop (length ?msg) buf"
  obtain ads2 w2 where c: "(if int (length p) < int TFTP_DATALEN_MAX
          then (let clses = (set_sb ?c1 sb1)\<lparr>fin := True\<rparr> in
            ebind (close_data clses ads1 w1) (\<lambda>(ads, w). Inr (clses, ads, w)))
          else Inr (set_sb ?c1 sb1, ads1, w1)) = Inr (?c2, ads2, w2)"
      "fstep None w0 w2" "dspath ads2 = dir"
      "if length p = TFTP_DATALEN_MAX then ses_sends w0 dir (?c2, ads2, w2) (drop TFTP_DATALEN_MAX out)
       else ses_closed (fsys w0) ?c2 ads2 w2"
    using data_msg_close [OF g(4) lp] unfolding f .
  have ck: "clock w2 = clock w"
    using ses_sends_world [OF s] c(2) by (auto simp: fstep_def same_env_def)
  have "take (4 + length p) ?buf = ?msg" "length ?buf = TFTP_MSGLEN_MAX" using g(5) buf lp by simp_all
  moreover from this obtain lm' where k: "keep_lastmsg ?c2 ?buf (4 + length p) w2 =
      Inr (?c2\<lparr>lastmsg := lm', lastmsglen := 4 + length p, lastsending := clock w2, retrycount := 0\<rparr>)"
      "length lm' = TFTP_MSGLEN_MAX" "take (4 + length p) lm' = ?msg"
    using keep_lastmsg_ok [of ?c2 ?buf "4 + length p" ?msg w2] lm g(5) by auto
  let ?c3 = "clses\<lparr>sesbuf := sb1, blknum := b, fin := fin clses \<or> length p < TFTP_DATALEN_MAX, lastmsg := lm',
      lastmsglen := 4 + length p, lastsending := clock w, retrycount := 0\<rparr>"
  have c3: "?c2\<lparr>lastmsg := lm', lastmsglen := 4 + length p, lastsending := clock w2, retrycount := 0\<rparr> = ?c3"
    using ck by (simp add: set_sb_def)
  have "(int (length p) = - 1) = False" by simp
  then have "make_tftpdata_msg clses ads buf TFTP_MSGLEN_MAX w = Inr (4 + int (length p), ?c3, ads2, ?buf, w2)"
    unfolding make_tftpdata_msg_def b_def [symmetric]
    by (simp only: g(1-3) b c(1) [unfolded Let_def] k(1) c3 ebind_simps prod.case Let_def if_False less_irrefl nat_int)
  moreover have "if length p = TFTP_DATALEN_MAX then ses_sends w0 dir (?c3, ads2, w2) (drop TFTP_DATALEN_MAX out)
     else ses_closed (fsys w0) ?c3 ads2 w2"
    using c(4) ses_sends_cong [of w0 dir ?c2 ads2 w2 _ ?c3] by (auto simp: ses_closed_def split: if_splits)
  ultimately show ?thesis using k(2,3) c(2,3) by blast
qed

section \<open>The session buffer on the way in\<close>

text \<open>\<open>ses_stores\<close>: the bytes the session has received, in the file and in its buffer, are \<open>c\<close>.\<close>

definition sb_in :: "datastorage \<Rightarrow> bool" where
  "sb_in sb \<longleftrightarrow> length (sb_storage sb) = SESSION_BUFSIZE \<and> sb_pos sb = sb_datalen sb \<and>
     sb_datalen sb \<le> SESSION_BUFSIZE"

definition sb_got :: "datastorage \<Rightarrow> bytes" where
  "sb_got sb = take (sb_datalen sb) (sb_storage sb)"

definition ses_stores :: "world \<Rightarrow> string \<Rightarrow> session \<times> iwds \<times> world \<Rightarrow> bytes \<Rightarrow> bool" where
  "ses_stores w0 dir s c \<longleftrightarrow>
     (case s of (clses, ads, w) \<Rightarrow> sb_in (sesbuf clses) \<and>
       (\<exists>h. ds_writes w0 dir (clsock clses) (filename clses) (ads, w) h \<and> c = h @ sb_got (sesbuf clses)))"

lemma length_sb_got [simp]: "sb_in sb \<Longrightarrow> length (sb_got sb) = sb_datalen sb"
  by (simp add: sb_in_def sb_got_def)

text \<open>The scan stops at the next CR, the end of the bytes or the end of the space.\<close>

lemma n2l_scan_ok:
  "\<exists>j found. n2l_scan src avail k = (k + j, found) \<and> j \<le> length src \<and> CR \<notin> set (take j src) \<and>
     (found \<longrightarrow> j < length src \<and> src ! j = CR \<and> k + j < avail) \<and>
     (\<not> found \<longrightarrow> j = length src \<or> avail \<le> k + j) \<and> (k \<le> avail \<longrightarrow> k + j \<le> avail)"
proof (induction src avail k rule: n2l_scan.induct)
  case (2 c cs avail k)
  show ?case
  proof (cases "k < avail \<and> c \<noteq> CR")
    case False
    then show ?thesis by (intro exI [of _ 0] exI [of _ "k < avail"]) auto
  next
    case True
    with 2 obtain j found where j: "n2l_scan cs avail (Suc k) = (Suc k + j, found)" "j \<le> length cs"
      "CR \<notin> set (take j cs)" "found \<longrightarrow> j < length cs \<and> cs ! j = CR \<and> Suc k + j < avail"
      "\<not> found \<longrightarrow> j = length cs \<or> avail \<le> Suc k + j" "Suc k \<le> avail \<longrightarrow> Suc k + j \<le> avail" by blast
    show ?thesis
      by (intro exI [of _ "Suc j"] exI [of _ found]) (use j True in auto)
  qed
qed auto

text \<open>Appending to the buffer.\<close>

lemma sb_in_append:
  assumes "sb_in sb" and "sb_datalen sb + length bs \<le> SESSION_BUFSIZE"
  shows "\<exists>st. wr_bytes (sb_storage sb) (sb_pos sb) bs = Inr st \<and>
    sb_in (sb\<lparr>sb_storage := st, sb_pos := sb_pos sb + length bs, sb_datalen := sb_datalen sb + length bs\<rparr>) \<and>
    sb_got (sb\<lparr>sb_storage := st, sb_pos := sb_pos sb + length bs, sb_datalen := sb_datalen sb + length bs\<rparr>)
      = sb_got sb @ bs"
proof -
  let ?n = "sb_datalen sb"
  let ?st = "take ?n (sb_storage sb) @ bs @ drop (?n + length bs) (sb_storage sb)"
  have l: "length (take ?n (sb_storage sb)) = ?n" using assms(1) by (simp add: sb_in_def)
  have "wr_bytes (sb_storage sb) (sb_pos sb) bs = Inr ?st" using assms by (simp add: sb_in_def)
  moreover have "length ?st = SESSION_BUFSIZE" using assms by (auto simp: sb_in_def)
  moreover have "take (?n + length bs) ?st = take ?n (sb_storage sb) @ bs" using l by simp
  ultimately show ?thesis using assms by (auto simp: sb_in_def sb_got_def)
qed

lemma local_of_noCR: "CR \<notin> set bs \<Longrightarrow> local_of m bs = bs"
  by (cases m) (auto simp: local_of_def filter_id_conv)

lemma psd_copy_ok:
  assumes ok: "sb_in (sesbuf clses)"
  shows "\<exists>len sb'. psd_copy clses src = Inr (len, set_sb clses sb') \<and> sb_in sb' \<and> len \<le> length src \<and>
    sb_got sb' = sb_got (sesbuf clses) @ local_of (tftpmode clses) (take len src)"
proof (cases "tftpmode clses")
  case TFTP_MODE_OCTET
  let ?sb = "sesbuf clses"
  define len where "len = (if SESSION_BUFSIZE - sb_datalen ?sb > length src then length src
      else SESSION_BUFSIZE - sb_datalen ?sb)"
  have dl: "sb_datalen ?sb \<le> SESSION_BUFSIZE" using ok by (simp add: sb_in_def)
  have len: "len \<le> length src" "sb_datalen ?sb + length (take len src) \<le> SESSION_BUFSIZE"
    using dl by (auto simp: len_def)
  have ll: "length (take len src) = len" using len(1) by simp
  obtain st where st: "wr_bytes (sb_storage ?sb) (sb_pos ?sb) (take len src) = Inr st"
      "sb_in (?sb\<lparr>sb_storage := st, sb_pos := sb_pos ?sb + len, sb_datalen := sb_datalen ?sb + len\<rparr>)"
      "sb_got (?sb\<lparr>sb_storage := st, sb_pos := sb_pos ?sb + len, sb_datalen := sb_datalen ?sb + len\<rparr>)
        = sb_got ?sb @ take len src"
    using sb_in_append [OF ok len(2)] unfolding ll by blast
  have "psd_copy clses src = Inr (len, set_sb clses
      (?sb\<lparr>sb_storage := st, sb_pos := sb_pos ?sb + len, sb_datalen := sb_datalen ?sb + len\<rparr>))"
    unfolding psd_copy_def Let_def TFTP_MODE_OCTET tftp_mode.case sz_sub_le [OF dl]
      len_def [symmetric] st(1) by simp
  with st(2,3) len(1) TFTP_MODE_OCTET show ?thesis by (auto simp: local_of_def)
next
  case TFTP_MODE_NETASCII
  let ?sb = "sesbuf clses" and ?avail = "SESSION_BUFSIZE - sb_datalen (sesbuf clses)"
  have dl: "sb_datalen ?sb \<le> SESSION_BUFSIZE" using ok by (simp add: sb_in_def)
  obtain j found where j: "n2l_scan src ?avail 0 = (j, found)" "j \<le> length src" "CR \<notin> set (take j src)"
      "found \<longrightarrow> j < length src \<and> src ! j = CR" "j \<le> ?avail"
    using n2l_scan_ok [of src ?avail 0] by auto
  have lj: "length (take j src) = j" using j(2) by simp
  obtain sb' where sb': "(if j > 0 then ebind (wr_bytes (sb_storage ?sb) (sb_pos ?sb) (take j src)) (\<lambda>st.
        Inr (?sb\<lparr>sb_storage := st, sb_pos := sb_pos ?sb + j, sb_datalen := sb_datalen ?sb + j\<rparr>))
      else Inr ?sb) = Inr sb'" "sb_in sb'" "sb_got sb' = sb_got ?sb @ take j src"
  proof (cases "j > 0")
    case True
    have le: "sb_datalen ?sb + length (take j src) \<le> SESSION_BUFSIZE" using dl j(2,5) by simp
    obtain st where "wr_bytes (sb_storage ?sb) (sb_pos ?sb) (take j src) = Inr st"
        "sb_in (?sb\<lparr>sb_storage := st, sb_pos := sb_pos ?sb + j, sb_datalen := sb_datalen ?sb + j\<rparr>)"
        "sb_got (?sb\<lparr>sb_storage := st, sb_pos := sb_pos ?sb + j, sb_datalen := sb_datalen ?sb + j\<rparr>)
          = sb_got ?sb @ take j src"
      using sb_in_append [OF ok le] unfolding lj by blast
    with True that show thesis by simp
  qed (use that [of ?sb] ok in simp)
  let ?len = "if found then Suc j else j"
  have "psd_copy clses src = Inr (?len, set_sb clses sb')"
    unfolding psd_copy_def netascii_to_local_def Let_def TFTP_MODE_NETASCII tftp_mode.case
      sz_sub_le [OF dl] j(1) prod.case sb'(1) ebind_simps by simp
  moreover have "local_of TFTP_MODE_NETASCII (take ?len src) = take j src"
    using j(3,4) by (auto simp: take_Suc_conv_app_nth local_of_append local_of_noCR)
      (simp add: local_of_def)
  ultimately show ?thesis using sb'(2,3) TFTP_MODE_NETASCII j(4) j(2) by auto
qed

text \<open>A save writes the buffer out, when there is something in it.\<close>

lemma save_data_ok:
  assumes s: "ses_stores w0 dir (clses, ads, w) c" and n: "0 < sb_datalen (sesbuf clses)"
  shows "\<exists>sb' ads' w'. save_data clses ads w = Inr (True, set_sb clses sb', ads', w') \<and>
    sb_in sb' \<and> sb_datalen sb' = 0 \<and>
    ds_writes w0 dir (clsock clses) (filename clses) (ads', w') c"
proof -
  let ?sb = "sesbuf clses" and ?sb' = "(sesbuf clses)\<lparr>sb_datalen := 0, sb_pos := 0\<rparr>"
  let ?n = "sb_datalen ?sb"
  from s obtain h where h: "sb_in ?sb" "ds_writes w0 dir (clsock clses) (filename clses) (ads, w) h"
    "c = h @ sb_got ?sb" by (auto simp: ses_stores_def)
  have st: "sb_got ?sb @ drop ?n (sb_storage ?sb) = sb_storage ?sb" by (simp add: sb_got_def)
  have n': "length (sb_got ?sb) = ?n" by (rule length_sb_got [OF h(1)])
  then have ne: "sb_got ?sb \<noteq> []" using n by (metis less_nat_zero_code list.size(3))
  obtain s' where w: "ds_write (clsock clses) (filename clses) (drop ?n (sb_storage ?sb)) (ads, w) (sb_got ?sb) =
        Inr (?n, 0, s')" "ds_writes w0 dir (clsock clses) (filename clses) s' c"
    using ds_snk.write_held [OF h(2) ne, of "drop ?n (sb_storage ?sb)"] n' h(3) by auto
  obtain ads' w' where s': "s' = (ads', w')" by (cases s')
  with w(1) obtain req where q: "iwds_write ads \<lparr>dsid = clsock clses, dfile = filename clses,
      dbuf = sb_storage ?sb, dlen = ?n, derr = 0\<rparr> w = Inr (?n, req, ads', w')" "derr req = 0"
    by (auto simp: ds_write_def ebind_Inr_iff st n')
  have "save_data clses ads w = Inr (True, set_sb clses ?sb', ads', w')"
    unfolding save_data_def Let_def q(1) using q(2) by simp
  moreover have "sb_in ?sb'" "sb_datalen ?sb' = 0" using h(1) by (simp_all add: sb_in_def)
  ultimately show ?thesis using w(2) s' by blast
qed

lemma sb_got_0 [simp]: "sb_datalen sb = 0 \<Longrightarrow> sb_got sb = []"
  by (simp add: sb_got_def)

text \<open>One turn of the loop: the copy appends the local form of what fits, and makes progress when
  there is room.\<close>

lemma psd_turn:
  assumes "ses_stores w0 dir (clses, ads, w) c" and "sb_datalen (sesbuf clses) < SESSION_BUFSIZE"
  obtains len sb1 where "psd_copy clses src = Inr (len, set_sb clses sb1)" "len \<le> length src"
    "ses_stores w0 dir (set_sb clses sb1, ads, w) (c @ local_of (tftpmode clses) (take len src))"
    "sb_in sb1" "sb_datalen sb1 = sb_datalen (sesbuf clses) + length (local_of (tftpmode clses) (take len src))"
    "src \<noteq> [] \<longrightarrow> 0 < len"
proof -
  let ?m = "tftpmode clses"
  from assms(1) obtain h where h: "sb_in (sesbuf clses)"
      "ds_writes w0 dir (clsock clses) (filename clses) (ads, w) h" "c = h @ sb_got (sesbuf clses)"
    by (auto simp: ses_stores_def)
  obtain len sb1 where p: "psd_copy clses src = Inr (len, set_sb clses sb1)" "sb_in sb1"
      "len \<le> length src" "sb_got sb1 = sb_got (sesbuf clses) @ local_of ?m (take len src)"
    using psd_copy_ok [OF h(1)] by blast
  have "ses_stores w0 dir (set_sb clses sb1, ads, w) (c @ local_of ?m (take len src))"
    using h p(2,4) by (auto simp: ses_stores_def)
  moreover have "sb_datalen sb1 = sb_datalen (sesbuf clses) + length (local_of ?m (take len src))"
    using arg_cong [OF p(4), of length] length_sb_got [OF p(2)] length_sb_got [OF h(1)] by simp
  moreover have "src \<noteq> [] \<longrightarrow> 0 < len"
    using psd_copy_progress [of clses src "set_sb clses sb1"] p(1) assms(2) by (cases "len = 0") auto
  ultimately show thesis using that p by blast
qed

lemma psd_loop_step:
  assumes "psd_copy clses src = Inr (len, c1)"
    and "(if sb_datalen (sesbuf c1) = SESSION_BUFSIZE \<or> fin c1 then save_data c1 ads w
      else Inr (True, c1, ads, w)) = Inr (True, c2, ads2, w2)"
  shows "psd_loop clses ads src tot w =
    (if len < length src then psd_loop c2 ads2 (drop len src) (tot + len) w2 else Inr (int (tot + len), c2, ads2, w2))"
  by (subst psd_loop.simps) (simp only: assms ebind_simps prod.case, simp)

text \<open>A full buffer is written out.\<close>

lemma psd_flush:
  assumes "ses_stores w0 dir (c1, ads, w) c" and "sb_in (sesbuf c1)" and "\<not> fin c1"
  obtains sb2 ads2 w2 where "(if sb_datalen (sesbuf c1) = SESSION_BUFSIZE \<or> fin c1 then save_data c1 ads w
      else Inr (True, c1, ads, w)) = Inr (True, set_sb c1 sb2, ads2, w2)"
    "ses_stores w0 dir (set_sb c1 sb2, ads2, w2) c" "sb_datalen sb2 < SESSION_BUFSIZE"
proof (cases "sb_datalen (sesbuf c1) = SESSION_BUFSIZE")
  case True
  then obtain sb2 ads2 w2 where "save_data c1 ads w = Inr (True, set_sb c1 sb2, ads2, w2)"
      "sb_in sb2" "sb_datalen sb2 = 0" "ds_writes w0 dir (clsock c1) (filename c1) (ads2, w2) c"
    using save_data_ok [OF assms(1)] by auto
  with that [of sb2 ads2 w2] True show thesis by (simp add: ses_stores_def)
next
  case False
  then have "sb_datalen (sesbuf c1) < SESSION_BUFSIZE" using assms(2) by (simp add: sb_in_def)
  with False that [of "sesbuf c1" ads w] assms show thesis by simp
qed

text \<open>As long as the transfer is not finished the loop stores the bytes of the message, in the
  local form, and leaves room in the buffer.\<close>

lemma psd_loop_ok:
  assumes "ses_stores w0 dir (clses, ads, w) c" and "\<not> fin clses"
    and "sb_datalen (sesbuf clses) < SESSION_BUFSIZE"
  shows "\<exists>sb' ads' w'. psd_loop clses ads src tot w =
      Inr (int (tot + length src), set_sb clses sb', ads', w') \<and>
    ses_stores w0 dir (set_sb clses sb', ads', w') (c @ local_of (tftpmode clses) src) \<and>
    sb_datalen sb' < SESSION_BUFSIZE"
  using assms
proof (induction "length src" arbitrary: clses ads w c src tot rule: less_induct)
  case less
  let ?m = "tftpmode clses"
  obtain len sb1 where p: "psd_copy clses src = Inr (len, set_sb clses sb1)" "len \<le> length src"
      "ses_stores w0 dir (set_sb clses sb1, ads, w) (c @ local_of ?m (take len src))"
      "sb_in sb1" "sb_datalen sb1 = sb_datalen (sesbuf clses) + length (local_of ?m (take len src))"
      "src \<noteq> [] \<longrightarrow> 0 < len"
    using psd_turn [OF less.prems(1,3)] .
  let ?c1 = "set_sb clses sb1"
  have c1: "sb_in (sesbuf ?c1)" "\<not> fin ?c1" using p(4) less.prems(2) by simp_all
  obtain sb2 ads2 w2 where v: "(if sb_datalen (sesbuf ?c1) = SESSION_BUFSIZE \<or> fin ?c1
        then save_data ?c1 ads w else Inr (True, ?c1, ads, w)) = Inr (True, set_sb ?c1 sb2, ads2, w2)"
      "ses_stores w0 dir (set_sb ?c1 sb2, ads2, w2) (c @ local_of ?m (take len src))"
      "sb_datalen sb2 < SESSION_BUFSIZE"
    using psd_flush [OF p(3) c1] .
  let ?c2 = "set_sb ?c1 sb2"
  note step = psd_loop_step [OF p(1) v(1), of tot]
  show ?case
  proof (cases "len < length src")
    case False
    with p(2) step v show ?thesis by (intro exI [of _ sb2] exI [of _ ads2] exI [of _ w2]) simp
  next
    case True
    then have ne: "src \<noteq> []" by auto
    obtain sb3 ads3 w3 where g: "psd_loop ?c2 ads2 (drop len src) (tot + len) w2 =
        Inr (int (tot + len + length (drop len src)), set_sb clses sb3, ads3, w3)"
        "ses_stores w0 dir (set_sb clses sb3, ads3, w3)
           ((c @ local_of ?m (take len src)) @ local_of ?m (drop len src))"
        "sb_datalen sb3 < SESSION_BUFSIZE"
      using less.hyps [OF _ v(2), of "drop len src" "tot + len"] p(6) ne v(3) less.prems(2) by auto
    have "local_of ?m (take len src) @ local_of ?m (drop len src) = local_of ?m src"
      unfolding local_of_append [symmetric] by simp
    then have "ses_stores w0 dir (set_sb clses sb3, ads3, w3) (c @ local_of ?m src)" using g(2) by simp
    moreover have "psd_loop clses ads src tot w = Inr (int (tot + length src), set_sb clses sb3, ads3, w3)"
      using step g(1) True by simp
    ultimately show ?thesis using g(3) by blast
  qed
qed

lemma local_of_same: "m = TFTP_MODE_OCTET \<or> CR \<notin> set xs \<Longrightarrow> local_of m xs = xs"
  by (erule disjE) (simp add: local_of_def, rule local_of_noCR)

text \<open>The last block empties the buffer into the file. In netascii mode this is stated for a
  block without CR: with a CR the code saves after each piece, see the theory on transfers.\<close>

lemma psd_loop_fin:
  assumes "ses_stores w0 dir (clses, ads, w) c" and "fin clses"
    and "sb_datalen (sesbuf clses) < SESSION_BUFSIZE"
    and "src \<noteq> [] \<or> 0 < sb_datalen (sesbuf clses)"
    and "tftpmode clses = TFTP_MODE_OCTET \<or> CR \<notin> set src"
  shows "\<exists>sb' ads' w'. psd_loop clses ads src tot w =
      Inr (int (tot + length src), set_sb clses sb', ads', w') \<and> sb_in sb' \<and> sb_datalen sb' = 0 \<and>
    ds_writes w0 dir (clsock clses) (filename clses) (ads', w') (c @ src)"
  using assms
proof (induction "length src" arbitrary: clses ads w c src tot rule: less_induct)
  case less
  let ?R = "ds_writes w0 dir (clsock clses) (filename clses)"
  have lo: "local_of (tftpmode clses) (take n src) = take n src" for n
    using less.prems(5) by (intro local_of_same) (auto dest: in_set_takeD)
  obtain len sb1 where p: "psd_copy clses src = Inr (len, set_sb clses sb1)" "len \<le> length src"
      "ses_stores w0 dir (set_sb clses sb1, ads, w) (c @ take len src)"
      "sb_in sb1" "sb_datalen sb1 = sb_datalen (sesbuf clses) + length (take len src)" "src \<noteq> [] \<longrightarrow> 0 < len"
    using psd_turn [OF less.prems(1,3), where src = src] unfolding lo .
  let ?c1 = "set_sb clses sb1"
  have "0 < sb_datalen (sesbuf ?c1)" using p(2,5,6) less.prems(4) by auto
  then obtain sb2 ads2 w2 where v: "save_data ?c1 ads w = Inr (True, set_sb clses sb2, ads2, w2)"
      "sb_in sb2" "sb_datalen sb2 = 0" "?R (ads2, w2) (c @ take len src)"
    using save_data_ok [OF p(3)] by auto
  let ?c2 = "set_sb clses sb2"
  have "(if sb_datalen (sesbuf ?c1) = SESSION_BUFSIZE \<or> fin ?c1 then save_data ?c1 ads w
      else Inr (True, ?c1, ads, w)) = Inr (True, ?c2, ads2, w2)" using v(1) less.prems(2) by simp
  note step = psd_loop_step [OF p(1) this, of tot]
  show ?case
  proof (cases "len < length src")
    case False
    with p(2) step v show ?thesis by (intro exI [of _ sb2] exI [of _ ads2] exI [of _ w2]) simp
  next
    case True
    then have lt: "length (drop len src) < length src" using p(6) by auto
    have s2: "ses_stores w0 dir (?c2, ads2, w2) (c @ take len src)"
      using v(2,3,4) by (auto simp: ses_stores_def)
    have pre: "fin ?c2" "sb_datalen (sesbuf ?c2) < SESSION_BUFSIZE"
      "drop len src \<noteq> [] \<or> 0 < sb_datalen (sesbuf ?c2)"
      "tftpmode ?c2 = TFTP_MODE_OCTET \<or> CR \<notin> set (drop len src)"
      using less.prems(2,5) v(3) True in_set_dropD [of CR len src] by auto
    obtain sb3 ads3 w3 where g: "psd_loop ?c2 ads2 (drop len src) (tot + len) w2 =
        Inr (int (tot + len + length (drop len src)), set_sb clses sb3, ads3, w3)"
        "sb_in sb3" "sb_datalen sb3 = 0" "?R (ads3, w3) ((c @ take len src) @ drop len src)"
      using less.hyps [OF lt s2 pre, of "tot + len"] unfolding set_sb_simps by blast
    have "psd_loop clses ads src tot w = Inr (int (tot + length src), set_sb clses sb3, ads3, w3)"
      using step g(1) True by simp
    moreover have "?R (ads3, w3) (c @ src)" using g(4) by simp
    ultimately show ?thesis using g(2,3) by blast
  qed
qed

lemma put_session_data_more:
  assumes "ses_stores w0 dir (clses, ads, w) c" and "\<not> fin clses"
    and "sb_datalen (sesbuf clses) < SESSION_BUFSIZE"
  shows "\<exists>sb' ads' w'. put_session_data clses ads src w =
      Inr (int (length src), set_sb clses sb', ads', w') \<and>
    ses_stores w0 dir (set_sb clses sb', ads', w') (c @ local_of (tftpmode clses) src) \<and>
    sb_datalen sb' < SESSION_BUFSIZE"
proof (cases "sb_datalen (sesbuf clses) = 0 \<and> src = []")
  case True
  have "local_of (tftpmode clses) [] = []" by (rule local_of_noCR) simp
  with True assms show ?thesis
    by (intro exI [of _ "sesbuf clses"] exI [of _ ads] exI [of _ w]) (simp add: put_session_data_def)
next
  case False
  with psd_loop_ok [OF assms, of src 0] show ?thesis by (auto simp: put_session_data_def)
qed

lemma put_session_data_last:
  assumes "ses_stores w0 dir (clses, ads, w) c" and "fin clses"
    and "sb_datalen (sesbuf clses) < SESSION_BUFSIZE"
    and "tftpmode clses = TFTP_MODE_OCTET \<or> CR \<notin> set src"
  shows "\<exists>sb' ads' w'. put_session_data clses ads src w =
      Inr (int (length src), set_sb clses sb', ads', w') \<and> sb_in sb' \<and> sb_datalen sb' = 0 \<and>
    ds_writes w0 dir (clsock clses) (filename clses) (ads', w') (c @ src)"
proof (cases "sb_datalen (sesbuf clses) = 0 \<and> src = []")
  case True
  with assms(1) show ?thesis
    by (intro exI [of _ "sesbuf clses"] exI [of _ ads] exI [of _ w])
      (auto simp: put_session_data_def ses_stores_def)
next
  case False
  with psd_loop_fin [OF assms(1-3), of src 0] assms(4) show ?thesis
    by (auto simp: put_session_data_def)
qed

end
