(* ===== verification/Tftp_Session.thy ===== *)
theory Tftp_Session
  imports Tftp_Buffer Dll
begin

text \<open>
  The client sessions of \<open>tftp.c\<close>: the object \<open>IWTFTP\<close> with the heap of its session list, the
  creation, search and deletion of sessions, the per-client sockets and the epoll
  registration. The list is searched by client address and port, the key of the table.

  \<open>iwtftp_init\<close> and the functions it calls are here too. The addresses of the network
  interfaces, which \<open>getifaddrs\<close> delivers, are an argument.
\<close>

section \<open>Data\<close>

abbreviation SVSOCKS_MAX :: nat where "SVSOCKS_MAX \<equiv> 2"
abbreviation IPADDRLEN_MAX :: nat where "IPADDRLEN_MAX \<equiv> 62"
abbreviation RESEND_INTERVAL :: int where "RESEND_INTERVAL \<equiv> 10"
abbreviation RESEND_COUNTMAX :: int where "RESEND_COUNTMAX \<equiv> 3"
abbreviation SESSION_CLOSEWAIT :: int where "SESSION_CLOSEWAIT \<equiv> 15"
abbreviation TFTP_PORT :: u16 where "TFTP_PORT \<equiv> 69"

record iwtftp =
  svsocks :: "int list"
  tads :: iwds
  seshead :: "nat option"
  sheap :: "nat \<Rightarrow> session option"
  sbrk :: nat

definition empty_storage :: datastorage where
  "empty_storage =
     \<lparr>sb_pos = 0, sb_fopt = False, sb_datalen = 0, sb_storage = replicate SESSION_BUFSIZE NUL\<rparr>"

definition empty_session :: session where
  "empty_session = \<lparr>nxt = None, prv = None, clip = [], clport = 0, clsock = -1, regevent = False,
     tftpmode = TFTP_MODE_OCTET, sesbuf = empty_storage, filename = [], blknum = 0, fin = False,
     lastmsg = replicate TFTP_MSGLEN_MAX NUL, lastmsglen = 0, lastsending = 0, retrycount = 0,
     disabled = False\<rparr>"

section \<open>Sockets\<close>

datatype family = AF_INET | AF_INET6

definition wildcard :: "family \<Rightarrow> string" where
  "wildcard f = (case f of AF_INET \<Rightarrow> ''0.0.0.0'' | AF_INET6 \<Rightarrow> ''::'')"

definition family_of :: "string \<Rightarrow> family" where
  "family_of host = (if CHR 0x3A \<in> set host then AF_INET6 else AF_INET)"

text \<open>\<open>create_socket\<close>: a service of \<open>None\<close> leaves the port to the system. When \<open>getaddrinfo\<close>
  fails, the error exit reads \<open>sock\<close>, which has not been assigned.\<close>

definition create_socket :: "family \<Rightarrow> string \<Rightarrow> u16 option \<Rightarrow> world \<Rightarrow> fault + int \<times> world" where
  "create_socket fam ip service w =
     (let host = (if ip = ''ANY'' then wildcard fam else ip); (ok, w) = sys_call w in
      if \<not> ok then Inl Uninitialised
      else
       (let (sock, w) = sys_socket w in
        case sock of None \<Rightarrow> Inr (IW_ERR, w)
        | Some fd \<Rightarrow>
          (let (ok, w) = sys_call w in
           if \<not> ok then Inr (IW_ERR, sys_close w fd)
           else
            (let (ok, w) = sys_bind w fd host (case service of None \<Rightarrow> 0 | Some p \<Rightarrow> p) in
             if \<not> ok then Inr (IW_ERR, sys_close w fd) else Inr (fd, w)))))"

text \<open>\<open>update_event\<close>: the first loop of it, over the list; the result of the second loop, the
  number of registered events, is not used by the caller.\<close>

definition event_step :: "session \<Rightarrow> bool \<Rightarrow> world \<Rightarrow> session \<times> bool \<times> world" where
  "event_step n err w =
     (if \<not> disabled n then
        (if \<not> regevent n then
           (let (ok, w) = sys_epoll_add w (clsock n) in (n\<lparr>regevent := True\<rparr>, err \<or> \<not> ok, w))
         else (n, err, w))
      else
        (if regevent n then
           (let (ok, w) = sys_epoll_del w (clsock n) in (n\<lparr>regevent := False\<rparr>, err \<or> \<not> ok, w))
         else (n, err, w)))"

fun update_loop :: "nat \<Rightarrow> (nat \<Rightarrow> session option) \<Rightarrow> nat option \<Rightarrow> bool \<Rightarrow> world \<Rightarrow>
    fault + (nat \<Rightarrow> session option) \<times> bool \<times> world" where
  "update_loop k h None err w = Inr (h, err, w)"
| "update_loop 0 h (Some a) err w = Inl Diverges"
| "update_loop (Suc k) h (Some a) err w =
     ebind (load h a) (\<lambda>n.
     case event_step n err w of (n', err, w) \<Rightarrow>
       ebind (store h a n') (\<lambda>h. update_loop k h (nxt n') err w))"

fun count_loop :: "nat \<Rightarrow> (nat \<Rightarrow> session option) \<Rightarrow> nat option \<Rightarrow> int \<Rightarrow> fault + int" where
  "count_loop k h None nregev = Inr nregev"
| "count_loop 0 h (Some a) nregev = Inl Diverges"
| "count_loop (Suc k) h (Some a) nregev =
     ebind (load h a) (\<lambda>n. count_loop k h (nxt n) (if regevent n then nregev + 1 else nregev))"

definition update_event :: "iwtftp \<Rightarrow> world \<Rightarrow> fault + int \<times> iwtftp \<times> world" where
  "update_event ins w =
     ebind (update_loop (sbrk ins) (sheap ins) (seshead ins) False w) (\<lambda>(h, err, w).
     ebind (count_loop (sbrk ins) h (seshead ins) 0) (\<lambda>nregev.
     Inr (if err then IW_ERR else nregev, ins\<lparr>sheap := h\<rparr>, w)))"

section \<open>Sessions\<close>

text \<open>When the buffer cannot be allocated, the node stays allocated and is never linked.\<close>

definition create_session :: "iwtftp \<Rightarrow> world \<Rightarrow> fault + nat option \<times> iwtftp \<times> world" where
  "create_session ins w =
     (let (ok, w) = sys_malloc w in
      if \<not> ok then Inr (None, ins, w)
      else
       (let node = sbrk ins; h = (sheap ins)(node \<mapsto> empty_session);
            ins = ins\<lparr>sheap := h, sbrk := Suc node\<rparr>; (ok, w) = sys_malloc w in
        if \<not> ok then Inr (None, ins, w)
        else
         ebind (case seshead ins of None \<Rightarrow> Inr h
                | Some a \<Rightarrow> ebind (set_nxt h node (Some a)) (\<lambda>h. set_prv h a (Some node))) (\<lambda>h.
         Inr (Some node, ins\<lparr>sheap := h, seshead := Some node\<rparr>, w))))"

text \<open>The fields \<open>add_newsession\<close> copies into the session before it opens the socket.\<close>

definition init_session :: "session \<Rightarrow> string \<Rightarrow> u16 \<Rightarrow> string \<Rightarrow> string \<Rightarrow> session" where
  "init_session n ip port file md =
     n\<lparr>clip := strncpy0 (IPADDRLEN_MAX - 1) ip, clport := port,
       filename := strncpy0 (TFTP_FILENAME_MAX - 1) file,
       tftpmode := if is_netascii md then TFTP_MODE_NETASCII
                   else if is_octet md then TFTP_MODE_OCTET else tftpmode n\<rparr>"

definition add_newsession ::
    "iwtftp \<Rightarrow> int \<Rightarrow> string \<Rightarrow> u16 \<Rightarrow> string \<Rightarrow> string \<Rightarrow> world \<Rightarrow> fault + nat option \<times> iwtftp \<times> world" where
  "add_newsession ins svsock ip port file md w =
     ebind (create_session ins w) (\<lambda>(r, ins, w).
     case r of None \<Rightarrow> Inr (None, ins, w)
     | Some a \<Rightarrow>
        ebind (load (sheap ins) a) (\<lambda>n.
        ebind (store (sheap ins) a (init_session n ip port file md)) (\<lambda>h.
        let ins = ins\<lparr>sheap := h\<rparr>; (svaddr, w) = sys_getsockname w svsock in
        case svaddr of None \<Rightarrow> Inr (None, ins, w)
        | Some (svip, _) \<Rightarrow>
          (let (ok, w) = sys_call w in
           if \<not> ok then Inr (None, ins, w)
           else
            ebind (create_socket (family_of svip) svip None w) (\<lambda>(fd, w).
            ebind (load (sheap ins) a) (\<lambda>n.
            ebind (store (sheap ins) a (n\<lparr>clsock := fd\<rparr>)) (\<lambda>h.
            Inr (if fd = IW_ERR then None else Some a, ins\<lparr>sheap := h\<rparr>, w))))))))"

definition ses_match :: "string \<Rightarrow> u16 \<Rightarrow> session \<Rightarrow> fault + bool" where
  "ses_match ip port n = Inr (clip n = ip \<and> clport n = port)"

definition get_session :: "iwtftp \<Rightarrow> string \<Rightarrow> u16 \<Rightarrow> fault + nat option" where
  "get_session ins ip port = find_from (sbrk ins) (sheap ins) (ses_match ip port) (seshead ins)"

text \<open>The four branches of \<open>del_session\<close>, in the order of the source.\<close>

definition unlink_session :: "iwtftp \<Rightarrow> nat \<Rightarrow> fault + iwtftp" where
  "unlink_session ins tmp =
     ebind (load (sheap ins) tmp) (\<lambda>n.
     case (prv n, nxt n) of
       (None, None) \<Rightarrow> Inr (ins\<lparr>seshead := None\<rparr>)
     | (None, Some b) \<Rightarrow> ebind (set_prv (sheap ins) b None) (\<lambda>h.
         Inr (ins\<lparr>sheap := h, seshead := Some b\<rparr>))
     | (Some a, None) \<Rightarrow> ebind (set_nxt (sheap ins) a None) (\<lambda>h. Inr (ins\<lparr>sheap := h\<rparr>))
     | (Some a, Some b) \<Rightarrow> ebind (set_nxt (sheap ins) a (Some b)) (\<lambda>h.
         ebind (set_prv h b (Some a)) (\<lambda>h. Inr (ins\<lparr>sheap := h\<rparr>))))"

definition del_session :: "iwtftp \<Rightarrow> string \<Rightarrow> u16 \<Rightarrow> world \<Rightarrow> fault + iwtftp \<times> world" where
  "del_session ins ip port w =
     ebind (get_session ins ip port) (\<lambda>r.
     case r of None \<Rightarrow> Inr (ins, w)
     | Some tmp \<Rightarrow>
        ebind (unlink_session ins tmp) (\<lambda>ins.
        ebind (load (sheap ins) tmp) (\<lambda>n.
        ebind (free (sheap ins) tmp) (\<lambda>h.
        Inr (ins\<lparr>sheap := h\<rparr>, sys_close w (clsock n))))))"

fun delall_loop :: "nat \<Rightarrow> (nat \<Rightarrow> session option) \<Rightarrow> nat option \<Rightarrow> world \<Rightarrow>
    fault + (nat \<Rightarrow> session option) \<times> world" where
  "delall_loop k h None w = Inr (h, w)"
| "delall_loop 0 h (Some a) w = Inl Diverges"
| "delall_loop (Suc k) h (Some a) w =
     ebind (load h a) (\<lambda>n.
     ebind (free h a) (\<lambda>h. delall_loop k h (nxt n) (sys_close w (clsock n))))"

definition del_allsession :: "iwtftp \<Rightarrow> world \<Rightarrow> fault + iwtftp \<times> world" where
  "del_allsession ins w =
     ebind (delall_loop (sbrk ins) (sheap ins) (seshead ins) w) (\<lambda>(h, w).
     Inr (ins\<lparr>sheap := h, seshead := None\<rparr>, w))"

text \<open>When \<open>cleanup_session\<close> deletes a session: disabled, or finished for long enough.\<close>

definition ses_due :: "int \<Rightarrow> session \<Rightarrow> bool" where
  "ses_due now n \<longleftrightarrow> disabled n \<or> (fin n \<and> now - lastsending n > SESSION_CLOSEWAIT)"

text \<open>The loop reads \<open>pm->next\<close> after \<open>del_session\<close>, in the increment of the \<open>for\<close> statement.\<close>

fun cleanup_loop :: "nat \<Rightarrow> iwtftp \<Rightarrow> nat option \<Rightarrow> world \<Rightarrow> fault + iwtftp \<times> world" where
  "cleanup_loop k ins None w = Inr (ins, w)"
| "cleanup_loop 0 ins (Some pm) w = Inl Diverges"
| "cleanup_loop (Suc k) ins (Some pm) w =
     ebind (load (sheap ins) pm) (\<lambda>n.
     ebind (if ses_due (clock w) n then del_session ins (clip n) (clport n) w else Inr (ins, w))
       (\<lambda>(ins, w).
     ebind (load (sheap ins) pm) (\<lambda>n. cleanup_loop k ins (nxt n) w)))"

definition cleanup_session :: "iwtftp \<Rightarrow> world \<Rightarrow> fault + iwtftp \<times> world" where
  "cleanup_session ins w = cleanup_loop (sbrk ins) ins (seshead ins) w"

section \<open>Resending\<close>

text \<open>One turn of \<open>resend_allsession\<close>; the retransmission goes to the address \<open>getsockname\<close>
  delivers, the local address of the session's own socket.\<close>

definition resend_step :: "session \<Rightarrow> iwds \<Rightarrow> world \<Rightarrow> fault + session \<times> iwds \<times> world" where
  "resend_step n ads w =
     (if clock w - lastsending n \<le> RESEND_INTERVAL then Inr (n, ads, w)
      else if fin n \<or> disabled n then Inr (n, ads, w)
      else if retrycount n \<ge> RESEND_COUNTMAX then
        (let n = n\<lparr>disabled := True\<rparr> in
         ebind (close_data n ads w) (\<lambda>(ads, w). Inr (n, ads, w)))
      else
       (let (addr, w) = sys_getsockname w (clsock n) in
        case addr of None \<Rightarrow> Inr (n, ads, w)
        | Some to \<Rightarrow>
          (let n = n\<lparr>retrycount := retrycount n + 1, lastsending := clock w\<rparr> in
           ebind (sys_sendto w (clsock n) (lastmsg n) (int (lastmsglen n)) to) (\<lambda>(_, w).
           Inr (n, ads, w)))))"

fun resend_loop :: "nat \<Rightarrow> iwtftp \<Rightarrow> nat option \<Rightarrow> world \<Rightarrow> fault + iwtftp \<times> world" where
  "resend_loop k ins None w = Inr (ins, w)"
| "resend_loop 0 ins (Some pm) w = Inl Diverges"
| "resend_loop (Suc k) ins (Some pm) w =
     ebind (load (sheap ins) pm) (\<lambda>n.
     ebind (resend_step n (tads ins) w) (\<lambda>(n', ads, w).
     ebind (store (sheap ins) pm n') (\<lambda>h.
     resend_loop k (ins\<lparr>sheap := h, tads := ads\<rparr>) (nxt n') w)))"

definition resend_allsession :: "iwtftp \<Rightarrow> world \<Rightarrow> fault + iwtftp \<times> world" where
  "resend_allsession ins w = resend_loop (sbrk ins) ins (seshead ins) w"

section \<open>Initialisation\<close>

record ifinet =
  ipv4addr :: string
  ipv6addr :: string

text \<open>The entries \<open>getifaddrs\<close> delivers: the interface and its address, if it has one of the
  two families.\<close>

type_synonym ifentry = "string \<times> (family \<times> string) option"

definition set_ifaddr :: "string \<Rightarrow> family \<times> string \<Rightarrow> ifinet \<Rightarrow> ifinet" where
  "set_ifaddr ifname a i =
     (case a of
        (AF_INET, s) \<Rightarrow> i\<lparr>ipv4addr := s\<rparr>
      | (AF_INET6, s) \<Rightarrow>
          (let ipv6len = length s + 1 in
           i\<lparr>ipv6addr := s @ CHR 0x25 # take (IPADDRLEN_MAX - ipv6len - 1) ifname\<rparr>))"

text \<open>The second loop of \<open>get_ifaddress\<close>; \<open>inet_ntop\<close> may fail.\<close>

fun ifaddr_loop :: "ifentry list \<Rightarrow> string \<Rightarrow> ifinet \<Rightarrow> world \<Rightarrow> bool \<times> ifinet \<times> world" where
  "ifaddr_loop [] ifname i w = (True, i, w)"
| "ifaddr_loop ((nm, a) # es) ifname i w =
     (case a of
        Some fa \<Rightarrow>
          if nm = ifname then
            (let (ok, w) = sys_call w in
             if \<not> ok then (False, i, w) else ifaddr_loop es ifname (set_ifaddr ifname fa i) w)
          else ifaddr_loop es ifname i w
      | None \<Rightarrow> ifaddr_loop es ifname i w)"

text \<open>When \<open>getifaddrs\<close> fails, the error exit reads \<open>ifa\<close>, which has not been assigned.\<close>

definition get_ifaddress :: "ifentry list \<Rightarrow> string \<Rightarrow> world \<Rightarrow> fault + bool \<times> ifinet \<times> world" where
  "get_ifaddress ifs ifname w =
     (let i = \<lparr>ipv4addr = [], ipv6addr = []\<rparr>; (ok, w) = sys_call w in
      if \<not> ok then Inl Uninitialised
      else if ifname \<notin> set (map fst ifs) then Inr (False, i, w)
      else Inr (ifaddr_loop ifs ifname i w))"

definition IW_IPV4 :: nat where "IW_IPV4 = 1"
definition IW_IPV6 :: nat where "IW_IPV6 = 2"

text \<open>\<open>ipver & IW_IPV4\<close>, \<open>ipver & IW_IPV6\<close>\<close>

definition wants :: "nat \<Rightarrow> nat \<Rightarrow> bool" where
  "wants ipver flag = odd (ipver div flag)"

text \<open>The search for a free slot of \<open>svsocks\<close> and the store into it, which is out of bounds when
  there is none.\<close>

fun free_slot :: "int list \<Rightarrow> nat" where
  "free_slot [] = 0"
| "free_slot (s # ss) = (if s < 0 then 0 else Suc (free_slot ss))"

definition open_server :: "family \<Rightarrow> string \<Rightarrow> int list \<Rightarrow> world \<Rightarrow> fault + int list \<times> world" where
  "open_server fam ip svs w =
     (let i = free_slot svs in
      if i \<ge> length svs then Inl Out_of_bounds
      else ebind (create_socket fam ip (Some TFTP_PORT) w) (\<lambda>(fd, w). Inr (svs[i := fd], w)))"

definition iwtftp_init ::
    "nat \<Rightarrow> string option \<Rightarrow> ifentry list \<Rightarrow> iwds \<Rightarrow> world \<Rightarrow> fault + iwtftp option \<times> world" where
  "iwtftp_init ipver ifname ifs pds w =
     (let (ok, w) = sys_malloc w in
      if \<not> ok then Inr (None, w)
      else
       ebind (case ifname of None \<Rightarrow> Inr (True, \<lparr>ipv4addr = ''ANY'', ipv6addr = ''ANY''\<rparr>, w)
              | Some nm \<Rightarrow> get_ifaddress ifs nm w) (\<lambda>(ok, ia, w).
       if \<not> ok \<or> (wants ipver IW_IPV4 \<and> ipv4addr ia = []) \<or> (wants ipver IW_IPV6 \<and> ipv6addr ia = [])
       then Inr (None, w)
       else
        ebind (if wants ipver IW_IPV4 then open_server AF_INET (ipv4addr ia) (replicate SVSOCKS_MAX (-1)) w
               else Inr (replicate SVSOCKS_MAX (-1), w)) (\<lambda>(svs, w).
        ebind (if wants ipver IW_IPV6 then open_server AF_INET6 (ipv6addr ia) svs w
               else Inr (svs, w)) (\<lambda>(svs, w).
        if \<exists>s \<in> set svs. s \<ge> 0
        then Inr (Some \<lparr>svsocks = svs, tads = pds, seshead = None, sheap = (\<lambda>_. None), sbrk = 0\<rparr>, w)
        else Inr (None, w)))))"

text \<open>Closing the server sockets, at the end of \<open>iwtftp_exit\<close> and of \<open>iwtftp_service\<close>.\<close>

definition close_server :: "iwtftp \<Rightarrow> world \<Rightarrow> iwtftp \<times> world" where
  "close_server ins w =
     (ins\<lparr>svsocks := map (\<lambda>_. -1) (svsocks ins)\<rparr>,
      fold (\<lambda>fd w. if fd \<noteq> -1 then sys_close w fd else w) (svsocks ins) w)"

definition iwtftp_exit :: "iwtftp \<Rightarrow> world \<Rightarrow> fault + world" where
  "iwtftp_exit ins w =
     ebind (del_allsession ins w) (\<lambda>(ins, w). Inr (snd (close_server ins w)))"

end
