(* ===== verification/Tftp_Proc.thy ===== *)
theory Tftp_Proc
  imports Tftp_Session
begin

text \<open>
  \<open>tftp_proc\<close>, the handler of one datagram, and \<open>iwtftp_service\<close>, the event loop. The labels
  \<open>done\<close>, \<open>resend\<close> and \<open>errsend\<close> of \<open>tftp_proc\<close> are functions, each \<open>case\<close> of its \<open>switch\<close> is
  another. \<open>sendinfo\<close> lives in the event loop and keeps the last message from one datagram to
  the next; so does the receive buffer.
\<close>

section \<open>The handler of a datagram\<close>

record sendinfo =
  si_ses :: "nat option"
  si_msgbuf :: bytes
  si_msglen :: "int option"   \<comment> \<open>\<open>None\<close>: never assigned\<close>

type_synonym proc_result = "fault + bool \<times> iwtftp \<times> sendinfo \<times> world"

definition proc_done :: "nat option \<Rightarrow> iwtftp \<Rightarrow> sendinfo \<Rightarrow> world \<Rightarrow> proc_result" where
  "proc_done ses ins si w = Inr (True, ins, si\<lparr>si_ses := ses\<rparr>, w)"

definition proc_resend :: "nat \<Rightarrow> iwtftp \<Rightarrow> sendinfo \<Rightarrow> world \<Rightarrow> proc_result" where
  "proc_resend a ins si w =
     ebind (load (sheap ins) a) (\<lambda>n.
     if retrycount n < RESEND_COUNTMAX then
       ebind (rd_bytes (lastmsg n) 0 (lastmsglen n)) (\<lambda>bs.
       ebind (wr_bytes (si_msgbuf si) 0 bs) (\<lambda>buf.
       ebind (store (sheap ins) a (n\<lparr>lastsending := clock w, retrycount := retrycount n + 1\<rparr>)) (\<lambda>h.
       Inr (True, ins\<lparr>sheap := h\<rparr>,
         si\<lparr>si_msgbuf := buf, si_msglen := Some (int (lastmsglen n)), si_ses := Some a\<rparr>, w))))
     else
       ebind (store (sheap ins) a (n\<lparr>disabled := True\<rparr>)) (\<lambda>h.
       ebind (close_data n (tads ins) w) (\<lambda>(ads, w).
       Inr (True, ins\<lparr>sheap := h, tads := ads\<rparr>, si\<lparr>si_ses := Some a\<rparr>, w))))"

text \<open>\<open>emsgbuf\<close>, zeroed, with the text \<open>snprintf\<close> puts into it.\<close>

definition emsgbuf_of :: "string \<Rightarrow> bytes" where
  "emsgbuf_of s = take (TFTP_EMSGLEN_MAX - 1) s @ replicate (TFTP_EMSGLEN_MAX - length (take (TFTP_EMSGLEN_MAX - 1) s)) NUL"

definition proc_errsend ::
    "nat option \<Rightarrow> u16 \<Rightarrow> string \<Rightarrow> iwtftp \<Rightarrow> sendinfo \<Rightarrow> world \<Rightarrow> proc_result" where
  "proc_errsend ses tftperrcode emsg ins si w =
     ebind (case ses of None \<Rightarrow> Inr (sheap ins)
            | Some a \<Rightarrow> ebind (load (sheap ins) a) (\<lambda>n. store (sheap ins) a (n\<lparr>fin := True\<rparr>))) (\<lambda>h.
     ebind (make_tftperr_msg tftperrcode (si_msgbuf si) TFTP_MSGLEN_MAX (emsgbuf_of emsg) (length emsg))
       (\<lambda>(msglen, buf).
     let ins = ins\<lparr>sheap := h\<rparr>; si = si\<lparr>si_msgbuf := buf, si_msglen := Some msglen\<rparr> in
     if msglen = IW_ERR then Inr (False, ins, si, w)
     else Inr (True, ins, si\<lparr>si_ses := ses\<rparr>, w)))"

text \<open>Making a DATA or an ACK message for the session and falling through to \<open>done\<close>.\<close>

definition proc_send_data :: "nat \<Rightarrow> iwtftp \<Rightarrow> sendinfo \<Rightarrow> world \<Rightarrow> proc_result" where
  "proc_send_data a ins si w =
     ebind (load (sheap ins) a) (\<lambda>n.
     ebind (make_tftpdata_msg n (tads ins) (si_msgbuf si) TFTP_MSGLEN_MAX w) (\<lambda>(msglen, n, ads, buf, w).
     ebind (store (sheap ins) a n) (\<lambda>h.
     let ins = ins\<lparr>sheap := h, tads := ads\<rparr>; si = si\<lparr>si_msgbuf := buf, si_msglen := Some msglen\<rparr> in
     if msglen < 0 then proc_errsend (Some a) TFTP_ERR_SEEMSG ''server error'' ins si w
     else proc_done (Some a) ins si w)))"

definition proc_send_ack :: "nat \<Rightarrow> u16 \<Rightarrow> iwtftp \<Rightarrow> sendinfo \<Rightarrow> world \<Rightarrow> proc_result" where
  "proc_send_ack a blk ins si w =
     ebind (load (sheap ins) a) (\<lambda>n.
     ebind (make_tftpack_msg n blk (si_msgbuf si) TFTP_MSGLEN_MAX w) (\<lambda>(msglen, n, buf).
     ebind (store (sheap ins) a n) (\<lambda>h.
     let ins = ins\<lparr>sheap := h\<rparr>; si = si\<lparr>si_msgbuf := buf, si_msglen := Some msglen\<rparr> in
     if msglen = IW_ERR then proc_errsend (Some a) TFTP_ERR_SEEMSG ''server error'' ins si w
     else proc_done (Some a) ins si w)))"

text \<open>\<open>case OP_RRQ: case OP_WRQ:\<close>. When the check of the file itself fails (\<open>IW_ERR\<close>), no case of
  the inner \<open>switch\<close> applies and the request goes on.\<close>

definition proc_request ::
    "u16 \<Rightarrow> nat option \<Rightarrow> int \<Rightarrow> string \<Rightarrow> u16 \<Rightarrow> bytes \<Rightarrow> nat \<Rightarrow> iwtftp \<Rightarrow> sendinfo \<Rightarrow> world \<Rightarrow>
     proc_result" where
  "proc_request opcode clses sock ip port pkt plen ins si w =
     (case clses of
        Some a \<Rightarrow> proc_resend a ins si w
      | None \<Rightarrow>
         ebind (parse_tftpreq pkt plen) (\<lambda>reqmsg.
         case reqmsg of
           None \<Rightarrow> proc_errsend None TFTP_ERR_ILLEGALOPE [] ins si w
         | Some req \<Rightarrow>
            ebind (iwds_isfile (tads ins) (rq_filename req) w) (\<lambda>(isfile, w).
            if isfile = IW_True \<and> opcode = OP_WRQ then
              proc_errsend None TFTP_ERR_FILEEXIST [] ins si w
            else if isfile = IW_False \<and> opcode = OP_RRQ then
              proc_errsend None TFTP_ERR_NOTFOUND [] ins si w
            else
             ebind (add_newsession ins sock ip port (rq_filename req) (rq_mode req) w)
               (\<lambda>(clses, ins, w).
             case clses of
               None \<Rightarrow> proc_errsend None TFTP_ERR_SEEMSG ''server error'' ins si w
             | Some a \<Rightarrow>
                 if opcode = OP_RRQ then proc_send_data a ins si w
                 else proc_send_ack a 0 ins si w))))"

text \<open>\<open>case OP_DATA:\<close>. \<open>proc_store\<close> is the part for the next block, after the check for the last
  one, with the session \<open>n\<close> that check leaves.\<close>

definition proc_store :: "nat \<Rightarrow> session \<Rightarrow> tftpdata \<Rightarrow> iwtftp \<Rightarrow> sendinfo \<Rightarrow> world \<Rightarrow> proc_result" where
  "proc_store a n dat ins si w =
     ebind (put_session_data n (tads ins) (dt_data dat) w) (\<lambda>(r, n, ads, w).
     ebind (store (sheap ins) a n) (\<lambda>h.
     if r = IW_ERR
     then proc_errsend (Some a) TFTP_ERR_ACCESSDENY [] (ins\<lparr>sheap := h, tads := ads\<rparr>) si w
     else
      ebind (if fin n then close_data n ads w else Inr (ads, w)) (\<lambda>(ads, w).
      proc_send_ack a (dt_blknum dat) (ins\<lparr>sheap := h, tads := ads\<rparr>) si w)))"

definition proc_data ::
    "nat option \<Rightarrow> bytes \<Rightarrow> nat \<Rightarrow> iwtftp \<Rightarrow> sendinfo \<Rightarrow> world \<Rightarrow> proc_result" where
  "proc_data clses pkt plen ins si w =
     (case clses of
        None \<Rightarrow> proc_errsend None TFTP_ERR_UNKNOWNID [] ins si w
      | Some a \<Rightarrow>
         ebind (parse_tftpdata pkt plen) (\<lambda>datmsg.
         case datmsg of
           None \<Rightarrow> proc_errsend (Some a) TFTP_ERR_ILLEGALOPE [] ins si w
         | Some dat \<Rightarrow>
            ebind (load (sheap ins) a) (\<lambda>n.
            if dt_blknum dat = blknum n then proc_resend a ins si w
            else if dt_blknum dat = next_blknum (blknum n) then
              proc_store a (if plen - 4 < TFTP_DATALEN_MAX then n\<lparr>fin := True\<rparr> else n) dat ins si w
            else proc_errsend (Some a) TFTP_ERR_ILLEGALOPE [] ins si w)))"

text \<open>\<open>case OP_ACK:\<close>. The comparison with \<open>blknum - 1\<close> is one of integers, after promotion. For any
  other block number the code only logs and goes to \<open>done\<close>.\<close>

definition proc_ack ::
    "nat option \<Rightarrow> bytes \<Rightarrow> nat \<Rightarrow> iwtftp \<Rightarrow> sendinfo \<Rightarrow> world \<Rightarrow> proc_result" where
  "proc_ack clses pkt plen ins si w =
     (case clses of
        None \<Rightarrow> proc_errsend None TFTP_ERR_UNKNOWNID [] ins si w
      | Some a \<Rightarrow>
         ebind (parse_tftpack pkt plen) (\<lambda>ackmsg.
         case ackmsg of
           None \<Rightarrow> proc_errsend (Some a) TFTP_ERR_ILLEGALOPE [] ins si w
         | Some ack \<Rightarrow>
            ebind (load (sheap ins) a) (\<lambda>n.
            if uint (ak_blknum ack) = uint (blknum n) - 1 then proc_resend a ins si w
            else if ak_blknum ack = blknum n then
              (if fin n then
                 ebind (store (sheap ins) a (n\<lparr>disabled := True\<rparr>)) (\<lambda>h.
                 proc_done (Some a) (ins\<lparr>sheap := h\<rparr>) si w)
               else proc_send_data a ins si w)
            else proc_done (Some a) ins si w)))"

text \<open>\<open>case OP_ERROR:\<close>. Whether the message parses or not only changes what is logged.\<close>

definition proc_error ::
    "nat option \<Rightarrow> bytes \<Rightarrow> nat \<Rightarrow> iwtftp \<Rightarrow> sendinfo \<Rightarrow> world \<Rightarrow> proc_result" where
  "proc_error clses pkt plen ins si w =
     (case clses of
        None \<Rightarrow> Inr (False, ins, si, w)
      | Some a \<Rightarrow>
         ebind (parse_tftperror pkt plen) (\<lambda>_.
         ebind (load (sheap ins) a) (\<lambda>n.
         ebind (store (sheap ins) a (n\<lparr>disabled := True\<rparr>)) (\<lambda>h.
         ebind (close_data n (tads ins) w) (\<lambda>(ads, w).
         proc_done (Some a) (ins\<lparr>sheap := h, tads := ads\<rparr>) si w)))))"

definition tftp_proc ::
    "iwtftp \<Rightarrow> int \<Rightarrow> string \<Rightarrow> u16 \<Rightarrow> bytes \<Rightarrow> nat \<Rightarrow> sendinfo \<Rightarrow> world \<Rightarrow> proc_result" where
  "tftp_proc ins sock ip port pkt plen si w =
     ebind (ntohs_at pkt 0) (\<lambda>opcode.
     ebind (get_session ins ip port) (\<lambda>clses.
     if opcode = OP_RRQ \<or> opcode = OP_WRQ then
       proc_request opcode clses sock ip port pkt plen ins si w
     else if opcode = OP_DATA then proc_data clses pkt plen ins si w
     else if opcode = OP_ACK then proc_ack clses pkt plen ins si w
     else if opcode = OP_ERROR then proc_error clses pkt plen ins si w
     else proc_done clses ins si w))"

section \<open>The event loop\<close>

text \<open>A datagram that arrives: the descriptor it arrives at, its sender, its bytes.\<close>

type_synonym arrival = "int \<times> saddr \<times> bytes"

record service =
  v_ins :: iwtftp
  v_rbuf :: bytes
  v_si :: sendinfo
  v_world :: world

text \<open>\<open>recvfrom\<close> overwrites the front of the buffer; what a longer datagram has beyond it is lost.\<close>

definition recv_into :: "bytes \<Rightarrow> bytes \<Rightarrow> bytes" where
  "recv_into rbuf bs = take NWBUF_SIZE bs @ drop (length (take NWBUF_SIZE bs)) rbuf"

text \<open>The end of one turn of the inner loop: send \<open>sinfo.msgbuf\<close> to the sender, through the socket
  of the session if there is one.\<close>

definition send_reply :: "int \<Rightarrow> saddr \<Rightarrow> service \<Rightarrow> fault + service" where
  "send_reply fd from v =
     (let si = v_si v; w = v_world v in
      ebind (case si_ses si of None \<Rightarrow> Inr (fd, False)
             | Some a \<Rightarrow> ebind (load (sheap (v_ins v)) a) (\<lambda>n. Inr (clsock n, disabled n)))
        (\<lambda>(sendsock, dis).
      if dis then Inr v
      else
       (case si_msglen si of None \<Rightarrow> Inl Uninitialised
        | Some len \<Rightarrow>
            ebind (sys_sendto w sendsock (si_msgbuf si) len from) (\<lambda>(_, w).
            Inr (v\<lparr>v_world := w\<rparr>)))))"

definition serve_dgram :: "service \<Rightarrow> arrival \<Rightarrow> fault + service" where
  "serve_dgram v d =
     (case d of (fd, from, bs) \<Rightarrow>
      (let (ok, w) = sys_call (v_world v) in
       if \<not> ok then Inr (v\<lparr>v_world := w\<rparr>)
       else
        (let v = v\<lparr>v_rbuf := recv_into (v_rbuf v) bs, v_world := w\<rparr>; (ok, w) = sys_call (v_world v) in
         if \<not> ok \<or> length (fst from) + 1 > IPADDRLEN_MAX then Inr (v\<lparr>v_world := w\<rparr>)
         else
          ebind (tftp_proc (v_ins v) fd (fst from) (snd from) (v_rbuf v) (length (take NWBUF_SIZE bs))
              (v_si v) w) (\<lambda>(ok, ins, si, w).
          let v = v\<lparr>v_ins := ins, v_si := si, v_world := w\<rparr> in
          if \<not> ok then Inr v else send_reply fd from v))))"

fun serve_all :: "service \<Rightarrow> arrival list \<Rightarrow> fault + service" where
  "serve_all v [] = Inr v"
| "serve_all v (d # ds) = ebind (serve_dgram v d) (\<lambda>v. serve_all v ds)"

text \<open>One turn of the event loop: what \<open>epoll_wait\<close> delivers (nothing: a timeout, an interruption
  or an error), the update of the events, the resending, the clean-up. The time is read from
  the clock; \<open>now\<close> is the time this turn runs at.\<close>

definition service_round :: "service \<Rightarrow> int \<Rightarrow> arrival list \<Rightarrow> fault + service" where
  "service_round v now ds =
     (let v = v\<lparr>v_world := (v_world v)\<lparr>clock := now\<rparr>\<rparr> in
      ebind (if ds = [] then Inr v
             else
              ebind (serve_all v ds) (\<lambda>v.
              ebind (update_event (v_ins v) (v_world v)) (\<lambda>(_, ins, w).
              Inr (v\<lparr>v_ins := ins, v_world := w\<rparr>)))) (\<lambda>v.
      ebind (resend_allsession (v_ins v) (v_world v)) (\<lambda>(ins, w).
      ebind (cleanup_session ins w) (\<lambda>(ins, w).
      Inr (v\<lparr>v_ins := ins, v_world := w\<rparr>)))))"

fun service_loop :: "service \<Rightarrow> (int \<times> arrival list) list \<Rightarrow> fault + service" where
  "service_loop v [] = Inr v"
| "service_loop v ((now, ds) # rs) = ebind (service_round v now ds) (\<lambda>v. service_loop v rs)"

text \<open>Registering the server sockets; the result counts those that could be registered.\<close>

fun register_server :: "int list \<Rightarrow> world \<Rightarrow> nat \<times> world" where
  "register_server [] w = (0, w)"
| "register_server (fd # fds) w =
     (if fd \<noteq> -1 then
        (case sys_epoll_add w fd of (ok, w) \<Rightarrow>
         case register_server fds w of (k, w) \<Rightarrow> (if ok then Suc k else k, w))
      else register_server fds w)"

text \<open>\<open>iwtftp_service\<close> for the turns \<open>rs\<close> of the event loop, after which the signal handler has set
  the exit flag. \<open>rbuf\<close> and \<open>msgbuf\<close> are what the automatic buffers hold at the start.\<close>

definition iwtftp_service ::
    "iwtftp \<Rightarrow> bytes \<Rightarrow> bytes \<Rightarrow> (int \<times> arrival list) list \<Rightarrow> world \<Rightarrow> fault + int \<times> iwtftp \<times> world" where
  "iwtftp_service ins rbuf msgbuf rs w =
     (let (ok, w) = sys_call w; (nevents, w) = (if ok then register_server (svsocks ins) w else (0, w)) in
      if \<not> ok \<or> nevents = 0 then
        ebind (del_allsession ins w) (\<lambda>(ins, w).
        case close_server ins w of (ins, w) \<Rightarrow> Inr (IW_ERR, ins, w))
      else
       ebind (service_loop \<lparr>v_ins = ins, v_rbuf = rbuf,
           v_si = \<lparr>si_ses = None, si_msgbuf = msgbuf, si_msglen = None\<rparr>, v_world = w\<rparr> rs) (\<lambda>v.
       ebind (del_allsession (v_ins v) (v_world v)) (\<lambda>(ins, w).
       case close_server ins w of (ins, w) \<Rightarrow> Inr (IW_OK, ins, w))))"

end
