(* ===== verification/Tftp_Table.thy ===== *)
theory Tftp_Table
  imports Tftp_Session
begin

text \<open>
  The session table: its invariant, its abstraction to a map from client addresses to
  sessions (\<open>ses_view\<close>), and what each list operation of \<open>tftp.c\<close> does to that map. The
  clean-up loop is characterised exactly, with its use of freed memory.
\<close>

section \<open>Invariant and abstraction\<close>

definition ses_key :: "session \<Rightarrow> string \<times> u16" where
  "ses_key n = (clip n, clport n)"

interpretation stab: keyed_list ses_key
  by unfold_locales (simp add: ses_key_def strip_def)

text \<open>A session by itself: its buffers have their sizes, its counter is in range.\<close>

definition ses_inv :: "session \<Rightarrow> bool" where
  "ses_inv n \<longleftrightarrow> 0 \<le> retrycount n \<and> retrycount n \<le> RESEND_COUNTMAX \<and>
     length (lastmsg n) = TFTP_MSGLEN_MAX \<and> lastmsglen n \<le> TFTP_MSGLEN_MAX \<and>
     length (sb_storage (sesbuf n)) = SESSION_BUFSIZE \<and> sb_datalen (sesbuf n) \<le> SESSION_BUFSIZE \<and>
     is_cstring (filename n) \<and> length (filename n) < TFTP_FILENAME_MAX"

definition tab_wf :: "iwtftp \<Rightarrow> nat list \<Rightarrow> bool" where
  "tab_wf ins ps \<longleftrightarrow> dll (sheap ins) (seshead ins) ps \<and> (\<forall>a \<in> set ps. a < sbrk ins) \<and>
     distinct (keys_of ses_key (sheap ins) ps) \<and> (\<forall>a \<in> set ps. ses_inv (the (sheap ins a)))"

definition ses_view :: "iwtftp \<Rightarrow> nat list \<Rightarrow> (string \<times> u16) \<Rightarrow> session option" where
  "ses_view ins ps = map_of (map (\<lambda>a. (ses_key (the (sheap ins a)), strip (the (sheap ins a)))) ps)"

lemma ses_inv_strip [simp]: "ses_inv (strip n) = ses_inv n"
  by (simp add: ses_inv_def strip_def)

lemma ses_inv_links [simp]: "ses_inv (n\<lparr>nxt := x\<rparr>) = ses_inv n" "ses_inv (n\<lparr>prv := x\<rparr>) = ses_inv n"
  by (simp_all add: ses_inv_def)

lemma tab_wfD:
  assumes "tab_wf ins ps"
  shows "dll (sheap ins) (seshead ins) ps" "length ps \<le> sbrk ins"
    "distinct (keys_of ses_key (sheap ins) ps)" "distinct ps"
    "a \<in> set ps \<Longrightarrow> ses_inv (the (sheap ins a))" "a \<in> set ps \<Longrightarrow> \<exists>n. sheap ins a = Some n"
  using assms distinct_bounded_length [of ps "sbrk ins"] dll_allocated [of "sheap ins" "seshead ins" ps a]
  by (auto simp: tab_wf_def dll_distinct)

lemma tab_wf_tads [simp]: "tab_wf (ins\<lparr>tads := x\<rparr>) ps = tab_wf ins ps"
  "ses_view (ins\<lparr>tads := x\<rparr>) ps = ses_view ins ps"
  by (simp_all add: tab_wf_def ses_view_def)

lemma tab_wf_key_unique:
  assumes "tab_wf ins ps" and "a \<in> set ps" and "b \<in> set ps"
    and "ses_key (the (sheap ins a)) = ses_key (the (sheap ins b))"
  shows "a = b"
  using tab_wfD(3) [OF assms(1)] assms(2-4)
  by (auto simp: keys_of_def distinct_map dest: inj_onD)

lemma ses_view_mem:
  assumes "tab_wf ins ps" and "a \<in> set ps" and "sheap ins a = Some n"
  shows "ses_view ins ps (ses_key n) = Some (strip n)"
proof -
  let ?f = "\<lambda>a. (ses_key (the (sheap ins a)), strip (the (sheap ins a)))"
  have "distinct (map fst (map ?f ps))"
    using tab_wfD(3) [OF assms(1)] by (simp add: keys_of_def comp_def)
  moreover have "(ses_key n, strip n) \<in> set (map ?f ps)"
    using assms(2,3) by force
  ultimately show ?thesis unfolding ses_view_def by (rule map_of_is_SomeI)
qed

lemma ses_view_None: "ses_view ins ps k = None \<longleftrightarrow> k \<notin> set (keys_of ses_key (sheap ins) ps)"
  by (simp add: ses_view_def map_of_eq_None_iff keys_of_def image_image)

lemma ses_view_Some:
  assumes "tab_wf ins ps" and "ses_view ins ps k = Some m"
  shows "\<exists>a n. a \<in> set ps \<and> sheap ins a = Some n \<and> ses_key n = k \<and> m = strip n"
proof -
  have "(k, m) \<in> set (map (\<lambda>a. (ses_key (the (sheap ins a)), strip (the (sheap ins a)))) ps)"
    using assms(2) unfolding ses_view_def by (rule map_of_SomeD)
  then obtain a where "a \<in> set ps" "k = ses_key (the (sheap ins a))" "m = strip (the (sheap ins a))"
    by auto
  moreover from this obtain n where "sheap ins a = Some n" using tab_wfD(6) [OF assms(1)] by blast
  ultimately show ?thesis by auto
qed

section \<open>Search\<close>

lemma get_session_ok:
  assumes "tab_wf ins ps"
  shows "\<exists>r. get_session ins ip port = Inr r \<and>
    (case r of None \<Rightarrow> ses_view ins ps (ip, port) = None
     | Some a \<Rightarrow> a \<in> set ps \<and> ses_key (the (sheap ins a)) = (ip, port))"
  unfolding get_session_def ses_view_None
  by (rule stab.lookup [OF tab_wfD(1,2) [OF assms]]) (simp add: ses_match_def ses_key_def)

lemma get_session_cases:
  assumes "tab_wf ins ps"
  obtains (none) "get_session ins ip port = Inr None" "ses_view ins ps (ip, port) = None"
  | (some) a n where "get_session ins ip port = Inr (Some a)" "a \<in> set ps" "sheap ins a = Some n"
      "clip n = ip" "clport n = port" "ses_inv n" "ses_view ins ps (ip, port) = Some (strip n)"
proof -
  obtain r where r: "get_session ins ip port = Inr r"
    "case r of None \<Rightarrow> ses_view ins ps (ip, port) = None
     | Some a \<Rightarrow> a \<in> set ps \<and> ses_key (the (sheap ins a)) = (ip, port)"
    using get_session_ok [OF assms] by blast
  show thesis
  proof (cases r)
    case (Some a)
    then have a: "a \<in> set ps" "ses_key (the (sheap ins a)) = (ip, port)" using r by auto
    then obtain n where n: "sheap ins a = Some n" using tab_wfD(6) [OF assms] by blast
    with a ses_view_mem [OF assms a(1) n] tab_wfD(5) [OF assms a(1)] r Some some show thesis
      by (auto simp: ses_key_def)
  qed (use r none in auto)
qed

text \<open>The search is the lookup in the abstract map.\<close>

lemma get_session_found:
  assumes "tab_wf ins ps" and "a \<in> set ps" and "sheap ins a = Some n"
  shows "get_session ins (clip n) (clport n) = Inr (Some a)"
  unfolding get_session_def
  by (rule stab.lookup_unique [OF tab_wfD(1,2,3) [OF assms(1)] assms(2)])
    (simp add: ses_match_def ses_key_def assms(3))

section \<open>Updating a session\<close>

lemma map_of_upd_mid:
  assumes "map_of xs k = None"
  shows "map_of (xs @ (k, v') # ys) = (map_of (xs @ (k, v) # ys))(k \<mapsto> v')"
  using assms by (auto simp: fun_eq_iff map_add_def split: option.splits)

lemma ses_view_upd:
  assumes "tab_wf ins ps" and "a \<in> set ps" and "sheap ins a = Some n" and "ses_key m = ses_key n"
  shows "ses_view (ins\<lparr>sheap := (sheap ins)(a \<mapsto> m)\<rparr>) ps = (ses_view ins ps)(ses_key n \<mapsto> strip m)"
proof -
  obtain xs ys where ps: "ps = xs @ a # ys" using assms(2) by (meson split_list)
  have d: "a \<notin> set xs" "a \<notin> set ys" using tab_wfD(4) [OF assms(1)] ps by auto
  let ?F = "\<lambda>b. (ses_key (the (sheap ins b)), strip (the (sheap ins b)))"
  let ?h = "(sheap ins)(a \<mapsto> m)"
  let ?G = "\<lambda>b. (ses_key (the (?h b)), strip (the (?h b)))"
  have "ses_key n \<notin> set (keys_of ses_key (sheap ins) xs)"
    using tab_wfD(3) [OF assms(1)] assms(3) ps by (auto simp: keys_of_def)
  then have no: "map_of (map ?F xs) (ses_key n) = None"
    by (simp add: map_of_eq_None_iff keys_of_def image_image)
  have g: "map ?G xs = map ?F xs" "map ?G ys = map ?F ys" using d by auto
  have "map ?G ps = map ?F xs @ (ses_key n, strip m) # map ?F ys"
    unfolding ps map_append list.map g using assms(4) by simp
  moreover have "map ?F ps = map ?F xs @ (ses_key n, strip n) # map ?F ys"
    unfolding ps using assms(3) by simp
  ultimately show ?thesis
    using map_of_upd_mid [OF no, of "strip m" "map ?F ys" "strip n"] by (simp add: ses_view_def)
qed

lemma tab_wf_upd:
  assumes "tab_wf ins ps" and "a \<in> set ps" and "sheap ins a = Some n"
    and "nxt m = nxt n" and "prv m = prv n" and "ses_key m = ses_key n" and "ses_inv m"
  shows "tab_wf (ins\<lparr>sheap := (sheap ins)(a \<mapsto> m)\<rparr>) ps"
proof -
  have "keys_of ses_key ((sheap ins)(a \<mapsto> m)) ps = keys_of ses_key (sheap ins) ps"
    using assms(3,6) by (auto simp: keys_of_def)
  then show ?thesis
    using assms dll_store_payload [of "sheap ins" "seshead ins" ps a n m] by (auto simp: tab_wf_def)
qed

section \<open>Tables with the same payload\<close>

text \<open>Nodes with the same payload: the same map, keys and invariants.\<close>

lemma table_cong:
  assumes al: "\<And>a. a \<in> set ps \<Longrightarrow> \<exists>n. sheap ins a = Some n"
    and same: "\<And>a. a \<in> set ps \<Longrightarrow> map_option strip (sheap ins' a) = map_option strip (sheap ins a)"
  shows "ses_view ins' ps = ses_view ins ps"
    and "keys_of ses_key (sheap ins') ps = keys_of ses_key (sheap ins) ps"
    and "a \<in> set ps \<Longrightarrow> ses_inv (the (sheap ins' a)) = ses_inv (the (sheap ins a))"
proof -
  have n: "strip (the (sheap ins' a)) = strip (the (sheap ins a))" if "a \<in> set ps" for a
    using same [OF that] al [OF that] by auto
  have k: "ses_key (the (sheap ins' a)) = ses_key (the (sheap ins a))" if "a \<in> set ps" for a
    using arg_cong [OF n [OF that], of ses_key] unfolding stab.key_strip .
  show "ses_view ins' ps = ses_view ins ps"
    unfolding ses_view_def by (rule arg_cong [where f = map_of]) (use n k in auto)
  show "keys_of ses_key (sheap ins') ps = keys_of ses_key (sheap ins) ps"
    using k by (simp add: keys_of_def)
  show "ses_inv (the (sheap ins' a)) = ses_inv (the (sheap ins a))" if "a \<in> set ps"
    using arg_cong [OF n [OF that], of ses_inv] by simp
qed

text \<open>A new node in front of the list adds its client to the map.\<close>

lemma table_Cons:
  assumes wf: "tab_wf ins ps" and dl: "dll (sheap ins') (seshead ins') (a # ps)" and b: "sbrk ins' = Suc (sbrk ins)"
    and same: "\<And>b. b \<in> set ps \<Longrightarrow> map_option strip (sheap ins' b) = map_option strip (sheap ins b)"
    and a: "a = sbrk ins" "sheap ins' a = Some m" "ses_inv m" and new: "ses_view ins ps (ses_key m) = None"
  shows "tab_wf ins' (a # ps)" and "ses_view ins' (a # ps) = (ses_view ins ps)(ses_key m \<mapsto> strip m)"
proof -
  note c = table_cong [where ps = ps, OF tab_wfD(6) [OF wf] same]
  have "keys_of ses_key (sheap ins') (a # ps) = ses_key m # keys_of ses_key (sheap ins) ps"
    using c(2) a(2) by (simp add: keys_of_def)
  moreover have "ses_key m \<notin> set (keys_of ses_key (sheap ins) ps)" using new by (simp add: ses_view_None)
  ultimately show "tab_wf ins' (a # ps)"
    using wf dl b a c(3) by (auto simp: tab_wf_def less_Suc_eq)
  show "ses_view ins' (a # ps) = (ses_view ins ps)(ses_key m \<mapsto> strip m)"
    using c(1) a(2) by (simp add: ses_view_def)
qed

text \<open>A node out of the list takes its client from the map.\<close>

lemma table_remove:
  assumes wf: "tab_wf ins (xs @ a # ys)" and n: "sheap ins a = Some n"
    and dl: "dll (sheap ins') (seshead ins') (xs @ ys)" and b: "sbrk ins' = sbrk ins"
    and same: "\<And>b. b \<in> set (xs @ ys) \<Longrightarrow> map_option strip (sheap ins' b) = map_option strip (sheap ins b)"
  shows "tab_wf ins' (xs @ ys)" and "ses_view ins' (xs @ ys) = (ses_view ins (xs @ a # ys))(ses_key n := None)"
proof -
  have "\<exists>m. sheap ins b = Some m" if "b \<in> set (xs @ ys)" for b
    using tab_wfD(6) [OF wf] that by simp
  note c = table_cong [where ps = "xs @ ys", OF this same]
  have u: "distinct (keys_of ses_key (sheap ins) (xs @ ys))" "ses_key n \<notin> set (keys_of ses_key (sheap ins) (xs @ ys))"
    using tab_wfD(3) [OF wf] n by (auto simp: keys_of_def)
  show "tab_wf ins' (xs @ ys)" using wf dl b c(2,3) u(1) by (auto simp: tab_wf_def)
  have "ses_view ins (xs @ ys) = (ses_view ins (xs @ a # ys))(ses_key n := None)"
  proof
    fix k
    show "ses_view ins (xs @ ys) k = ((ses_view ins (xs @ a # ys))(ses_key n := None)) k"
      using n u(2) by (cases "k = ses_key n") (auto simp: ses_view_None, auto simp: ses_view_def map_add_def split: option.splits)
  qed
  then show "ses_view ins' (xs @ ys) = (ses_view ins (xs @ a # ys))(ses_key n := None)" using c(1) by simp
qed

section \<open>Creation\<close>

text \<open>The node of a new session comes in front of the list.\<close>

lemma create_session_link:
  assumes d: "dll (sheap ins) (seshead ins) ps" and fresh: "sbrk ins \<notin> set ps"
    and ok: "outcome w (tick w) = 0" "outcome w (Suc (tick w)) = 0"
  obtains ins' n where "create_session ins w = Inr (Some (sbrk ins), ins', w\<lparr>tick := tick w + 2\<rparr>)"
    "dll (sheap ins') (seshead ins') (sbrk ins # ps)" "sbrk ins' = Suc (sbrk ins)"
    "sheap ins' (sbrk ins) = Some n" "strip n = empty_session"
    "\<And>a. a \<in> set ps \<Longrightarrow> map_option strip (sheap ins' a) = map_option strip (sheap ins a)"
    "tads ins' = tads ins" "svsocks ins' = svsocks ins"
proof -
  let ?a = "sbrk ins" and ?h = "(sheap ins)(sbrk ins \<mapsto> empty_session)"
  have e0: "nxt empty_session = None" "prv empty_session = None" "strip empty_session = empty_session"
    by (simp_all add: empty_session_def strip_def)
  let ?h2 = "case ps of [] \<Rightarrow> ?h
     | b # _ \<Rightarrow> ?h(?a \<mapsto> empty_session\<lparr>nxt := Some b\<rparr>, b \<mapsto> (the (?h b))\<lparr>prv := Some ?a\<rparr>)"
  have al: "\<exists>m. sheap ins b = Some m" if "b \<in> set ps" for b using dll_allocated [OF d that] by auto
  have l: "dll ?h2 (Some ?a) (?a # ps)"
    by (rule dll_link_front [OF dll_other [OF d fresh] fresh _ e0(2,1) refl]) simp
  have c: "create_session ins w = Inr (Some ?a, ins\<lparr>sheap := ?h2, sbrk := Suc ?a, seshead := Some ?a\<rparr>,
      w\<lparr>tick := tick w + 2\<rparr>)"
  proof (cases ps)
    case Nil
    then have "seshead ins = None" using d by simp
    with ok Nil show ?thesis by (simp add: create_session_def sys_malloc_def draw_def Let_def)
  next
    case (Cons b bs)
    then have "seshead ins = Some b" using d by (simp add: dll_def)
    moreover have "b \<noteq> ?a" using fresh Cons by auto
    ultimately show ?thesis
      using ok Cons al [of b] by (auto simp: create_session_def sys_malloc_def draw_def Let_def)
  qed
  have s: "map_option strip (?h2 b) = map_option strip (sheap ins b)" if b: "b \<in> set ps" for b
    using al [OF b] b fresh by (cases ps) auto
  obtain n where n: "?h2 ?a = Some n" "strip n = empty_session"
    using fresh e0 by (cases ps) auto
  show thesis by (rule that [OF c _ _ _ n(2)]) (use l n(1) s in simp_all)
qed

lemma create_session_ok:
  assumes wf: "tab_wf ins ps"
  obtains (none) ins' w' where "create_session ins w = Inr (None, ins', w')" "tab_wf ins' ps"
      "ses_view ins' ps = ses_view ins ps" "same_files w w'" "same_env w w'" "\<not> fault_free w"
      "tads ins' = tads ins" "svsocks ins' = svsocks ins"
  | (some) ins' w' n where "create_session ins w = Inr (Some (sbrk ins), ins', w')"
      "dll (sheap ins') (seshead ins') (sbrk ins # ps)" "sbrk ins' = Suc (sbrk ins)"
      "sheap ins' (sbrk ins) = Some n" "strip n = empty_session" "sbrk ins \<notin> set ps"
      "\<And>a. a \<in> set ps \<Longrightarrow> map_option strip (sheap ins' a) = map_option strip (sheap ins a)"
      "w' = w\<lparr>tick := tick w + 2\<rparr>" "tads ins' = tads ins" "svsocks ins' = svsocks ins"
proof -
  have fresh: "sbrk ins \<notin> set ps" using wf by (auto simp: tab_wf_def)
  consider (first) "outcome w (tick w) \<noteq> 0" | (second) "outcome w (tick w) = 0" "outcome w (Suc (tick w)) \<noteq> 0"
    | (ok) "outcome w (tick w) = 0" "outcome w (Suc (tick w)) = 0" by argo
  then show thesis
  proof cases
    case first
    then have "\<not> fault_free w" by (auto simp: fault_free_def)
    with first none [of ins "w\<lparr>tick := Suc (tick w)\<rparr>"] wf show thesis
      by (simp add: create_session_def sys_malloc_def draw_def same_files_def same_env_def)
  next
    case second
    let ?ins = "ins\<lparr>sheap := (sheap ins)(sbrk ins \<mapsto> empty_session), sbrk := Suc (sbrk ins)\<rparr>"
    have s: "map_option strip (sheap ?ins a) = map_option strip (sheap ins a)" if "a \<in> set ps" for a
      using that fresh by auto
    note c = table_cong [where ps = ps, OF tab_wfD(6) [OF wf] s]
    have "dll (sheap ?ins) (seshead ?ins) ps" using dll_other [OF tab_wfD(1) [OF wf] fresh] by simp
    then have "tab_wf ?ins ps" using wf c(2,3) by (auto simp: tab_wf_def less_Suc_eq)
    moreover have "\<not> fault_free w" using second by (auto simp: fault_free_def)
    ultimately show thesis
      using second none [of ?ins "w\<lparr>tick := Suc (Suc (tick w))\<rparr>"] c(1)
      by (simp add: create_session_def sys_malloc_def draw_def same_files_def same_env_def Let_def)
  next
    case ok
    then show thesis
      by (rule create_session_link [OF tab_wfD(1) [OF wf] fresh]) (rule some; (assumption | rule fresh refl))
  qed
qed

section \<open>Deletion\<close>

lemma unlink_session_unlink:
  "unlink_session ins tmp =
   ebind (unlink (sheap ins) (seshead ins) tmp) (\<lambda>(h, hp). Inr (ins\<lparr>sheap := h, seshead := hp\<rparr>))"
  by (cases "load (sheap ins) tmp")
    (auto simp: unlink_session_def unlink_def ebind_assoc split: option.splits)

text \<open>Deleting a session removes its address from the map, frees its node and closes its socket.\<close>

lemma del_session_ok:
  assumes wf: "tab_wf ins (xs @ a # ys)" and n: "sheap ins a = Some n"
  shows "\<exists>ins'. del_session ins (clip n) (clport n) w = Inr (ins', sys_close w (clsock n)) \<and>
    tab_wf ins' (xs @ ys) \<and> sheap ins' a = None \<and> sbrk ins' = sbrk ins \<and> tads ins' = tads ins \<and>
    svsocks ins' = svsocks ins \<and>
    ses_view ins' (xs @ ys) = (ses_view ins (xs @ a # ys))(ses_key n := None)"
proof -
  note d = tab_wfD [OF wf]
  have g: "get_session ins (clip n) (clport n) = Inr (Some a)"
    by (rule get_session_found [OF wf _ n]) simp
  obtain h' hp' where r: "ebind (unlink (sheap ins) (seshead ins) a)
        (\<lambda>(h, hp). ebind (free h a) (\<lambda>h. Inr (h, hp))) = Inr (h', hp')"
      "dll h' hp' (xs @ ys)" "h' a = None" "\<forall>b. b \<noteq> a \<longrightarrow> map_option strip (h' b) = map_option strip (sheap ins b)"
    using stab.remove [OF d(1,3)] by blast
  then obtain h1 where h1: "unlink (sheap ins) (seshead ins) a = Inr (h1, hp')" "free h1 a = Inr h'"
    by (auto simp: ebind_Inr_iff)
  obtain n1 where n1: "h1 a = Some n1" "strip n1 = strip n"
    using same_payload_Some [OF unlink_payload [OF h1(1)] n] by blast
  have sk: "clsock n1 = clsock n"
    using arg_cong [OF n1(2), of clsock] by (simp add: strip_def)
  let ?ins = "ins\<lparr>sheap := h', seshead := hp'\<rparr>"
  have del: "del_session ins (clip n) (clport n) w = Inr (?ins, sys_close w (clsock n))"
    using g h1 n1(1) sk by (simp add: del_session_def unlink_session_unlink)
  have dl: "dll (sheap ?ins) (seshead ?ins) (xs @ ys)" using r(2) by simp
  have same: "map_option strip (sheap ?ins b) = map_option strip (sheap ins b)" if "b \<in> set (xs @ ys)" for b
    using r(4) that d(4) by auto
  show ?thesis
    using del r(3) table_remove [OF wf n dl _ same] by (intro exI [of _ ?ins]) simp
qed

section \<open>Clean-up\<close>

lemma cleanup_loop_ok:
  assumes wf: "tab_wf ins ps" and "ps = xs @ ys" and "length ys \<le> k"
    and "chain (sheap ins) pv ys None"
  shows "cleanup_loop k ins (hd_ptr ys) w =
    (case find (\<lambda>a. ses_due (clock w) (the (sheap ins a))) ys of
       None \<Rightarrow> Inr (ins, w) | Some a \<Rightarrow> Inl (Use_after_free a))"
  using assms(2-4)
proof (induction ys arbitrary: xs k pv)
  case (Cons a ys)
  then obtain k' where k: "k = Suc k'" by (cases k) auto
  obtain n where n: "sheap ins a = Some n" "nxt n = hd_ptr ys" "chain (sheap ins) (Some a) ys None"
    using Cons.prems(3) by (cases ys) (auto split: option.splits if_splits)
  show ?case
  proof (cases "ses_due (clock w) n")
    case True
    obtain ins' where "del_session ins (clip n) (clport n) w = Inr (ins', sys_close w (clsock n))"
        "sheap ins' a = None"
      using del_session_ok [OF wf [unfolded Cons.prems(1)] n(1)] by blast
    with True n k show ?thesis by simp
  next
    case False
    have "cleanup_loop k' ins (hd_ptr ys) w =
        (case find (\<lambda>a. ses_due (clock w) (the (sheap ins a))) ys of
           None \<Rightarrow> Inr (ins, w) | Some a \<Rightarrow> Inl (Use_after_free a))"
      by (rule Cons.IH [of "xs @ [a]" k' "Some a"]) (use Cons.prems k n in auto)
    with False n k show ?thesis by simp
  qed
qed simp

end
