(* ===== verification/Tftp_Frame.thy ===== *)
theory Tftp_Frame
  imports Tftp_Proc Tftp_Table
begin

text \<open>
  What the handler of a datagram leaves alone, whatever fails: the identity of the sessions
  it works on, every session of another client, the form of the table and of the message
  buffers.
\<close>

section \<open>The identity of a session\<close>

text \<open>\<open>same_id n m\<close>: \<open>m\<close> is the session \<open>n\<close> after some work on its transfer state.\<close>

definition same_id :: "session \<Rightarrow> session \<Rightarrow> bool" where
  "same_id n m \<longleftrightarrow> nxt m = nxt n \<and> prv m = prv n \<and> clip m = clip n \<and> clport m = clport n \<and>
     clsock m = clsock n \<and> filename m = filename n \<and> tftpmode m = tftpmode n \<and>
     (ses_inv n \<longrightarrow> ses_inv m)"

named_theorems same_id_intros

lemma same_id_refl [simp, same_id_intros]: "same_id n n"
  by (simp add: same_id_def)

lemma same_id_trans [trans]: "\<lbrakk>same_id n m; same_id m l\<rbrakk> \<Longrightarrow> same_id n l"
  by (simp add: same_id_def)

lemma same_id_key: "same_id n m \<Longrightarrow> ses_key m = ses_key n"
  by (simp add: same_id_def ses_key_def)

lemma same_id_flags [simp, same_id_intros]:
  "same_id n (n\<lparr>fin := b\<rparr>)" "same_id n (n\<lparr>disabled := b\<rparr>)" "same_id n (n\<lparr>blknum := blk\<rparr>)"
  "same_id n (n\<lparr>regevent := b\<rparr>)" "same_id n (n\<lparr>lastsending := t\<rparr>)"
  by (simp_all add: same_id_def ses_inv_def)

lemma same_id_set_sb [same_id_intros]:
  "length (sb_storage sb) = length (sb_storage (sesbuf n)) \<Longrightarrow>
   (length (sb_storage (sesbuf n)) = SESSION_BUFSIZE \<Longrightarrow> sb_datalen (sesbuf n) \<le> SESSION_BUFSIZE \<Longrightarrow>
    sb_datalen sb \<le> SESSION_BUFSIZE) \<Longrightarrow> same_id n (set_sb n sb)"
  by (simp add: same_id_def ses_inv_def)

lemma load_data_same:
  assumes "load_data n ads w = Inr (ok, m, ads', w')"
  shows "same_id n m"
proof -
  let ?sb = "sesbuf n"
  from assms obtain bs req ads1 w1 st where r: "wr_bytes (sb_storage ?sb) 0 bs = Inr st"
      "m = set_sb n (?sb\<lparr>sb_storage := st, sb_datalen := length bs\<rparr>) \<or>
       m = set_sb n (?sb\<lparr>sb_storage := st, sb_datalen := length bs, sb_pos := 0\<rparr>)"
    unfolding load_data_def Let_def by (auto simp: ebind_Inr_iff split: if_splits)
  have "length st = length (sb_storage ?sb)" "length bs \<le> length (sb_storage ?sb)"
    using r(1) by (auto simp: wr_bytes_def split: if_splits)
  with r(2) show ?thesis by (auto intro: same_id_set_sb)
qed

lemma save_data_same:
  "save_data n ads w = Inr (ok, m, ads', w') \<Longrightarrow> same_id n m"
  by (auto simp: save_data_def ebind_Inr_iff Let_def split: if_splits intro!: same_id_set_sb)

lemma l2n_scan_datalen:
  "l2n_scan st ps dstlen n bufsize = Inr (ps', dstlen', n', found) \<Longrightarrow> n' \<le> n"
  by (induction st ps dstlen n bufsize rule: l2n_scan.induct)
    (fastforce simp: ebind_Inr_iff split: if_splits)+

lemma local_to_netascii_frame:
  assumes "local_to_netascii dst pd bufsize sb = Inr (len, dst', sb')"
  shows "length dst' = length dst \<and> sb_storage sb' = sb_storage sb \<and> sb_datalen sb' \<le> sb_datalen sb"
proof -
  from assms obtain ps dstlen n found dst1 where
    s: "l2n_scan (sb_storage sb) (sb_pos sb) 0 (sb_datalen sb) bufsize = Inr (ps, dstlen, n, found)"
    and d: "(if dstlen > 0 then ebind (rd_bytes (sb_storage sb) (sb_pos sb) dstlen) (\<lambda>bs. wr_bytes dst pd bs)
      else Inr dst) = Inr dst1"
    by (auto simp: local_to_netascii_def ebind_Inr_iff)
  have n: "n \<le> sb_datalen sb" by (rule l2n_scan_datalen [OF s])
  have l1: "length dst1 = length dst"
    using d by (auto simp: ebind_Inr_iff split: if_splits dest: wr_bytes_length)
  consider "\<not> found" | "found" "bufsize - dstlen \<ge> 2" "sb_fopt sb" | "found" "bufsize - dstlen \<ge> 2" "\<not> sb_fopt sb"
    | "found" "bufsize - dstlen = 1" | "found" "bufsize - dstlen = 0" by linarith
  then show ?thesis
  proof cases
    case 2
    with assms l1 n show ?thesis unfolding local_to_netascii_def s ebind_simps prod.case d
      by (auto simp: ebind_Inr_iff Let_def dest: wr_byte_length)
  next
    case 3
    with assms l1 n show ?thesis unfolding local_to_netascii_def s ebind_simps prod.case d
      by (auto simp: ebind_Inr_iff Let_def dest!: wr_byte_length)
  next
    case 4
    with assms l1 n show ?thesis unfolding local_to_netascii_def s ebind_simps prod.case d
      by (auto simp: ebind_Inr_iff Let_def dest: wr_byte_length)
  qed (use assms l1 n in \<open>auto simp: local_to_netascii_def s ebind_simps d Let_def\<close>)
qed

lemma gsd_copy_frame:
  "gsd_copy n buf pm sz = Inr (len, buf', m) \<Longrightarrow> same_id n m \<and> length buf' = length buf"
  by (auto simp: gsd_copy_def ebind_Inr_iff Let_def split: tftp_mode.splits
      dest!: wr_bytes_length local_to_netascii_frame intro!: same_id_set_sb)

lemma gsd_loop_frame:
  "gsd_loop n ads buf pm sz tot w = Inr (r, m, ads', buf', w') \<Longrightarrow>
   same_id n m \<and> length buf' = length buf \<and> (r = -1 \<or> 0 \<le> r)"
proof (induction n ads buf pm sz tot w rule: gsd_loop.induct)
  case (1 n ads buf pm sz tot w)
  obtain ok n1 ads1 w1 where l: "(if sb_datalen (sesbuf n) = 0 then load_data n ads w
      else Inr (True, n, ads, w)) = Inr (ok, n1, ads1, w1)"
    using 1(2) by (subst (asm) gsd_loop.simps) (auto simp: ebind_Inr_iff)
  then have s1: "same_id n n1" by (auto split: if_splits dest: load_data_same)
  show ?case
  proof (cases "ok \<and> sb_datalen (sesbuf n1) \<noteq> 0")
    case False
    with 1(2) l s1 show ?thesis
      by (subst (asm) gsd_loop.simps) (auto split: if_splits)
  next
    case True
    then obtain len buf1 n2 where c: "gsd_copy n1 buf pm sz = Inr (len, buf1, n2)"
      using 1(2) l by (subst (asm) gsd_loop.simps) (auto simp: ebind_Inr_iff)
    have s2: "same_id n n2" "length buf1 = length buf"
      using gsd_copy_frame [OF c] s1 same_id_trans by auto
    show ?thesis
    proof (cases "len < sz")
      case True': True
      have "gsd_loop n2 ads1 buf1 (pm + len) (sz - len) (tot + len) w1 = Inr (r, m, ads', buf', w')"
        using 1(2) l c True True' by (subst (asm) gsd_loop.simps) simp
      with 1(1) [OF l refl refl refl _ _ c refl refl True'] True s2 same_id_trans show ?thesis by auto
    next
      case False
      with 1(2) l c True s2 show ?thesis by (subst (asm) gsd_loop.simps) auto
    qed
  qed
qed

lemma n2l_scan_avail: "n2l_scan src avail k = (k', found) \<Longrightarrow> k \<le> avail \<Longrightarrow> k' \<le> avail"
  by (induction src avail k rule: n2l_scan.induct) (auto split: if_splits)

lemma netascii_to_local_frame:
  assumes "netascii_to_local sb src = Inr (len, sb')"
  shows "length (sb_storage sb') = length (sb_storage sb) \<and>
    (sb_datalen sb \<le> SESSION_BUFSIZE \<longrightarrow> sb_datalen sb' \<le> SESSION_BUFSIZE)"
proof -
  obtain j found where s: "n2l_scan src (sz_sub SESSION_BUFSIZE (sb_datalen sb)) 0 = (j, found)"
    by (cases "n2l_scan src (sz_sub SESSION_BUFSIZE (sb_datalen sb)) 0")
  have "j \<le> sz_sub SESSION_BUFSIZE (sb_datalen sb)" using n2l_scan_avail [OF s] by simp
  then have "sb_datalen sb \<le> SESSION_BUFSIZE \<longrightarrow> sb_datalen sb + j \<le> SESSION_BUFSIZE" by auto
  with assms show ?thesis unfolding netascii_to_local_def s
    by (auto simp: ebind_Inr_iff split: if_splits dest!: wr_bytes_length)
qed

lemma psd_copy_same:
  assumes "psd_copy n src = Inr (len, m)"
  shows "same_id n m"
proof (cases "tftpmode n")
  case TFTP_MODE_NETASCII
  with assms show ?thesis
    by (auto simp: psd_copy_def ebind_Inr_iff Let_def dest!: netascii_to_local_frame intro!: same_id_set_sb)
next
  case TFTP_MODE_OCTET
  let ?sb = "sesbuf n" and ?l = "if sz_sub SESSION_BUFSIZE (sb_datalen (sesbuf n)) > length src
    then length src else sz_sub SESSION_BUFSIZE (sb_datalen (sesbuf n))"
  from assms TFTP_MODE_OCTET obtain st where st: "wr_bytes (sb_storage ?sb) (sb_pos ?sb) (take ?l src) = Inr st"
      "m = set_sb n (?sb\<lparr>sb_storage := st, sb_pos := sb_pos ?sb + ?l, sb_datalen := sb_datalen ?sb + ?l\<rparr>)"
    unfolding psd_copy_def Let_def by (auto simp: ebind_Inr_iff)
  have "sb_datalen ?sb \<le> SESSION_BUFSIZE \<Longrightarrow> sb_datalen ?sb + ?l \<le> SESSION_BUFSIZE" by auto
  with wr_bytes_length [OF st(1)] show ?thesis unfolding st(2) by (intro same_id_set_sb) auto
qed

lemma psd_loop_same: "psd_loop n ads src tot w = Inr (r, m, ads', w') \<Longrightarrow> same_id n m"
proof (induction n ads src tot w rule: psd_loop.induct)
  case (1 n ads src tot w)
  obtain len n1 where c: "psd_copy n src = Inr (len, n1)"
    using 1(2) by (subst (asm) psd_loop.simps) (auto simp: ebind_Inr_iff)
  obtain ok n2 ads2 w2 where v: "(if sb_datalen (sesbuf n1) = SESSION_BUFSIZE \<or> fin n1
      then save_data n1 ads w else Inr (True, n1, ads, w)) = Inr (ok, n2, ads2, w2)"
    using 1(2) c by (subst (asm) psd_loop.simps) (auto simp: ebind_Inr_iff)
  have s2: "same_id n n2"
    using psd_copy_same [OF c] v by (auto split: if_splits intro: same_id_trans dest: save_data_same)
  show ?case
  proof (cases "ok \<and> len < length src")
    case False
    with 1(2) c v s2 show ?thesis by (subst (asm) psd_loop.simps) (auto split: if_splits)
  next
    case True
    then have "psd_loop n2 ads2 (drop len src) (tot + len) w2 = Inr (r, m, ads', w')"
      using 1(2) c v by (subst (asm) psd_loop.simps) simp
    with 1(1) [OF c refl v refl refl refl] True s2 same_id_trans show ?thesis by auto
  qed
qed

lemma put_session_data_same:
  "put_session_data n ads src w = Inr (r, m, ads', w') \<Longrightarrow> same_id n m"
  by (auto simp: put_session_data_def split: if_splits dest: psd_loop_same)

lemma keep_lastmsg_same:
  assumes "keep_lastmsg n buf len w = Inr m" and "length buf = TFTP_MSGLEN_MAX"
  shows "same_id n m"
proof -
  from assms(1) obtain bs lm where k: "rd_bytes buf 0 len = Inr bs" "wr_bytes (lastmsg n) 0 bs = Inr lm"
      "m = n\<lparr>lastmsg := lm, lastmsglen := len, lastsending := clock w, retrycount := 0\<rparr>"
    by (auto simp: keep_lastmsg_def ebind_Inr_iff)
  have "len \<le> TFTP_MSGLEN_MAX" using k(1) assms(2) by (auto simp: rd_bytes_def split: if_splits)
  with k wr_bytes_length [OF k(2)] show ?thesis by (simp add: same_id_def ses_inv_def)
qed

lemma make_tftpdata_msg_frame:
  assumes "make_tftpdata_msg n ads buf TFTP_MSGLEN_MAX w = Inr (r, m, ads', buf', w')"
    and "length buf = TFTP_MSGLEN_MAX"
  shows "same_id n m \<and> length buf' = TFTP_MSGLEN_MAX"
proof -
  let ?n1 = "n\<lparr>blknum := next_blknum (blknum n)\<rparr>"
  from assms(1) obtain buf1 buf2 len n2 ads2 buf3 w2 where g:
      "wr_bytes buf 0 (put_be16 OP_DATA) = Inr buf1" "wr_bytes buf1 2 (put_be16 (blknum ?n1)) = Inr buf2"
      "get_session_data ?n1 ads buf2 4 TFTP_DATALEN_MAX w = Inr (len, n2, ads2, buf3, w2)"
    by (auto simp: make_tftpdata_msg_def ebind_Inr_iff Let_def)
  have s2: "same_id n n2" and l3: "length buf3 = TFTP_MSGLEN_MAX"
    using gsd_loop_frame [OF g(3) [unfolded get_session_data_def]] same_id_trans [OF same_id_flags(3)]
      wr_bytes_length [OF g(1)] wr_bytes_length [OF g(2)] assms(2) by auto
  show ?thesis
  proof (cases "len = -1")
    case True
    with assms(1) g s2 l3 show ?thesis by (simp add: make_tftpdata_msg_def Let_def)
  next
    case False
    let ?mid = "if len < int TFTP_DATALEN_MAX
        then ebind (close_data (n2\<lparr>fin := True\<rparr>) ads2 w2) (\<lambda>(ads, w). Inr (n2\<lparr>fin := True\<rparr>, ads, w))
        else Inr (n2, ads2, w2)"
    have "ebind ?mid (\<lambda>(n, ads, w). ebind (keep_lastmsg n buf3 (4 + nat len) w) (\<lambda>n.
        Inr (4 + len, n, ads, buf3, w))) = Inr (r, m, ads', buf', w')"
      using assms(1) False unfolding make_tftpdata_msg_def Let_def
      by (simp add: g(1) g(2) [simplified] g(3) [simplified])
    then obtain x where x: "?mid = Inr x" "(case x of (n, ads, w) \<Rightarrow>
        ebind (keep_lastmsg n buf3 (4 + nat len) w) (\<lambda>n. Inr (4 + len, n, ads, buf3, w))) =
        Inr (r, m, ads', buf', w')"
      by (rule ebind_InrE)
    obtain n3 ads3 w3 where e: "x = (n3, ads3, w3)" by (cases x)
    have s3: "same_id n2 n3" using x(1) unfolding e by (auto simp: ebind_Inr_iff split: if_splits)
    have k: "keep_lastmsg n3 buf3 (4 + nat len) w3 = Inr m" "buf' = buf3"
      using x(2) unfolding e by (auto simp: ebind_Inr_iff)
    show ?thesis
      using same_id_trans [OF s2 same_id_trans [OF s3 keep_lastmsg_same [OF k(1) l3]]] l3 k(2) by simp
  qed
qed

lemma make_tftpack_msg_frame:
  assumes "make_tftpack_msg n blk buf TFTP_MSGLEN_MAX w = Inr (r, m, buf')"
    and "length buf = TFTP_MSGLEN_MAX"
  shows "same_id n m \<and> length buf' = TFTP_MSGLEN_MAX"
proof -
  let ?n1 = "n\<lparr>blknum := blk\<rparr>"
  from assms(1) obtain buf1 where g: "wr_bytes buf 0 (put_be16 OP_ACK) = Inr buf1"
      "wr_bytes buf1 2 (put_be16 (blknum ?n1)) = Inr buf'" "keep_lastmsg ?n1 buf' 4 w = Inr m"
    by (auto simp: make_tftpack_msg_def ebind_Inr_iff Let_def)
  then have "length buf' = TFTP_MSGLEN_MAX"
    using wr_bytes_length [OF g(1)] wr_bytes_length [OF g(2)] assms(2) by simp
  with keep_lastmsg_same [OF g(3)] same_id_flags(3) same_id_trans show ?thesis by metis
qed

lemma make_tftperr_msg_frame:
  "make_tftperr_msg ecode buf sz emsg len = Inr (r, buf') \<Longrightarrow> length buf' = length buf"
  by (auto simp: make_tftperr_msg_def ebind_Inr_iff split: if_splits dest!: wr_bytes_length)

section \<open>The handler and the table\<close>

text \<open>After the handler: the table is well formed, no other client's session has changed, the
  message buffer has its size.\<close>

definition proc_frame ::
    "string \<times> u16 \<Rightarrow> iwtftp \<Rightarrow> nat list \<Rightarrow> iwtftp \<Rightarrow> sendinfo \<Rightarrow> bool" where
  "proc_frame k ins ps ins' si' \<longleftrightarrow>
     (\<exists>ps'. tab_wf ins' ps' \<and> (\<forall>k'. k' \<noteq> k \<longrightarrow> ses_view ins' ps' k' = ses_view ins ps k') \<and>
        (\<forall>a. si_ses si' = Some a \<longrightarrow> a \<in> set ps')) \<and>
     length (si_msgbuf si') = TFTP_MSGLEN_MAX \<and> svsocks ins' = svsocks ins"

text \<open>A place in the middle of the handler: table \<open>ps'\<close>, with the client's session at \<open>a\<close>.\<close>

definition at_session ::
    "string \<times> u16 \<Rightarrow> iwtftp \<Rightarrow> nat list \<Rightarrow> iwtftp \<Rightarrow> nat list \<Rightarrow> nat \<Rightarrow> bool" where
  "at_session k ins ps ins' ps' a \<longleftrightarrow> tab_wf ins' ps' \<and> a \<in> set ps' \<and>
     ses_key (the (sheap ins' a)) = k \<and> svsocks ins' = svsocks ins \<and>
     (\<forall>k'. k' \<noteq> k \<longrightarrow> ses_view ins' ps' k' = ses_view ins ps k')"

lemma at_session_load:
  assumes "at_session k ins ps ins' ps' a"
  obtains n where "sheap ins' a = Some n" "ses_key n = k" "ses_inv n" "tab_wf ins' ps'" "a \<in> set ps'"
proof -
  have wf: "tab_wf ins' ps'" "a \<in> set ps'" "ses_key (the (sheap ins' a)) = k"
    using assms by (simp_all add: at_session_def)
  obtain n where "sheap ins' a = Some n" using tab_wfD(6) [OF wf(1,2)] by blast
  with wf tab_wfD(5) [OF wf(1,2)] that show thesis by simp
qed

lemma at_session_store:
  assumes "at_session k ins ps ins' ps' a" and "sheap ins' a = Some n" and "same_id n m"
  shows "at_session k ins ps (ins'\<lparr>sheap := (sheap ins')(a \<mapsto> m)\<rparr>) ps' a"
proof -
  have wf: "tab_wf ins' ps'" "a \<in> set ps'" "ses_key n = k" using assms(1,2) by (auto simp: at_session_def)
  have "ses_inv n" using tab_wfD(5) [OF wf(1,2)] assms(2) by simp
  then have "tab_wf (ins'\<lparr>sheap := (sheap ins')(a \<mapsto> m)\<rparr>) ps'"
    using assms(3) by (intro tab_wf_upd [OF wf(1,2) assms(2)]) (auto simp: same_id_def ses_key_def)
  moreover have "ses_key m = ses_key n" using assms(3) by (rule same_id_key)
  ultimately show ?thesis
    using assms(1) ses_view_upd [OF wf(1,2) assms(2)] wf(3) by (auto simp: at_session_def)
qed

lemma at_session_tads [simp]:
  "at_session k ins ps (ins'\<lparr>tads := x\<rparr>) ps' a = at_session k ins ps ins' ps' a"
  by (simp add: at_session_def)

lemma at_session_done:
  assumes "at_session k ins ps ins' ps' a" and "length (si_msgbuf si') = TFTP_MSGLEN_MAX"
    and "si_ses si' = Some a"
  shows "proc_frame k ins ps ins' si'"
  using assms by (auto simp: proc_frame_def at_session_def)

lemma proc_done_frame:
  assumes "at_session k ins ps ins1 ps1 a" and "length (si_msgbuf si) = TFTP_MSGLEN_MAX"
    and "proc_done (Some a) ins1 si w = Inr (ok, ins', si', w')"
  shows "proc_frame k ins ps ins' si'"
  using assms by (auto simp: proc_done_def intro: at_session_done)

lemma proc_resend_frame:
  assumes s: "at_session k ins ps ins1 ps1 a" and l: "length (si_msgbuf si) = TFTP_MSGLEN_MAX"
    and r: "proc_resend a ins1 si w = Inr (ok, ins', si', w')"
  shows "proc_frame k ins ps ins' si'"
proof -
  obtain n where n: "sheap ins1 a = Some n" "ses_inv n" by (rule at_session_load [OF s])
  show ?thesis
  proof (cases "retrycount n < RESEND_COUNTMAX")
    case True
    let ?m = "n\<lparr>lastsending := clock w, retrycount := retrycount n + 1\<rparr>"
    from r n True obtain bs buf where b: "wr_bytes (si_msgbuf si) 0 bs = Inr buf"
        "ins' = ins1\<lparr>sheap := (sheap ins1)(a \<mapsto> ?m)\<rparr>" "si_msgbuf si' = buf" "si_ses si' = Some a"
      by (auto simp: proc_resend_def ebind_Inr_iff)
    have "same_id n ?m" using n(2) True by (simp add: same_id_def ses_inv_def)
    from at_session_store [OF s n(1) this] b wr_bytes_length [OF b(1)] l show ?thesis
      by (auto intro: at_session_done)
  next
    case False
    let ?m = "n\<lparr>disabled := True\<rparr>"
    from r n False obtain ads where "ins' = ins1\<lparr>sheap := (sheap ins1)(a \<mapsto> ?m), tads := ads\<rparr>"
        "si_msgbuf si' = si_msgbuf si" "si_ses si' = Some a"
      by (auto simp: proc_resend_def ebind_Inr_iff)
    with at_session_store [OF s n(1), of ?m] l show ?thesis by (auto intro: at_session_done)
  qed
qed

lemma proc_errsend_frame_Some:
  assumes s: "at_session k ins ps ins1 ps1 a" and l: "length (si_msgbuf si) = TFTP_MSGLEN_MAX"
    and sa: "\<And>b. si_ses si = Some b \<Longrightarrow> b \<in> set ps1"
    and r: "proc_errsend (Some a) code emsg ins1 si w = Inr (ok, ins', si', w')"
  shows "proc_frame k ins ps ins' si'"
proof -
  obtain n where n: "sheap ins1 a = Some n" by (rule at_session_load [OF s])
  let ?m = "n\<lparr>fin := True\<rparr>"
  from r n obtain msglen buf where m: "make_tftperr_msg code (si_msgbuf si) TFTP_MSGLEN_MAX (emsgbuf_of emsg)
        (length emsg) = Inr (msglen, buf)" "ins' = ins1\<lparr>sheap := (sheap ins1)(a \<mapsto> ?m)\<rparr>"
      "si_msgbuf si' = buf" "si_ses si' = Some a \<or> si_ses si' = si_ses si"
    by (auto simp: proc_errsend_def ebind_Inr_iff Let_def split: if_splits)
  have "at_session k ins ps ins' ps1 a" using at_session_store [OF s n, of ?m] m(2) by simp
  with m(3,4) make_tftperr_msg_frame [OF m(1)] l sa show ?thesis
    by (auto simp: proc_frame_def at_session_def)
qed

lemma proc_errsend_frame_None:
  assumes wf: "tab_wf ins1 ps1" "\<And>k'. k' \<noteq> k \<Longrightarrow> ses_view ins1 ps1 k' = ses_view ins ps k'"
      "svsocks ins1 = svsocks ins"
    and sa: "\<And>b. si_ses si = Some b \<Longrightarrow> b \<in> set ps1"
    and l: "length (si_msgbuf si) = TFTP_MSGLEN_MAX"
    and r: "proc_errsend None code emsg ins1 si w = Inr (ok, ins', si', w')"
  shows "proc_frame k ins ps ins' si'"
proof -
  from r obtain msglen buf where m: "make_tftperr_msg code (si_msgbuf si) TFTP_MSGLEN_MAX (emsgbuf_of emsg)
        (length emsg) = Inr (msglen, buf)" "ins' = ins1"
      "si_msgbuf si' = buf" "si_ses si' = None \<or> si_ses si' = si_ses si"
    by (auto simp: proc_errsend_def ebind_Inr_iff Let_def split: if_splits)
  with make_tftperr_msg_frame [OF m(1)] wf sa l show ?thesis by (auto simp: proc_frame_def)
qed

lemma proc_send_data_frame:
  assumes s: "at_session k ins ps ins1 ps1 a" and l: "length (si_msgbuf si) = TFTP_MSGLEN_MAX"
    and sa: "\<And>b. si_ses si = Some b \<Longrightarrow> b \<in> set ps1"
    and r: "proc_send_data a ins1 si w = Inr (ok, ins', si', w')"
  shows "proc_frame k ins ps ins' si'"
proof -
  obtain n where n: "sheap ins1 a = Some n" by (rule at_session_load [OF s])
  from r n obtain len m ads buf w1 where mk:
      "make_tftpdata_msg n (tads ins1) (si_msgbuf si) TFTP_MSGLEN_MAX w = Inr (len, m, ads, buf, w1)"
    by (auto simp: proc_send_data_def ebind_Inr_iff)
  let ?ins = "ins1\<lparr>sheap := (sheap ins1)(a \<mapsto> m), tads := ads\<rparr>"
    and ?si = "si\<lparr>si_msgbuf := buf, si_msglen := Some len\<rparr>"
  have f: "same_id n m" "length buf = TFTP_MSGLEN_MAX" using make_tftpdata_msg_frame [OF mk l] by auto
  have s2: "at_session k ins ps ?ins ps1 a" using at_session_store [OF s n f(1)] by simp
  from r n mk have "(if len < 0 then proc_errsend (Some a) TFTP_ERR_SEEMSG ''server error'' ?ins ?si w1
      else proc_done (Some a) ?ins ?si w1) = Inr (ok, ins', si', w')"
    by (simp add: proc_send_data_def Let_def)
  then show ?thesis
    using proc_errsend_frame_Some [OF s2, of ?si] proc_done_frame [OF s2, of ?si] f(2) sa
    by (auto split: if_splits)
qed

lemma proc_send_ack_frame:
  assumes s: "at_session k ins ps ins1 ps1 a" and l: "length (si_msgbuf si) = TFTP_MSGLEN_MAX"
    and sa: "\<And>b. si_ses si = Some b \<Longrightarrow> b \<in> set ps1"
    and r: "proc_send_ack a blk ins1 si w = Inr (ok, ins', si', w')"
  shows "proc_frame k ins ps ins' si'"
proof -
  obtain n where n: "sheap ins1 a = Some n" by (rule at_session_load [OF s])
  from r n obtain len m buf where mk:
      "make_tftpack_msg n blk (si_msgbuf si) TFTP_MSGLEN_MAX w = Inr (len, m, buf)"
    by (auto simp: proc_send_ack_def ebind_Inr_iff)
  let ?ins = "ins1\<lparr>sheap := (sheap ins1)(a \<mapsto> m)\<rparr>"
    and ?si = "si\<lparr>si_msgbuf := buf, si_msglen := Some len\<rparr>"
  have f: "same_id n m" "length buf = TFTP_MSGLEN_MAX" using make_tftpack_msg_frame [OF mk l] by auto
  have s2: "at_session k ins ps ?ins ps1 a" by (rule at_session_store [OF s n f(1)])
  from r n mk have "(if len = IW_ERR then proc_errsend (Some a) TFTP_ERR_SEEMSG ''server error'' ?ins ?si w
      else proc_done (Some a) ?ins ?si w) = Inr (ok, ins', si', w')"
    by (simp add: proc_send_ack_def Let_def)
  then show ?thesis
    using proc_errsend_frame_Some [OF s2, of ?si] proc_done_frame [OF s2, of ?si] f(2) sa
    by (auto split: if_splits)
qed

text \<open>What \<open>add_newsession\<close> has done when the fields of the session are set.\<close>

lemma init_session_front:
  fixes md :: string
  assumes wf: "tab_wf ins ps" and new: "ses_view ins ps (ip, port) = None"
    and ip: "length ip < IPADDRLEN_MAX" and cs: "is_cstring file"
    and dl: "dll (sheap ins1) (seshead ins1) (sbrk ins # ps)" and b: "sbrk ins1 = Suc (sbrk ins)"
    and n: "sheap ins1 (sbrk ins) = Some n" "strip n = empty_session" and fresh: "sbrk ins \<notin> set ps"
    and same: "\<And>a. a \<in> set ps \<Longrightarrow> map_option strip (sheap ins1 a) = map_option strip (sheap ins a)"
    and sv: "svsocks ins1 = svsocks ins"
  defines "m \<equiv> init_session n ip port file md"
  defines "ins2 \<equiv> ins1\<lparr>sheap := (sheap ins1)(sbrk ins \<mapsto> m)\<rparr>"
  shows "at_session (ip, port) ins ps ins2 (sbrk ins # ps) (sbrk ins)" and "ses_inv m"
proof -
  have "ses_inv n"
    using ses_inv_strip [of n] n(2) by (simp add: ses_inv_def empty_session_def empty_storage_def is_cstring_def)
  then show im: "ses_inv m"
    using cs by (auto simp: m_def ses_inv_def init_session_def strncpy0_def is_cstring_def dest: in_set_takeD)
  have km: "ses_key m = (ip, port)" and lm: "nxt m = nxt n" "prv m = prv n"
    using ip by (simp_all add: m_def ses_key_def init_session_def strncpy0_def)
  have "dll (sheap ins2) (seshead ins2) (sbrk ins # ps)"
    using dll_store_payload [OF dl n(1) lm] by (simp add: ins2_def)
  moreover have "map_option strip (sheap ins2 a) = map_option strip (sheap ins a)" if "a \<in> set ps" for a
    using same [OF that] that fresh by (auto simp: ins2_def)
  moreover have "sbrk ins2 = Suc (sbrk ins)" "sheap ins2 (sbrk ins) = Some m" by (simp_all add: ins2_def b)
  ultimately have "tab_wf ins2 (sbrk ins # ps)"
      "ses_view ins2 (sbrk ins # ps) = (ses_view ins ps)(ses_key m \<mapsto> strip m)"
    using table_Cons [OF wf _ _ _ refl _ im] new km by simp_all
  then show "at_session (ip, port) ins ps ins2 (sbrk ins # ps) (sbrk ins)"
    using km sv by (simp add: at_session_def ins2_def)
qed

text \<open>A new session gets the key of its client; a failure leaves the table usable, with or
  without a half-built session in it.\<close>

lemma add_newsession_frame:
  assumes wf: "tab_wf ins ps" and new: "ses_view ins ps (ip, port) = None"
    and ip: "length ip < IPADDRLEN_MAX" and cs: "is_cstring file"
    and r: "add_newsession ins svsock ip port file md w = Inr (r, ins', w')"
  shows "\<exists>ps'. tab_wf ins' ps' \<and> set ps \<subseteq> set ps' \<and>
    (\<forall>k'. k' \<noteq> (ip, port) \<longrightarrow> ses_view ins' ps' k' = ses_view ins ps k') \<and> svsocks ins' = svsocks ins \<and>
    (\<forall>a. r = Some a \<longrightarrow> at_session (ip, port) ins ps ins' ps' a)"
  using wf
proof (cases rule: create_session_ok [where w = w])
  case (none ins1 w1)
  with r have "r = None" "ins' = ins1" by (simp_all add: add_newsession_def)
  with none show ?thesis by auto
next
  case (some ins1 w1 n)
  let ?a = "sbrk ins" and ?m = "init_session n ip port file md"
  let ?ins2 = "ins1\<lparr>sheap := (sheap ins1)(?a \<mapsto> ?m)\<rparr>"
  note f = init_session_front [OF wf new ip cs some(2-7,10), where md = md]
  consider (none) "r = None" "ins' = ?ins2"
    | (sock) fd where "ins' = ?ins2\<lparr>sheap := (sheap ?ins2)(?a \<mapsto> ?m\<lparr>clsock := fd\<rparr>)\<rparr>"
        "r = (if fd = IW_ERR then None else Some ?a)"
    using r some(1,4)
    by (auto simp: add_newsession_def ebind_Inr_iff Let_def split: prod.splits option.splits if_splits)
  then show ?thesis
  proof cases
    case none
    then show ?thesis using f(1) by (intro exI [of _ "?a # ps"]) (auto simp: at_session_def)
  next
    case (sock fd)
    let ?m2 = "?m\<lparr>clsock := fd\<rparr>"
    have wf2: "tab_wf ?ins2 (?a # ps)" and a: "?a \<in> set (?a # ps)" "sheap ?ins2 ?a = Some ?m"
      and k: "ses_key ?m = (ip, port)" using f(1) by (simp_all add: at_session_def)
    have m2: "ses_inv ?m2" "ses_key ?m2 = ses_key ?m" using f(2) by (simp_all add: ses_inv_def ses_key_def)
    have "at_session (ip, port) ins ps ins' (?a # ps) ?a"
      unfolding sock(1) using f(1) k tab_wf_upd [OF wf2 a, of ?m2] ses_view_upd [OF wf2 a m2(2)] m2
      by (simp add: at_session_def)
    then show ?thesis using sock(2) by (intro exI [of _ "?a # ps"]) (auto simp: at_session_def)
  qed
qed

lemma at_session_start:
  assumes "tab_wf ins ps" and "a \<in> set ps" and "sheap ins a = Some n" and "clip n = ip" and "clport n = port"
  shows "at_session (ip, port) ins ps ins ps a"
  using assms by (simp add: at_session_def ses_key_def)

text \<open>The end of the case of a request: the session is made, and the first message.\<close>

lemma proc_new_frame:
  assumes wf: "tab_wf ins ps" and new: "ses_view ins ps (ip, port) = None" and ip: "length ip < IPADDRLEN_MAX"
    and l: "length (si_msgbuf si) = TFTP_MSGLEN_MAX" and sa: "\<And>b. si_ses si = Some b \<Longrightarrow> b \<in> set ps"
    and cs: "is_cstring file"
    and r: "ebind (add_newsession ins sock ip port file md w) (\<lambda>(clses, ins, w). case clses of
        None \<Rightarrow> proc_errsend None TFTP_ERR_SEEMSG ''server error'' ins si w
      | Some a \<Rightarrow> if opcode = OP_RRQ then proc_send_data a ins si w else proc_send_ack a 0 ins si w) =
      Inr (ok, ins', si', w')"
  shows "proc_frame (ip, port) ins ps ins' si'"
proof -
  obtain r2 ins2 w2 where a: "add_newsession ins sock ip port file md w = Inr (r2, ins2, w2)"
      "(case r2 of None \<Rightarrow> proc_errsend None TFTP_ERR_SEEMSG ''server error'' ins2 si w2
        | Some a \<Rightarrow> if opcode = OP_RRQ then proc_send_data a ins2 si w2 else proc_send_ack a 0 ins2 si w2) =
       Inr (ok, ins', si', w')"
    using r by (elim ebind_InrE) auto
  obtain ps2 where t: "tab_wf ins2 ps2" "set ps \<subseteq> set ps2" "svsocks ins2 = svsocks ins"
      "\<And>k'. k' \<noteq> (ip, port) \<Longrightarrow> ses_view ins2 ps2 k' = ses_view ins ps k'"
      "\<And>a. r2 = Some a \<Longrightarrow> at_session (ip, port) ins ps ins2 ps2 a"
    using add_newsession_frame [OF wf new ip cs a(1)] by blast
  have sa2: "\<And>b. si_ses si = Some b \<Longrightarrow> b \<in> set ps2" using sa t(2) by blast
  show ?thesis
  proof (cases r2)
    case None
    with a(2) proc_errsend_frame_None [OF t(1) t(4) t(3) sa2 l] show ?thesis by simp
  next
    case (Some b)
    with a(2) proc_send_data_frame [OF t(5) l sa2] proc_send_ack_frame [OF t(5) l sa2] show ?thesis
      by (simp split: if_splits)
  qed
qed

lemma proc_request_frame:
  assumes wf: "tab_wf ins ps" and ip: "length ip < IPADDRLEN_MAX"
    and l: "length (si_msgbuf si) = TFTP_MSGLEN_MAX" and sa: "\<And>b. si_ses si = Some b \<Longrightarrow> b \<in> set ps"
    and g: "get_session ins ip port = Inr clses"
    and r: "proc_request opcode clses sock ip port pkt plen ins si w = Inr (ok, ins', si', w')"
  shows "proc_frame (ip, port) ins ps ins' si'"
  using wf
proof (cases rule: get_session_cases [where ip = ip and port = port])
  case (some a n)
  have "clses = Some a" using g some(1) by simp
  with proc_resend_frame [OF at_session_start [OF wf some(2-5)] l] r show ?thesis
    by (simp add: proc_request_def)
next
  case none
  have cl: "clses = None" using g none(1) by simp
  note errN = proc_errsend_frame_None [OF wf _ _ sa l, where k = "(ip, port)" and ins = ins and ps = ps]
  from r cl obtain req where p: "parse_tftpreq pkt plen = Inr req" by (auto simp: proc_request_def ebind_Inr_iff)
  show ?thesis
  proof (cases req)
    case None
    with r cl p errN show ?thesis by (simp add: proc_request_def)
  next
    case (Some q)
    from r cl p Some obtain isf w1 where f: "iwds_isfile (tads ins) (rq_filename q) w = Inr (isf, w1)"
      by (auto simp: proc_request_def ebind_Inr_iff)
    have cs: "is_cstring (rq_filename q)" using wreq.parse_sound p Some by (auto simp: req_wf_def)
    show ?thesis
    proof (cases "isf = IW_True \<and> opcode = OP_WRQ \<or> isf = IW_False \<and> opcode = OP_RRQ")
      case True
      with r cl p Some f errN show ?thesis
        by (simp add: proc_request_def) (metis (no_types, lifting))
    next
      case False
      with r cl p Some f have "ebind (add_newsession ins sock ip port (rq_filename q) (rq_mode q) w1)
          (\<lambda>(clses, ins, w). case clses of
            None \<Rightarrow> proc_errsend None TFTP_ERR_SEEMSG ''server error'' ins si w
          | Some a \<Rightarrow> if opcode = OP_RRQ then proc_send_data a ins si w else proc_send_ack a 0 ins si w) =
          Inr (ok, ins', si', w')"
        by (auto simp: proc_request_def simp del: de_Morgan_conj)
      then show ?thesis using proc_new_frame [OF wf none(2) ip l sa cs] by simp
    qed
  qed
qed

lemma proc_store_frame:
  assumes s: "at_session k ins ps ins ps a" and n: "sheap ins a = Some n" and m: "same_id n m"
    and l: "length (si_msgbuf si) = TFTP_MSGLEN_MAX" and sa: "\<And>b. si_ses si = Some b \<Longrightarrow> b \<in> set ps"
    and r: "proc_store a m d ins si w = Inr (ok, ins', si', w')"
  shows "proc_frame k ins ps ins' si'"
proof -
  obtain rr m' ads w1 where q: "put_session_data m (tads ins) (dt_data d) w = Inr (rr, m', ads, w1)"
    using r unfolding proc_store_def by (rule ebind_InrE) auto
  have sm: "same_id n m'" using m put_session_data_same [OF q] same_id_trans by blast
  let ?ins = "\<lambda>ads. ins\<lparr>sheap := (sheap ins)(a \<mapsto> m'), tads := ads\<rparr>"
  have s2: "at_session k ins ps (?ins x) ps a" for x
    using at_session_store [OF s n sm] by simp
  consider "proc_errsend (Some a) TFTP_ERR_ACCESSDENY [] (?ins ads) si w1 = Inr (ok, ins', si', w')"
    | ads2 w2 where "proc_send_ack a (dt_blknum d) (?ins ads2) si w2 = Inr (ok, ins', si', w')"
    using r n unfolding proc_store_def q ebind_simps prod.case
    by (auto simp: ebind_Inr_iff split: if_splits)
  then show ?thesis
  proof cases
    case 1
    from proc_errsend_frame_Some [OF s2 l _ this] sa show ?thesis by blast
  next
    case (2 ads2 w2)
    from proc_send_ack_frame [OF s2 l _ 2] sa show ?thesis by blast
  qed
qed

lemma proc_data_frame:
  assumes wf: "tab_wf ins ps" and l: "length (si_msgbuf si) = TFTP_MSGLEN_MAX"
    and sa: "\<And>b. si_ses si = Some b \<Longrightarrow> b \<in> set ps" and g: "get_session ins ip port = Inr clses"
    and r: "proc_data clses pkt plen ins si w = Inr (ok, ins', si', w')"
  shows "proc_frame (ip, port) ins ps ins' si'"
  using wf
proof (cases rule: get_session_cases [where ip = ip and port = port])
  case none
  with r g proc_errsend_frame_None [OF wf _ _ sa l, where k = "(ip, port)" and ins = ins and ps = ps]
  show ?thesis by (simp add: proc_data_def)
next
  case (some a n)
  have cl: "clses = Some a" using g some(1) by simp
  note s = at_session_start [OF wf some(2-5)]
  note err = proc_errsend_frame_Some [OF s l sa]
  from r cl obtain dat where p: "parse_tftpdata pkt plen = Inr dat" by (auto simp: proc_data_def ebind_Inr_iff)
  show ?thesis
  proof (cases dat)
    case None
    with r cl p err show ?thesis by (simp add: proc_data_def)
  next
    case (Some d)
    consider (dup) "dt_blknum d = blknum n" | (next') "dt_blknum d \<noteq> blknum n" "dt_blknum d = next_blknum (blknum n)"
      | (bad) "dt_blknum d \<noteq> blknum n" "dt_blknum d \<noteq> next_blknum (blknum n)" by blast
    then show ?thesis
    proof cases
      case dup
      with r cl p Some some(3) proc_resend_frame [OF s l] show ?thesis by (simp add: proc_data_def)
    next
      case bad
      with r cl p Some some(3) err show ?thesis by (simp add: proc_data_def)
    next
      case next'
      let ?n = "if plen - 4 < TFTP_DATALEN_MAX then n\<lparr>fin := True\<rparr> else n"
      from r cl p Some some(3) next' have st: "proc_store a ?n d ins si w = Inr (ok, ins', si', w')"
        by (simp add: proc_data_def del: if_split)
      have "same_id n ?n" by simp
      then show ?thesis by (rule proc_store_frame [OF s some(3) _ l sa st])
    qed
  qed
qed

lemma proc_ack_frame:
  assumes wf: "tab_wf ins ps" and l: "length (si_msgbuf si) = TFTP_MSGLEN_MAX"
    and sa: "\<And>b. si_ses si = Some b \<Longrightarrow> b \<in> set ps" and g: "get_session ins ip port = Inr clses"
    and r: "proc_ack clses pkt plen ins si w = Inr (ok, ins', si', w')"
  shows "proc_frame (ip, port) ins ps ins' si'"
  using wf
proof (cases rule: get_session_cases [where ip = ip and port = port])
  case none
  with r g proc_errsend_frame_None [OF wf _ _ sa l, where k = "(ip, port)" and ins = ins and ps = ps]
  show ?thesis by (simp add: proc_ack_def)
next
  case (some a n)
  have cl: "clses = Some a" using g some(1) by simp
  note s = at_session_start [OF wf some(2-5)]
  from r cl obtain ack where p: "parse_tftpack pkt plen = Inr ack" by (auto simp: proc_ack_def ebind_Inr_iff)
  show ?thesis
  proof (cases ack)
    case None
    with r cl p proc_errsend_frame_Some [OF s l sa] show ?thesis by (simp add: proc_ack_def)
  next
    case (Some k)
    have "proc_resend a ins si w = Inr (ok, ins', si', w') \<or>
        proc_done (Some a) (ins\<lparr>sheap := (sheap ins)(a \<mapsto> n\<lparr>disabled := True\<rparr>)\<rparr>) si w = Inr (ok, ins', si', w') \<or>
        proc_send_data a ins si w = Inr (ok, ins', si', w') \<or> proc_done (Some a) ins si w = Inr (ok, ins', si', w')"
      using r cl p Some some(3) by (simp add: proc_ack_def split: if_splits)
    then show ?thesis
      using proc_resend_frame [OF s l] proc_send_data_frame [OF s l sa] proc_done_frame [OF s l]
        proc_done_frame [OF at_session_store [OF s some(3), of "n\<lparr>disabled := True\<rparr>"] l] by auto
  qed
qed

lemma proc_error_frame:
  assumes wf: "tab_wf ins ps" and l: "length (si_msgbuf si) = TFTP_MSGLEN_MAX"
    and sa: "\<And>b. si_ses si = Some b \<Longrightarrow> b \<in> set ps" and g: "get_session ins ip port = Inr clses"
    and r: "proc_error clses pkt plen ins si w = Inr (ok, ins', si', w')"
  shows "proc_frame (ip, port) ins ps ins' si'"
  using wf
proof (cases rule: get_session_cases [where ip = ip and port = port])
  case none
  with r g wf l sa show ?thesis by (auto simp: proc_error_def proc_frame_def)
next
  case (some a n)
  have cl: "clses = Some a" using g some(1) by simp
  note s = at_session_start [OF wf some(2-5)]
  from r cl some(3) obtain ads w1 where
      "proc_done (Some a) (ins\<lparr>sheap := (sheap ins)(a \<mapsto> n\<lparr>disabled := True\<rparr>), tads := ads\<rparr>) si w1 =
       Inr (ok, ins', si', w')"
    by (auto simp: proc_error_def ebind_Inr_iff)
  moreover have "at_session (ip, port) ins ps
      (ins\<lparr>sheap := (sheap ins)(a \<mapsto> n\<lparr>disabled := True\<rparr>), tads := ads\<rparr>) ps a"
    using at_session_store [OF s some(3), of "n\<lparr>disabled := True\<rparr>"] by simp
  ultimately show ?thesis using proc_done_frame [OF _ l] by blast
qed

lemma tftp_proc_frame:
  assumes wf: "tab_wf ins ps" and ip: "length ip < IPADDRLEN_MAX"
    and l: "length (si_msgbuf si) = TFTP_MSGLEN_MAX" and sa: "\<And>b. si_ses si = Some b \<Longrightarrow> b \<in> set ps"
    and r: "tftp_proc ins sock ip port pkt plen si w = Inr (ok, ins', si', w')"
  shows "proc_frame (ip, port) ins ps ins' si'"
proof -
  from r obtain opcode clses where o: "ntohs_at pkt 0 = Inr opcode" "get_session ins ip port = Inr clses"
    by (auto simp: tftp_proc_def ebind_Inr_iff)
  have dn: "proc_frame (ip, port) ins ps ins' si'" if d: "proc_done clses ins si w = Inr (ok, ins', si', w')"
  proof (cases clses)
    case None
    with d wf l show ?thesis by (auto simp: proc_done_def proc_frame_def)
  next
    case (Some a)
    obtain n where "a \<in> set ps" "sheap ins a = Some n" "clip n = ip" "clport n = port"
      using wf by (cases rule: get_session_cases [where ip = ip and port = port]) (use o(2) Some in auto)
    with d Some proc_done_frame [OF at_session_start [OF wf] l] show ?thesis by blast
  qed
  have "proc_request opcode clses sock ip port pkt plen ins si w = Inr (ok, ins', si', w') \<or>
      proc_data clses pkt plen ins si w = Inr (ok, ins', si', w') \<or>
      proc_ack clses pkt plen ins si w = Inr (ok, ins', si', w') \<or>
      proc_error clses pkt plen ins si w = Inr (ok, ins', si', w') \<or>
      proc_done clses ins si w = Inr (ok, ins', si', w')"
    using r o by (simp add: tftp_proc_def split: if_splits)
  then show ?thesis
  proof (elim disjE)
    assume "proc_request opcode clses sock ip port pkt plen ins si w = Inr (ok, ins', si', w')"
    from proc_request_frame [OF wf ip l _ o(2) this] sa show ?thesis by blast
  next
    assume "proc_data clses pkt plen ins si w = Inr (ok, ins', si', w')"
    from proc_data_frame [OF wf l _ o(2) this] sa show ?thesis by blast
  next
    assume "proc_ack clses pkt plen ins si w = Inr (ok, ins', si', w')"
    from proc_ack_frame [OF wf l _ o(2) this] sa show ?thesis by blast
  next
    assume "proc_error clses pkt plen ins si w = Inr (ok, ins', si', w')"
    from proc_error_frame [OF wf l _ o(2) this] sa show ?thesis by blast
  qed (rule dn)
qed

end
