(* ===== verification/Tftp_Safe.thy ===== *)
theory Tftp_Safe
  imports Tftp_Frame
begin

text \<open>
  Which faults the handling of a datagram can end in, and what it keeps. \<open>safely\<close> is a
  small program logic over the fault monad: a result is either a value with the stated
  property, or an access outside an array, or a fault that needs a failing system call. From
  a well-formed table and a well-formed data store the handler never follows a dangling
  pointer and never loops, and it leaves both well formed. \<open>hstep\<close> says what else it keeps: the
  open sockets with their sessions, and the streams other sessions have open.
\<close>

section \<open>The program logic\<close>

definition safely :: "bool \<Rightarrow> ('a \<Rightarrow> bool) \<Rightarrow> fault + 'a \<Rightarrow> bool" where
  "safely ff Q r =
     (case r of Inr x \<Rightarrow> Q x
      | Inl e \<Rightarrow> e = Out_of_bounds \<or> (e = Null_deref \<or> e = Uninitialised) \<and> \<not> ff)"

named_theorems safe

lemma safely_Inr [simp]: "safely ff Q (Inr x) = Q x"
  by (simp add: safely_def)

lemma safely_Inl [simp]:
  "safely ff Q (Inl e) \<longleftrightarrow> e = Out_of_bounds \<or> (e = Null_deref \<or> e = Uninitialised) \<and> \<not> ff"
  by (simp add: safely_def)

lemma safely_bind: "\<lbrakk>safely ff Q m; \<And>x. Q x \<Longrightarrow> safely ff R (f x)\<rbrakk> \<Longrightarrow> safely ff R (ebind m f)"
  by (cases m) auto

lemma safely_mono: "\<lbrakk>safely ff Q m; \<And>x. Q x \<Longrightarrow> R x\<rbrakk> \<Longrightarrow> safely ff R m"
  by (cases m) auto

lemma safely_and: "\<lbrakk>safely ff Q m; \<And>x. m = Inr x \<Longrightarrow> R x\<rbrakk> \<Longrightarrow> safely ff (\<lambda>x. Q x \<and> R x) m"
  by (cases m) auto

lemma safely_self: "safely ff Q m \<Longrightarrow> safely ff (\<lambda>x. Q x \<and> m = Inr x) m"
  by (cases m) auto

lemma safely_InrD: "\<lbrakk>safely ff Q m; m = Inr x\<rbrakk> \<Longrightarrow> Q x"
  by simp

lemma safely_if: "\<lbrakk>b \<Longrightarrow> safely ff Q m; \<not> b \<Longrightarrow> safely ff Q n\<rbrakk> \<Longrightarrow> safely ff Q (if b then m else n)"
  by simp

lemma safely_bytes [safe]:
  "safely ff (\<lambda>_. True) (rd_byte buf i)" "safely ff (\<lambda>_. True) (rd_bytes buf i n)"
  "safely ff (\<lambda>_. True) (wr_byte buf i b)" "safely ff (\<lambda>_. True) (wr_bytes buf i bs)"
  "safely ff (\<lambda>_. True) (cstr_at buf i)" "safely ff (\<lambda>_. True) (ntohs_at buf i)"
  by (auto simp: rd_byte_def rd_bytes_def wr_byte_def wr_bytes_def cstr_at_def ntohs_at_def)

text \<open>Functions that only work on buffers.\<close>

lemma find_nul_safe [safe]: "safely ff (\<lambda>_. True) (find_nul buf i n)"
  by (induction n arbitrary: i) (auto intro!: safely_bind safe)

lemma l2n_scan_safe [safe]: "safely ff (\<lambda>_. True) (l2n_scan st ps dstlen n bufsize)"
  by (induction n arbitrary: ps dstlen) (auto intro!: safely_bind safe)

lemma local_to_netascii_safe [safe]: "safely ff (\<lambda>_. True) (local_to_netascii dst pd bufsize sb)"
  unfolding local_to_netascii_def Let_def
  by (auto intro!: safely_bind [of ff "\<lambda>_. True"] safe split: prod.splits)

lemma gsd_copy_safe [safe]: "safely ff (\<lambda>_. True) (gsd_copy n buf pm sz)"
  unfolding gsd_copy_def Let_def
  by (auto intro!: safely_bind [of ff "\<lambda>_. True"] safe split: tftp_mode.splits prod.splits)

lemma netascii_to_local_safe [safe]: "safely ff (\<lambda>_. True) (netascii_to_local sb src)"
  unfolding netascii_to_local_def
  by (auto intro!: safely_bind [of ff "\<lambda>_. True"] safe split: prod.splits)

lemma psd_copy_safe [safe]: "safely ff (\<lambda>_. True) (psd_copy n src)"
  unfolding psd_copy_def Let_def
  by (auto intro!: safely_bind [of ff "\<lambda>_. True"] safe split: tftp_mode.splits prod.splits)

lemma keep_lastmsg_safe [safe]: "safely ff (\<lambda>_. True) (keep_lastmsg n buf len w)"
  unfolding keep_lastmsg_def by (auto intro!: safely_bind [of ff "\<lambda>_. True"] safe)

lemma parse_safe [safe]:
  "safely ff (\<lambda>_. True) (parse_tftpreq buf n)" "safely ff (\<lambda>_. True) (parse_tftpdata buf n)"
  "safely ff (\<lambda>_. True) (parse_tftpack buf n)" "safely ff (\<lambda>_. True) (parse_tftperror buf n)"
  unfolding parse_tftpreq_def parse_tftpdata_def parse_tftpack_def parse_tftperror_def Let_def
  by (auto intro!: safely_bind [of ff "\<lambda>_. True"] safe)

lemma make_tftperr_msg_safe [safe]: "safely ff (\<lambda>_. True) (make_tftperr_msg ecode buf sz emsg len)"
  unfolding make_tftperr_msg_def Let_def by (auto intro!: safely_bind [of ff "\<lambda>_. True"] safe)


section \<open>The data path\<close>

text \<open>From a well-formed data store, with a session whose buffers have their sizes.\<close>

lemma ds_step_of_refl: "ds_ok ds w ps \<Longrightarrow> ds_step_of sid ds w ds w"
  by (rule ds_step_of_same_files) simp_all

lemma ds_stepD:
  assumes "ds_step ds w ds' w'"
  shows "\<exists>ps. ds_ok ds' w' ps" "fault_free w' = fault_free w"
  using assms by (auto simp: ds_step_def fstep_def same_env_def fault_free_def)

lemmas ds_step_ofD = ds_stepD [OF ds_step_of_step]

lemma same_id_sock: "same_id n m \<Longrightarrow> clsock m = clsock n"
  by (simp add: same_id_def)

lemma close_data_safe [safe]:
  assumes "ds_ok ads w ps"
  shows "safely ff (\<lambda>(ads', w'). ds_step_of (clsock n) ads w ads' w') (close_data n ads w)"
proof -
  obtain r req' ds' w' where "iwds_close ads \<lparr>dsid = clsock n, dfile = filename n, dbuf = [], dlen = 0, derr = 0\<rparr> w =
      Inr (r, req', ds', w')" "ds_step_of (clsock n) ads w ds' w'"
    using iwds_close_safe [OF assms, of "\<lparr>dsid = clsock n, dfile = filename n, dbuf = [], dlen = 0, derr = 0\<rparr>"] by auto
  then show ?thesis by (simp add: close_data_def)
qed

lemma load_data_safe [safe]:
  assumes ok: "ds_ok ads w ps" and cs: "is_cstring (filename n)"
  shows "safely (fault_free w) (\<lambda>(_, _, ads', w'). ds_step_of (clsock n) ads w ads' w') (load_data n ads w)"
proof -
  let ?req = "\<lparr>dsid = clsock n, dfile = filename n, dbuf = sb_storage (sesbuf n), dlen = SESSION_BUFSIZE, derr = 0\<rparr>"
  have rd: "safely (fault_free w) (\<lambda>(_, _, ads', w'). ds_step_of (clsock n) ads w ads' w') (iwds_read ads ?req w)"
    using iwds_read_safe [OF ok, of ?req] cs by auto
  show ?thesis
    unfolding load_data_def Let_def
  proof (rule safely_bind [OF rd], clarify, rule safely_bind [OF safely_bytes(4)])
    fix bs req ads1 w1 st
    assume s: "ds_step_of (clsock n) ads w ads1 w1"
    obtain qs where q: "ds_ok ads1 w1 qs" using ds_step_ofD(1) [OF s] by blast
    show "safely (fault_free w) (\<lambda>(_, _, ads', w'). ds_step_of (clsock n) ads w ads' w')
      (if derr req \<noteq> 0
       then ebind (close_data (set_sb n ((sesbuf n)\<lparr>sb_storage := st, sb_datalen := length bs\<rparr>)) ads1 w1)
             (\<lambda>(ads, w). Inr (False, set_sb n ((sesbuf n)\<lparr>sb_storage := st, sb_datalen := length bs\<rparr>), ads, w))
       else Inr (True, set_sb n ((sesbuf n)\<lparr>sb_storage := st, sb_datalen := length bs, sb_pos := 0\<rparr>), ads1, w1))"
      using s by (auto intro!: safely_bind [OF close_data_safe [OF q]] intro: ds_step_of_trans)
  qed
qed

lemma save_data_safe [safe]:
  assumes ok: "ds_ok ads w ps" and n: "ses_inv n"
  shows "safely (fault_free w) (\<lambda>(_, _, ads', w'). ds_step_of (clsock n) ads w ads' w') (save_data n ads w)"
proof -
  let ?req = "\<lparr>dsid = clsock n, dfile = filename n, dbuf = sb_storage (sesbuf n), dlen = sb_datalen (sesbuf n), derr = 0\<rparr>"
  have wr: "safely (fault_free w) (\<lambda>(_, _, ads', w'). ds_step_of (clsock n) ads w ads' w') (iwds_write ads ?req w)"
    using iwds_write_safe [OF ok, of ?req] n by (auto simp: ses_inv_def)
  show ?thesis
    unfolding save_data_def Let_def
  proof (rule safely_bind [OF wr], clarify)
    fix wlen req ads1 w1
    assume s: "ds_step_of (clsock n) ads w ads1 w1"
    obtain qs where q: "ds_ok ads1 w1 qs" using ds_step_ofD(1) [OF s] by blast
    show "safely (fault_free w) (\<lambda>(_, _, ads', w'). ds_step_of (clsock n) ads w ads' w')
      (if derr req \<noteq> 0 \<or> wlen \<noteq> sb_datalen (sesbuf n)
       then ebind (close_data n ads1 w1) (\<lambda>(ads, w). Inr (False, n, ads, w))
       else Inr (True, set_sb n ((sesbuf n)\<lparr>sb_datalen := 0, sb_pos := 0\<rparr>), ads1, w1))"
      using s by (auto intro!: safely_bind [OF close_data_safe [OF q]] intro: ds_step_of_trans)
  qed
qed

text \<open>The two loops between the message and the session buffer.\<close>

lemma ses_inv_same: "\<lbrakk>same_id n m; ses_inv n\<rbrakk> \<Longrightarrow> ses_inv m"
  by (simp add: same_id_def)

lemma ses_inv_filename: "ses_inv n \<Longrightarrow> is_cstring (filename n)"
  by (simp add: ses_inv_def)

lemma gsd_loop_safe [safe]:
  assumes "ds_ok ads w ps" and "ses_inv n"
  shows "safely (fault_free w) (\<lambda>(_, _, ads', _, w'). ds_step_of (clsock n) ads w ads' w') (gsd_loop n ads buf pm sz tot w)"
  using assms
proof (induction n ads buf pm sz tot w arbitrary: ps rule: gsd_loop.induct)
  case (1 n ads buf pm sz tot w)
  let ?ld = "if sb_datalen (sesbuf n) = 0 then load_data n ads w else Inr (True, n, ads, w)"
  have "safely (fault_free w) (\<lambda>(_, _, ads', w'). ds_step_of (clsock n) ads w ads' w') ?ld"
    using load_data_safe [OF 1(2) ses_inv_filename [OF 1(3)]] ds_step_of_refl [OF 1(2)] by simp
  moreover have "same_id n m" if "?ld = Inr (ok, m, ads', w')" for ok m ads' w'
    using that by (auto split: if_splits dest: load_data_same)
  ultimately have ld: "safely (fault_free w) (\<lambda>x. (case x of (_, m, ads', w') \<Rightarrow> ds_step_of (clsock n) ads w ads' w' \<and> same_id n m) \<and> ?ld = Inr x) ?ld"
    by (cases ?ld) auto
  show ?case
  proof (subst gsd_loop.simps, rule safely_bind [OF ld], clarify, goal_cases)
    case l: (1 ok n1 ads1 w1)
    obtain qs where q: "ds_ok ads1 w1 qs" using ds_step_ofD(1) [OF l(2)] by blast
    have ff: "fault_free w1 = fault_free w" by (rule ds_step_ofD(2) [OF l(2)])
    show ?case
    proof (cases "ok \<and> sb_datalen (sesbuf n1) \<noteq> 0")
      case False
      with l(2) show ?thesis by auto
    next
      case True
      have cp: "safely (fault_free w) (\<lambda>x. gsd_copy n1 buf pm sz = Inr x) (gsd_copy n1 buf pm sz)"
        using gsd_copy_safe [of "fault_free w" n1 buf pm sz] by (cases "gsd_copy n1 buf pm sz") auto
      have "safely (fault_free w) (\<lambda>(_, _, ads', _, w'). ds_step_of (clsock n) ads w ads' w') (ebind (gsd_copy n1 buf pm sz)
          (\<lambda>(len, buf, clses). if len < sz then gsd_loop clses ads1 buf (pm + len) (sz - len) (tot + len) w1
             else Inr (int (tot + len), clses, ads1, buf, w1)))"
      proof (rule safely_bind [OF cp], clarify, goal_cases)
        case c: (1 len buf1 n2)
        have i2: "ses_inv n2" and k2: "clsock n2 = clsock n"
          using gsd_copy_frame [OF c] ses_inv_same [OF _ ses_inv_same [OF l(3) 1(3)]] l(3)
          by (simp_all add: same_id_def)
        have "safely (fault_free w1) (\<lambda>(_, _, ads', _, w'). ds_step_of (clsock n) ads1 w1 ads' w')
            (gsd_loop n2 ads1 buf1 (pm + len) (sz - len) (tot + len) w1)" if "len < sz"
          by (rule 1(1) [OF l(1) refl refl refl _ _ c refl refl that q i2, unfolded k2]) (use True in auto)
        with l(2) ff show ?case
          by (auto intro: safely_mono ds_step_of_trans)
      qed
      with True show ?thesis by simp
    qed
  qed
qed

lemma psd_loop_safe [safe]:
  assumes "ds_ok ads w ps" and "ses_inv n"
  shows "safely (fault_free w) (\<lambda>(_, _, ads', w'). ds_step_of (clsock n) ads w ads' w') (psd_loop n ads src tot w)"
  using assms
proof (induction n ads src tot w arbitrary: ps rule: psd_loop.induct)
  case (1 n ads src tot w)
  have cp: "safely (fault_free w) (\<lambda>x. psd_copy n src = Inr x) (psd_copy n src)"
    using psd_copy_safe [of "fault_free w" n src] by (cases "psd_copy n src") auto
  show ?case
  proof (subst psd_loop.simps, rule safely_bind [OF cp], clarify, goal_cases)
    case c: (1 len n1)
    have i1: "ses_inv n1" using psd_copy_same [OF c] 1(3) by (rule ses_inv_same)
    let ?sv = "if sb_datalen (sesbuf n1) = SESSION_BUFSIZE \<or> fin n1 then save_data n1 ads w else Inr (True, n1, ads, w)"
    have "safely (fault_free w) (\<lambda>(_, _, ads', w'). ds_step_of (clsock n) ads w ads' w') ?sv"
      using save_data_safe [OF 1(2) i1] ds_step_of_refl [OF 1(2)] same_id_sock [OF psd_copy_same [OF c]] by simp
    moreover have "same_id n1 m" if "?sv = Inr (ok, m, ads', w')" for ok m ads' w'
      using that by (auto split: if_splits dest: save_data_same)
    ultimately have sv: "safely (fault_free w)
        (\<lambda>x. (case x of (_, m, ads', w') \<Rightarrow> ds_step_of (clsock n) ads w ads' w' \<and> same_id n1 m) \<and> ?sv = Inr x) ?sv"
      by (cases ?sv) auto
    show ?case
    proof (rule safely_bind [OF sv], clarify, goal_cases)
      case s: (1 ok n2 ads2 w2)
      obtain qs where q: "ds_ok ads2 w2 qs" using ds_step_ofD(1) [OF s(2)] by blast
      have ff: "fault_free w2 = fault_free w" by (rule ds_step_ofD(2) [OF s(2)])
      have i2: "ses_inv n2" using s(3) i1 by (rule ses_inv_same)
      have k2: "clsock n2 = clsock n" using psd_copy_same [OF c] s(3) by (simp add: same_id_def)
      have "safely (fault_free w2) (\<lambda>(_, _, ads', w'). ds_step_of (clsock n) ads2 w2 ads' w')
          (psd_loop n2 ads2 (drop len src) (tot + len) w2)" if "ok" "len < length src"
        by (rule 1(1) [OF c refl s(1) refl refl refl _ that(2) q i2, unfolded k2]) (use that in auto)
      with s(2) ff show ?case
        by (auto intro: safely_mono ds_step_of_trans)
    qed
  qed
qed

lemma put_session_data_safe [safe]:
  assumes "ds_ok ads w ps" and "ses_inv n"
  shows "safely (fault_free w) (\<lambda>(_, _, ads', w'). ds_step_of (clsock n) ads w ads' w') (put_session_data n ads src w)"
  using psd_loop_safe [OF assms] ds_step_of_refl [OF assms(1)] by (simp add: put_session_data_def)

lemma make_tftpdata_msg_safe [safe]:
  assumes "ds_ok ads w ps" and "ses_inv n"
  shows "safely (fault_free w) (\<lambda>(_, _, ads', _, w'). ds_step_of (clsock n) ads w ads' w') (make_tftpdata_msg n ads buf sz w)"
proof (cases "sz < TFTP_MSGLEN_MAX")
  case True
  with ds_step_of_refl [OF assms(1)] show ?thesis by (simp add: make_tftpdata_msg_def)
next
  case False
  let ?n1 = "n\<lparr>blknum := next_blknum (blknum n)\<rparr>"
  have i1: "ses_inv ?n1" using assms(2) by (simp add: ses_inv_def)
  note g = safely_self [OF gsd_loop_safe [OF assms(1) i1]]
  show ?thesis
    unfolding make_tftpdata_msg_def Let_def get_session_data_def if_not_P [OF False]
  proof (rule safely_bind [OF safely_bytes(4)], rule safely_bind [OF safely_bytes(4)],
      rule safely_bind [OF g], clarify, goal_cases)
    case (1 buf1 buf2 len n2 ads2 buf3 w2)
    have st: "ds_step_of (clsock n) ads w ads2 w2" using 1(3) by simp
    obtain qs where q: "ds_ok ads2 w2 qs" using ds_step_ofD(1) [OF st] by blast
    have "clsock n2 = clsock n" using gsd_loop_frame [OF 1(4)] by (simp add: same_id_def)
    then have cl: "safely (fault_free w) (\<lambda>(ads', w'). ds_step_of (clsock n) ads2 w2 ads' w')
        (close_data (n2\<lparr>fin := True\<rparr>) ads2 w2)"
      using close_data_safe [OF q, of "fault_free w" "n2\<lparr>fin := True\<rparr>"] by simp
    have c: "safely (fault_free w) (\<lambda>(_, ads', w'). ds_step_of (clsock n) ads w ads' w')
      (if len < int TFTP_DATALEN_MAX
       then ebind (close_data (n2\<lparr>fin := True\<rparr>) ads2 w2) (\<lambda>(ads, w). Inr (n2\<lparr>fin := True\<rparr>, ads, w))
       else Inr (n2, ads2, w2))"
      using st by (auto intro!: safely_bind [OF cl] intro: ds_step_of_trans)
    have "safely (fault_free w) (\<lambda>(_, _, ads', _, w'). ds_step_of (clsock n) ads w ads' w')
      (ebind (if len < int TFTP_DATALEN_MAX
       then ebind (close_data (n2\<lparr>fin := True\<rparr>) ads2 w2) (\<lambda>(ads, w). Inr (n2\<lparr>fin := True\<rparr>, ads, w))
       else Inr (n2, ads2, w2)) (\<lambda>(clses, ads, w). ebind (keep_lastmsg clses buf3 (4 + nat len) w)
          (\<lambda>clses. Inr (4 + len, clses, ads, buf3, w))))"
      by (rule safely_bind [OF c]) (auto intro!: safely_bind [OF keep_lastmsg_safe])
    with st show ?case by simp
  qed
qed

lemma make_tftpack_msg_safe [safe]: "safely ff (\<lambda>_. True) (make_tftpack_msg n blk buf sz w)"
  unfolding make_tftpack_msg_def Let_def by (auto intro!: safely_bind [of ff "\<lambda>_. True"] safe)

section \<open>The handler\<close>

text \<open>What the handler does to the data store and the world: the store stays well formed, no
  regular file but the ones streams write changes, open sockets stay with their sessions, nothing
  is sent, and the streams open for the descriptors in \<open>S\<close> stay where they are.\<close>

lemma entry_stream_same_files: "same_files w w' \<Longrightarrow> entry_stream ds w' s f = entry_stream ds w s f"
  by (auto simp: entry_stream_def same_files_def split: sum.splits option.splits)

lemma entry_stream_upd [simp]:
  "entry_stream ds (w\<lparr>tick := t\<rparr>) s f = entry_stream ds w s f" "entry_stream ds (w\<lparr>clock := now\<rparr>) s f = entry_stream ds w s f"
  "entry_stream ds (w\<lparr>tick := t, sent := d\<rparr>) s f = entry_stream ds w s f"
  by (rule entry_stream_same_files, simp add: same_files_def)+

text \<open>The sessions of \<open>ins'\<close> are sessions of \<open>ins\<close>, with the same client, file and socket;
  \<open>socks_kept\<close> says so of those whose socket is open before the step.\<close>

definition same_socks :: "iwtftp \<Rightarrow> iwtftp \<Rightarrow> bool" where
  "same_socks ins ins' \<longleftrightarrow> (\<forall>a m. sheap ins' a = Some m \<longrightarrow>
     (\<exists>n. sheap ins a = Some n \<and> clsock n = clsock m \<and> ses_key n = ses_key m \<and> filename n = filename m))"

definition socks_kept :: "world \<Rightarrow> iwtftp \<Rightarrow> iwtftp \<Rightarrow> bool" where
  "socks_kept w ins ins' \<longleftrightarrow> (\<forall>a m. sheap ins' a = Some m \<longrightarrow> clsock m \<noteq> IW_ERR \<longrightarrow> clsock m \<in> fst ` set (socks w) \<longrightarrow>
     (\<exists>n. sheap ins a = Some n \<and> clsock n = clsock m \<and> ses_key n = ses_key m \<and> filename n = filename m))"

text \<open>The socket of a session is open, if it has one, and no other session has it; and the socket of
  every open file is open.\<close>

definition socks_ok :: "iwtftp \<Rightarrow> world \<Rightarrow> bool" where
  "socks_ok ins w \<longleftrightarrow>
     (\<forall>a n. sheap ins a = Some n \<longrightarrow> clsock n = IW_ERR \<or> map_of (socks w) (clsock n) \<noteq> None) \<and>
     (\<forall>a b n m. sheap ins a = Some n \<longrightarrow> sheap ins b = Some m \<longrightarrow> clsock m = clsock n \<longrightarrow> clsock n \<noteq> IW_ERR \<longrightarrow> b = a) \<and>
     (\<forall>s f. entry_stream (tads ins) w s f \<noteq> None \<longrightarrow> s = IW_ERR \<or> map_of (socks w) s \<noteq> None)"

lemma same_socks_refl [simp]: "same_socks ins ins" "same_socks ins (ins\<lparr>tads := x\<rparr>)"
  by (auto simp: same_socks_def)

lemma same_socks_store [simp]:
  assumes "sheap ins a \<noteq> None" and "clsock m = clsock (the (sheap ins a))"
    and "clip m = clip (the (sheap ins a))" and "clport m = clport (the (sheap ins a))"
    and "filename m = filename (the (sheap ins a))"
  shows "same_socks ins (ins\<lparr>sheap := (sheap ins)(a \<mapsto> m)\<rparr>)"
    "same_socks ins (ins\<lparr>sheap := (sheap ins)(a \<mapsto> m), tads := x\<rparr>)"
  using assms by (auto simp: same_socks_def ses_key_def)

lemma same_socks_kept: "same_socks ins ins' \<Longrightarrow> socks_kept w ins ins'"
  by (simp add: same_socks_def socks_kept_def)

lemma socks_ok_upd [simp]:
  "socks_ok ins (w\<lparr>tick := t\<rparr>) = socks_ok ins w" "socks_ok ins (w\<lparr>clock := now\<rparr>) = socks_ok ins w"
  "socks_ok ins (w\<lparr>tick := t, sent := d\<rparr>) = socks_ok ins w"
  by (simp_all add: socks_ok_def)

text \<open>A session may open and close files under its socket.\<close>

lemma socks_ok_step:
  assumes ok: "socks_ok ins w" and ss: "same_socks ins ins'" and sk: "socks w' = socks w"
    and e: "\<And>s f. entry_stream (tads ins') w' s f = entry_stream (tads ins) w s f \<or>
      (\<exists>a n. sheap ins a = Some n \<and> clsock n = s)"
  shows "socks_ok ins' w'"
  unfolding socks_ok_def
proof (intro conjI allI impI)
  fix b m assume "sheap ins' b = Some m"
  then obtain n where "sheap ins b = Some n" "clsock n = clsock m" using ss unfolding same_socks_def by blast
  with ok sk show "clsock m = IW_ERR \<or> map_of (socks w') (clsock m) \<noteq> None" unfolding socks_ok_def by metis
next
  fix a b n m assume m: "sheap ins' a = Some n" "sheap ins' b = Some m" "clsock m = clsock n" "clsock n \<noteq> IW_ERR"
  obtain n0 where "sheap ins a = Some n0" "clsock n0 = clsock n" using ss m(1) unfolding same_socks_def by blast
  moreover obtain m0 where "sheap ins b = Some m0" "clsock m0 = clsock m" using ss m(2) unfolding same_socks_def by blast
  ultimately show "b = a" using ok m(3,4) unfolding socks_ok_def by metis
next
  fix s f assume "entry_stream (tads ins') w' s f \<noteq> None"
  with ok e [of s f] sk show "s = IW_ERR \<or> map_of (socks w') s \<noteq> None" unfolding socks_ok_def by metis
qed

lemma socks_kept_trans:
  assumes "socks_kept w ins ins'" and "socks_kept w' ins' ins''"
    and "fst ` set (socks w) \<subseteq> fst ` set (socks w')"
  shows "socks_kept w ins ins''"
  unfolding socks_kept_def
proof (intro allI impI)
  fix a m assume m: "sheap ins'' a = Some m" "clsock m \<noteq> IW_ERR" "clsock m \<in> fst ` set (socks w)"
  then obtain n where n: "sheap ins' a = Some n" "clsock n = clsock m" "ses_key n = ses_key m" "filename n = filename m"
    using assms(2,3) unfolding socks_kept_def by blast
  with m assms(1) show "\<exists>n. sheap ins a = Some n \<and> clsock n = clsock m \<and> ses_key n = ses_key m \<and> filename n = filename m"
    unfolding socks_kept_def by (metis (no_types, lifting))
qed

definition hstep :: "int set \<Rightarrow> iwtftp \<Rightarrow> world \<Rightarrow> iwtftp \<Rightarrow> world \<Rightarrow> bool" where
  "hstep S ins w ins' w' \<longleftrightarrow> (\<exists>qs. ds_ok (tads ins') w' qs) \<and> same_env w w' \<and> confined w w' \<and>
     dspath (tads ins') = dspath (tads ins) \<and> (\<forall>q c. guarded w q c \<longrightarrow> guarded w' q c) \<and> sent w' = sent w \<and>
     (distinct (map fst (socks w)) \<longrightarrow> distinct (map fst (socks w')) \<and>
        (\<forall>fd a. map_of (socks w) fd = Some a \<longrightarrow> map_of (socks w') fd = Some a) \<and> socks_kept w ins ins' \<and>
        (socks_ok ins w \<longrightarrow> socks_ok ins' w')) \<and>
     (\<forall>s \<in> S. \<forall>f. entry_stream (tads ins') w' s f = entry_stream (tads ins) w s f)"

lemma hstep_ds_step:
  assumes st: "ds_step_of (clsock n) (tads ins) w ads' w'" and S: "clsock n \<notin> S" and t: "tads ins' = ads'"
    and ss: "same_socks ins ins'" and n: "sheap ins a = Some n"
  shows "hstep S ins w ins' w'"
proof -
  have "socks w' = socks w" using st by (simp add: ds_step_of_def ds_step_def fstep_def)
  moreover have "entry_stream (tads ins') w' s f = entry_stream (tads ins) w s f \<or>
      (\<exists>a n. sheap ins a = Some n \<and> clsock n = s)" for s f
    using st n t by (cases "s = clsock n") (auto simp: ds_step_of_def)
  ultimately have "socks_ok ins w \<longrightarrow> socks_ok ins' w'" using socks_ok_step [OF _ ss] by blast
  moreover have "\<forall>s \<in> S. \<forall>f. entry_stream (tads ins') w' s f = entry_stream (tads ins) w s f"
    using st S unfolding t ds_step_of_def by metis
  moreover have "ds_step (tads ins) w (tads ins') w'" using st t by (simp add: ds_step_of_def)
  ultimately show ?thesis
    using same_socks_kept [OF ss] by (auto simp: hstep_def ds_step_def fstep_def)
qed

lemma hstep_refl:
  "\<lbrakk>ds_ok (tads ins) w qs; tads ins' = tads ins; same_socks ins ins'\<rbrakk> \<Longrightarrow> hstep S ins w ins' w"
  using socks_ok_step [of ins w ins' w] by (auto simp: hstep_def same_socks_kept)

lemma hstep_tick:
  assumes "ds_ok (tads ins) w qs"
  shows "hstep S ins w ins (w\<lparr>tick := t\<rparr>)"
proof -
  have "ds_ok (tads ins) (w\<lparr>tick := t\<rparr>) qs" by (rule ds_ok_world [OF assms]) simp_all
  then show ?thesis by (auto simp: hstep_def same_env_def guarded_def same_socks_kept)
qed

lemma hstep_trans:
  assumes "hstep S ins w ins' w'" and "hstep S ins' w' ins'' w''"
  shows "hstep S ins w ins'' w''"
proof -
  have "socks_kept w ins ins''" if "distinct (map fst (socks w))"
  proof (rule socks_kept_trans)
    show "socks_kept w ins ins'" "socks_kept w' ins' ins''"
      using assms that by (simp_all add: hstep_def)
    have "\<forall>fd a. map_of (socks w) fd = Some a \<longrightarrow> map_of (socks w') fd = Some a"
      using assms(1) that unfolding hstep_def by blast
    then show "fst ` set (socks w) \<subseteq> fst ` set (socks w')"
      unfolding dom_map_of_conv_image_fst [symmetric] by (auto simp: dom_def simp del: map_of_eq_Some_iff not_None_eq intro: domI)
  qed
  with assms show ?thesis by (auto simp: hstep_def intro: same_env_trans confined_trans)
qed

lemma hstep_after:
  assumes "safely ff (\<lambda>(ok, ins'', si, w''). hstep S ins' w' ins'' w'') r" and "hstep S ins w ins' w'"
  shows "safely ff (\<lambda>(ok, ins'', si, w''). hstep S ins w ins'' w'') r"
  by (rule safely_mono [OF assms(1)]) (use assms(2) in \<open>auto intro: hstep_trans\<close>)

lemma hstepD:
  assumes "hstep S ins w ins' w'"
  shows "\<exists>qs. ds_ok (tads ins') w' qs" "fault_free w' = fault_free w"
  using assms by (auto simp: hstep_def same_env_def fault_free_def)

lemma pick_fd_nonneg: "0 \<le> k \<Longrightarrow> 0 \<le> pick_fd f used k"
  by (induction f used k rule: pick_fd.induct) auto

text \<open>The ends of \<open>create_socket\<close>: no socket, a socket that is closed again, a bound socket.\<close>

lemma create_socket_cases:
  assumes "create_socket fam ip svc w = Inr (fd, w')"
  obtains (none) t where "fd = IW_ERR" "w' = w\<lparr>tick := t\<rparr>"
  | (closed) t f a where "fd = IW_ERR" "w' = sys_close (w\<lparr>tick := t, socks := (f, a) # socks w\<rparr>) f"
      "distinct (map fst (socks w)) \<Longrightarrow> f \<notin> fst ` set (socks w)"
  | (bound) t a where "w' = w\<lparr>tick := t, socks := (fd, a) # socks w\<rparr>" "fd \<noteq> IW_ERR"
      "distinct (map fst (socks w)) \<Longrightarrow> fd \<notin> fst ` set (socks w)"
proof -
  obtain so w1 where s: "sys_socket (w\<lparr>tick := Suc (tick w)\<rparr>) = (so, w1)"
    by (cases "sys_socket (w\<lparr>tick := Suc (tick w)\<rparr>)")
  have fr: "f \<notin> fst ` set (socks w)" if "so = Some f" "distinct (map fst (socks w))" for f
    using socket_fresh [OF s [unfolded that(1)]] that(2) by simp
  show thesis
  proof (cases so)
    case None
    with s none assms show thesis
      by (auto simp: create_socket_def sys_call_def sys_socket_def draw_def Let_def split: if_splits)
  next
    case (Some f)
    then have w1: "w1 = w\<lparr>tick := tick w + 3, socks := (f, ('''', 0)) # socks w\<rparr>" and "0 \<le> f"
      using s by (auto simp: sys_socket_def draw_def Let_def pick_fd_nonneg split: if_splits)
    have "(\<exists>t. fd = IW_ERR \<and> w' = sys_close (w1\<lparr>tick := t\<rparr>) f) \<or>
        (\<exists>t ad. fd = f \<and> w' = w1\<lparr>tick := t, socks := (f, ad) # socks w\<rparr>)"
      using assms s Some unfolding w1
      by (auto simp: create_socket_def sys_call_def sys_bind_def draw_def Let_def split: if_splits)
    moreover have "w1\<lparr>tick := t\<rparr> = w\<lparr>tick := t, socks := (f, ('''', 0)) # socks w\<rparr>"
      "w1\<lparr>tick := t, socks := x\<rparr> = w\<lparr>tick := t, socks := x\<rparr>" for t x
      unfolding w1 by (cases w; simp)+
    ultimately show thesis using closed [where f = f] bound fr [OF Some] \<open>0 \<le> f\<close> by fastforce
  qed
qed

lemma create_socket_net:
  assumes "create_socket fam ip svc w = Inr (fd, w')"
  shows "same_files w w' \<and> same_env w w' \<and> sent w' = sent w \<and>
    (distinct (map fst (socks w)) \<longrightarrow> distinct (map fst (socks w')) \<and>
       (\<forall>fd a. map_of (socks w) fd = Some a \<longrightarrow> map_of (socks w') fd = Some a) \<and>
       (fd \<noteq> -1 \<longrightarrow> fd \<notin> fst ` set (socks w) \<and> fd \<in> fst ` set (socks w')))"
  using assms
proof (cases rule: create_socket_cases)
  case (closed t f a)
  have "filter (\<lambda>(g, _). g \<noteq> f) (socks w) = socks w" if "distinct (map fst (socks w))"
    using closed(3) [OF that] by (force simp: filter_id_conv)
  then show ?thesis
    using closed(1,2) by (auto simp: sys_close_def same_files_def same_env_def)
next
  case (bound t a)
  have "map_of (socks w) fd = None" if "distinct (map fst (socks w))"
    using bound(3) [OF that] by (simp add: map_of_eq_None_iff)
  then show ?thesis using bound by (auto simp: same_files_def same_env_def)
qed (simp add: same_files_def same_env_def)

lemma create_socket_safe [safe]: "safely (fault_free w) (\<lambda>_. True) (create_socket fam ip svc w)"
  by (auto simp: create_socket_def sys_call_def draw_def Let_def fault_free_def split: prod.splits option.splits)

lemma create_session_world:
  "create_session ins w = Inr (r, ins', w') \<Longrightarrow> (\<exists>t. w' = w\<lparr>tick := t\<rparr>) \<and> tads ins' = tads ins"
  by (auto simp: create_session_def sys_malloc_def draw_def Let_def ebind_Inr_iff split: if_splits)

lemma add_newsession_net:
  assumes "add_newsession ins svsock ip port file md w = Inr (r, ins', w')"
  shows "tads ins' = tads ins \<and> same_files w w' \<and> same_env w w' \<and> sent w' = sent w \<and>
    (distinct (map fst (socks w)) \<longrightarrow> distinct (map fst (socks w')) \<and>
       (\<forall>fd a. map_of (socks w) fd = Some a \<longrightarrow> map_of (socks w') fd = Some a))"
proof -
  from assms obtain r1 ins1 w1 where c: "create_session ins w = Inr (r1, ins1, w1)"
    by (auto simp: add_newsession_def ebind_Inr_iff)
  obtain t where w1: "w1 = w\<lparr>tick := t\<rparr>" "tads ins1 = tads ins" using create_session_world [OF c] by blast
  have "tads ins' = tads ins1 \<and> (\<exists>t. w' = w\<lparr>tick := t\<rparr> \<or>
      (\<exists>fam ip fd. create_socket fam ip None (w\<lparr>tick := t\<rparr>) = Inr (fd, w')))"
  proof (cases r1)
    case None
    with assms c w1(1) show ?thesis by (auto simp: add_newsession_def)
  next
    case (Some a)
    let ?sa = "if outcome w t \<noteq> 0 then None else map_of (socks w) svsock"
    have g: "sys_getsockname w1 svsock = (?sa, w\<lparr>tick := Suc t\<rparr>)"
      by (simp add: sys_getsockname_def draw_def w1(1))
    show ?thesis
    proof (cases "?sa")
      case None
      with assms c Some g show ?thesis
        by (auto simp: add_newsession_def ebind_Inr_iff Let_def)
    next
      case (Some sa)
      obtain h pt where "sa = (h, pt)" by (cases sa)
      with assms c \<open>r1 = Some a\<close> g Some show ?thesis
        by (auto simp: add_newsession_def ebind_Inr_iff Let_def sys_call_def draw_def split: if_splits)
    qed
  qed
  then obtain s where "tads ins' = tads ins"
      "w' = w\<lparr>tick := s\<rparr> \<or> (\<exists>fam ip fd. create_socket fam ip None (w\<lparr>tick := s\<rparr>) = Inr (fd, w'))"
    using w1 by auto
  then show ?thesis
    using create_socket_net [of _ _ None "w\<lparr>tick := s\<rparr>" _ w'] by (auto simp: same_files_def same_env_def)
qed

text \<open>The socket of a new session is a new one.\<close>

lemma create_session_kept:
  assumes "create_session ins w = Inr (r, ins', w')"
  shows "socks_kept w0 ins ins'" and "r = Some a \<Longrightarrow> sheap ins' a = Some n \<Longrightarrow> clsock n = IW_ERR"
    and "sheap ins' b = Some m \<Longrightarrow> clsock m = IW_ERR \<or> (\<exists>n. sheap ins b = Some n \<and> clsock n = clsock m)"
  using assms
  by (auto simp: create_session_def sys_malloc_def draw_def Let_def ebind_Inr_iff socks_kept_def
      set_nxt_def set_prv_def load_Inr_iff store_def empty_session_def ses_key_def split: if_splits option.splits)

lemma add_newsession_cases:
  assumes r: "add_newsession ins svsock ip port file md w = Inr (r, ins', w')"
  obtains (none) "r = None" "create_session ins w = Inr (None, ins', w')"
  | (half) b ins1 w1 n where "create_session ins w = Inr (Some b, ins1, w1)" "sheap ins1 b = Some n" "r = None"
      "ins' = ins1\<lparr>sheap := (sheap ins1)(b \<mapsto> init_session n ip port file md)\<rparr>"
  | (sock) b ins1 w1 n fam h t fd where "create_session ins w = Inr (Some b, ins1, w1)" "sheap ins1 b = Some n"
      "create_socket fam h None (w\<lparr>tick := t\<rparr>) = Inr (fd, w')" "r = (if fd = IW_ERR then None else Some b)"
      "ins' = ins1\<lparr>sheap := (sheap ins1)(b \<mapsto> (init_session n ip port file md)\<lparr>clsock := fd\<rparr>)\<rparr>"
proof -
  obtain r1 ins1 w1 where c: "create_session ins w = Inr (r1, ins1, w1)"
    using r by (auto simp: add_newsession_def ebind_Inr_iff)
  obtain t where w1: "w1 = w\<lparr>tick := t\<rparr>" using create_session_world [OF c] by blast
  show thesis
  proof (cases r1)
    case None
    with r c none show thesis by (simp add: add_newsession_def)
  next
    case (Some b)
    then obtain n where n: "sheap ins1 b = Some n"
      using r c by (auto simp: add_newsession_def ebind_Inr_iff load_Inr_iff)
    show thesis
      using r c n Some half [OF c [unfolded Some] n] sock [OF c [unfolded Some] n]
      by (auto simp: add_newsession_def ebind_Inr_iff Let_def sys_getsockname_def sys_call_def draw_def w1
          split: prod.splits option.splits if_splits)
  qed
qed

lemma add_newsession_sock:
  assumes d: "distinct (map fst (socks w))" and r: "add_newsession ins svsock ip port file md w = Inr (r, ins', w')"
  shows "socks_kept w ins ins'"
    and "r = Some a \<Longrightarrow> clsock (the (sheap ins' a)) \<noteq> IW_ERR \<and> clsock (the (sheap ins' a)) \<notin> fst ` set (socks w)"
    and "sheap ins' b = Some m \<Longrightarrow> clsock m = IW_ERR \<or> clsock m \<in> fst ` set (socks w') \<or>
      (\<exists>n. sheap ins b = Some n \<and> clsock n = clsock m)"
proof -
  have "socks_kept w ins ins' \<and> (\<forall>a. r = Some a \<longrightarrow>
      clsock (the (sheap ins' a)) \<noteq> IW_ERR \<and> clsock (the (sheap ins' a)) \<notin> fst ` set (socks w)) \<and>
      (\<forall>b m. sheap ins' b = Some m \<longrightarrow> clsock m = IW_ERR \<or> clsock m \<in> fst ` set (socks w') \<or>
        (\<exists>n. sheap ins b = Some n \<and> clsock n = clsock m))"
    using r
  proof (cases rule: add_newsession_cases)
    case none
    then show ?thesis using create_session_kept(1,3) by simp blast
  next
    case (half b ins1 w1 n)
    then have "clsock (init_session n ip port file md) = IW_ERR"
      using create_session_kept(2) [OF half(1)] by (simp add: init_session_def)
    moreover have "\<forall>b m. sheap ins1 b = Some m \<longrightarrow> clsock m = IW_ERR \<or> (\<exists>n. sheap ins b = Some n \<and> clsock n = clsock m)"
      using create_session_kept(3) [OF half(1)] by blast
    ultimately show ?thesis
      using half(3,4) create_session_kept(1) [OF half(1)] by (auto simp: socks_kept_def)
  next
    case (sock b ins1 w1 n fam h t fd)
    have "\<forall>b m. sheap ins1 b = Some m \<longrightarrow> clsock m = IW_ERR \<or> (\<exists>n. sheap ins b = Some n \<and> clsock n = clsock m)"
      using create_session_kept(3) [OF sock(1)] by blast
    then show ?thesis
      using sock create_session_kept(1) [OF sock(1)] create_socket_net [OF sock(3)] d by (auto simp: socks_kept_def)
  qed
  then show "socks_kept w ins ins'"
    and "r = Some a \<Longrightarrow> clsock (the (sheap ins' a)) \<noteq> IW_ERR \<and> clsock (the (sheap ins' a)) \<notin> fst ` set (socks w)"
    and "sheap ins' b = Some m \<Longrightarrow> clsock m = IW_ERR \<or> clsock m \<in> fst ` set (socks w') \<or>
      (\<exists>n. sheap ins b = Some n \<and> clsock n = clsock m)"
    by blast+
qed

text \<open>In \<open>ins'\<close> only a session of the client \<open>k\<close> for the file \<open>f\<close> has the socket \<open>s\<close>, and those
  that had it before.\<close>

definition new_sock :: "string \<times> u16 \<Rightarrow> string \<Rightarrow> int \<Rightarrow> iwtftp \<Rightarrow> iwtftp \<Rightarrow> bool" where
  "new_sock k f s ins ins' \<longleftrightarrow> s \<noteq> IW_ERR \<and> (\<forall>a m. sheap ins' a = Some m \<longrightarrow> clsock m = s \<longrightarrow>
     ses_key m = k \<and> filename m = f \<or> (\<exists>n. sheap ins a = Some n \<and> clsock n = s))"

lemma add_newsession_new_sock:
  assumes "add_newsession ins svsock ip port file md w = Inr (Some a, ins', w')" and "sheap ins' a = Some m"
  shows "new_sock (ses_key m) (filename m) (clsock m) ins ins'"
  using assms(1)
proof (cases rule: add_newsession_cases)
  case (sock b ins1 w1 n fam h t fd)
  have fd: "fd \<noteq> IW_ERR" "a = b" using sock(4) by (simp_all split: if_splits)
  have k: "\<exists>n0. sheap ins a' = Some n0 \<and> clsock n0 = fd" if "sheap ins1 a' = Some m'" "clsock m' = fd" for a' m'
    using create_session_kept(1) [OF sock(1), of "w\<lparr>socks := [(fd, undefined)]\<rparr>"] that fd(1)
    unfolding socks_kept_def by fastforce
  have m: "m = (init_session n ip port file md)\<lparr>clsock := fd\<rparr>" using sock(5) assms(2) fd(2) by simp
  have "a' = b \<and> m' = m \<or> sheap ins1 a' = Some m'" if "sheap ins' a' = Some m'" for a' m'
    using that sock(5) m by (auto split: if_splits)
  with k fd(1) m show ?thesis unfolding new_sock_def by fastforce
qed simp_all

lemma add_newsession_inj:
  assumes d: "distinct (map fst (socks w))" and r: "add_newsession ins svsock ip port file md w = Inr (r, ins', w')"
    and so: "socks_ok ins w" and h: "sheap ins' a = Some n" "sheap ins' b = Some m" "clsock m = clsock n" "clsock n \<noteq> IW_ERR"
  shows "b = a"
proof -
  have old: "b = a" if "sheap ins a = Some n0" "sheap ins b = Some m0" "clsock n0 = clsock n" "clsock m0 = clsock n" for n0 m0
    using so that h(4) unfolding socks_ok_def by metis
  have "(\<exists>n0. sheap ins c = Some n0 \<and> clsock n0 = clsock l) \<or> clsock l \<notin> fst ` set (socks w) \<and>
      (\<forall>c'. c' \<noteq> c \<longrightarrow> (\<forall>l'. sheap ins' c' = Some l' \<longrightarrow> clsock l' = clsock l \<longrightarrow>
        (\<exists>n0. sheap ins c' = Some n0 \<and> clsock n0 = clsock l)))"
    if l: "sheap ins' c = Some l" "clsock l \<noteq> IW_ERR" for c l
    using r
  proof (cases rule: add_newsession_cases)
    case none
    then show ?thesis using create_session_kept(3) l by metis
  next
    case (half b ins1 w1 n)
    then have "clsock (init_session n ip port file md) = IW_ERR"
      using create_session_kept(2) [OF half(1)] by (simp add: init_session_def)
    then show ?thesis using half(4) create_session_kept(3) [OF half(1)] l by (auto split: if_splits)
  next
    case (sock b ins1 w1 n fam h t fd)
    have k: "\<exists>n0. sheap ins c' = Some n0 \<and> clsock n0 = clsock l'" if "c' \<noteq> b" "sheap ins' c' = Some l'" "clsock l' \<noteq> IW_ERR" for c' l'
      using that sock(5) create_session_kept(3) [OF sock(1)] by auto
    show ?thesis
    proof (cases "c = b")
      case True
      then have "clsock l = fd" using sock(5) l(1) by auto
      then have "clsock l \<notin> fst ` set (socks w)" using create_socket_net [OF sock(3)] d l(2) by simp
      with True k l(2) show ?thesis by metis
    next
      case False
      with k l show ?thesis by blast
    qed
  qed
  note c = this
  have open_old: "clsock n0 \<in> fst ` set (socks w)" if "sheap ins c = Some n0" "clsock n0 \<noteq> IW_ERR" for c n0
    using so that unfolding socks_ok_def by (metis map_of_eq_None_iff)
  show ?thesis using c [OF h(1,4)] c [OF h(2)] h old open_old by metis
qed

lemma hstep_newsession:
  assumes ok: "ds_ok (tads ins) w qs" and r: "add_newsession ins svsock ip port file md w = Inr (r, ins', w')"
  shows "hstep S ins w ins' w'"
proof -
  note net = add_newsession_net [OF r]
  have e: "entry_stream (tads ins') w' s f = entry_stream (tads ins) w s f" for s f
    using net by (simp add: entry_stream_same_files)
  have "socks_ok ins' w'" if d: "distinct (map fst (socks w))" and so: "socks_ok ins w"
  proof -
    have mono: "map_of (socks w') s \<noteq> None" if "map_of (socks w) s \<noteq> None" for s using net d that by fastforce
    have "clsock m = IW_ERR \<or> map_of (socks w') (clsock m) \<noteq> None" if "sheap ins' b = Some m" for b m
    proof -
      have "map_of (socks w') (clsock m) \<noteq> None" if "clsock m \<in> fst ` set (socks w')"
        using that by (simp add: map_of_eq_None_iff)
      with add_newsession_sock(3) [OF d r that] so mono show ?thesis unfolding socks_ok_def by metis
    qed
    moreover have "b = a" if h: "sheap ins' a = Some n" "sheap ins' b = Some m" "clsock m = clsock n" "clsock n \<noteq> IW_ERR" for a b n m
      using add_newsession_inj [OF d r so h] .
    moreover have "s = IW_ERR \<or> map_of (socks w') s \<noteq> None" if "entry_stream (tads ins') w' s f \<noteq> None" for s f
      using that e so mono unfolding socks_ok_def by metis
    ultimately show ?thesis unfolding socks_ok_def by blast
  qed
  then show ?thesis
    using net ds_ok_same_files [OF ok] add_newsession_sock(1) [OF _ r] e
    by (auto simp: hstep_def intro: guarded_same_files confined_same)
qed

lemma add_newsession_safe:
  assumes wf: "tab_wf ins ps"
  shows "safely (fault_free w) (\<lambda>_. True) (add_newsession ins svsock ip port file md w)"
  using wf
proof (cases rule: create_session_ok [where w = w])
  case (none ins1 w1)
  then show ?thesis by (simp add: add_newsession_def)
next
  case (some ins1 w1 n)
  have ld: "load (sheap ins1) (sbrk ins) = Inr n"
    "store (sheap ins1) (sbrk ins) m = Inr ((sheap ins1)(sbrk ins \<mapsto> m))" for m
    using some(4) by simp_all
  have cs: "safely (fault_free w) (\<lambda>_. True) (create_socket fam h None (w\<lparr>tick := t\<rparr>))" for fam h t
    using create_socket_safe [of "w\<lparr>tick := t\<rparr>"] by (simp add: fault_free_def)
  show ?thesis
    unfolding add_newsession_def some(1) ebind_simps prod.case option.case ld
    by (auto simp: Let_def sys_getsockname_def sys_call_def draw_def some(8)
        intro!: safely_bind [OF cs] split: option.split)
qed

text \<open>\<open>S\<close> are open descriptors, none of them that of the client's session.\<close>

definition shielded :: "int set \<Rightarrow> iwtftp \<Rightarrow> nat list \<Rightarrow> string \<times> u16 \<Rightarrow> world \<Rightarrow> bool" where
  "shielded S ins ps k w \<longleftrightarrow> (\<forall>n. ses_view ins ps k = Some n \<longrightarrow> clsock n \<notin> S) \<and>
     (S = {} \<or> distinct (map fst (socks w)) \<and> S \<subseteq> fst ` set (socks w))"

lemma shielded_empty [simp]: "shielded {} ins ps k w"
  by (simp add: shielded_def)

lemma shielded_client: "\<lbrakk>shielded S ins ps k w; ses_view ins ps k = Some (strip n)\<rbrakk> \<Longrightarrow> clsock n \<notin> S"
  by (auto simp: shielded_def strip_def)

text \<open>The places in the middle of the handler: a session \<open>a\<close> of the table.\<close>

lemma proc_resend_safe:
  assumes wf: "tab_wf ins ps" and a: "a \<in> set ps" and ok: "ds_ok (tads ins) w qs"
    and sh: "clsock (the (sheap ins a)) \<notin> S"
  shows "safely ff (\<lambda>(_, ins', _, w'). hstep S ins w ins' w') (proc_resend a ins si w)"
proof -
  obtain n where n: "sheap ins a = Some n" using tab_wfD(6) [OF wf a] by blast
  have ld: "load (sheap ins) a = Inr n" "store (sheap ins) a m = Inr ((sheap ins)(a \<mapsto> m))" for m
    using n by simp_all
  show ?thesis
    unfolding proc_resend_def ld ebind_simps
    by (auto intro!: safely_bind [OF safely_bytes(2)] safely_bind [OF safely_bytes(4)]
        safely_bind [OF close_data_safe [OF ok]] hstep_refl [OF ok] hstep_ds_step [where n = n])
      (use sh n in auto)
qed

lemma proc_errsend_safe:
  assumes wf: "tab_wf ins ps" and a: "\<And>a. ses = Some a \<Longrightarrow> a \<in> set ps" and ok: "ds_ok (tads ins) w qs"
  shows "safely ff (\<lambda>(_, ins', _, w'). hstep S ins w ins' w') (proc_errsend ses code emsg ins si w)"
proof -
  obtain h where "(case ses of None \<Rightarrow> Inr (sheap ins)
      | Some a \<Rightarrow> ebind (load (sheap ins) a) (\<lambda>n. store (sheap ins) a (n\<lparr>fin := True\<rparr>))) = Inr h"
      "same_socks ins (ins\<lparr>sheap := h\<rparr>)"
  proof (cases ses)
    case (Some a)
    then obtain n where "sheap ins a = Some n" using tab_wfD(6) [OF wf assms(2)] by blast
    with Some that show thesis by simp
  qed (use that in simp)
  then show ?thesis
    unfolding proc_errsend_def Let_def
    by (auto intro!: safely_bind [OF make_tftperr_msg_safe] hstep_refl [OF ok])
qed

lemma proc_send_data_safe:
  assumes wf: "tab_wf ins ps" and a: "a \<in> set ps" and ok: "ds_ok (tads ins) w qs"
    and l: "length (si_msgbuf si) = TFTP_MSGLEN_MAX" and sh: "clsock (the (sheap ins a)) \<notin> S"
  shows "safely (fault_free w) (\<lambda>(_, ins', _, w'). hstep S ins w ins' w') (proc_send_data a ins si w)"
proof -
  obtain n where n: "sheap ins a = Some n" using tab_wfD(6) [OF wf a] by blast
  have ld: "load (sheap ins) a = Inr n" "store (sheap ins) a m = Inr ((sheap ins)(a \<mapsto> m))" for m
    using n by simp_all
  have i: "ses_inv n" using tab_wfD(5) [OF wf a] n by simp
  let ?mk = "make_tftpdata_msg n (tads ins) (si_msgbuf si) TFTP_MSGLEN_MAX w"
  have mk: "safely (fault_free w) (\<lambda>x. (case x of (_, _, ads', _, w') \<Rightarrow> ds_step_of (clsock n) (tads ins) w ads' w') \<and> ?mk = Inr x) ?mk"
    using make_tftpdata_msg_safe [OF ok i, of "si_msgbuf si" TFTP_MSGLEN_MAX] by (cases ?mk) auto
  show ?thesis
    unfolding proc_send_data_def ld ebind_simps
  proof (rule safely_bind [OF mk], clarify, goal_cases)
    case (1 len m ads buf w1)
    let ?ins = "ins\<lparr>sheap := (sheap ins)(a \<mapsto> m), tads := ads\<rparr>"
    have s: "same_id n m" using make_tftpdata_msg_frame [OF 1(2) l] by simp
    have wf2: "tab_wf ?ins ps"
      using tab_wf_upd [OF wf a n] s i by (simp add: same_id_def ses_key_def)
    obtain qs' where q: "ds_ok (tads ?ins) w1 qs'" using ds_step_ofD(1) [OF 1(1)] by auto
    have h: "hstep S ins w ?ins w1" by (rule hstep_ds_step [OF 1(1) _ _ _ n]) (use sh n s in \<open>simp_all add: same_id_def\<close>)
    have "safely (fault_free w) (\<lambda>(_, ins', _, w'). hstep S ins w ins' w')
        (proc_errsend (Some a) TFTP_ERR_SEEMSG ''server error'' ?ins si1 w1)" for si1
      by (rule hstep_after [OF proc_errsend_safe [OF wf2 _ q] h]) (use a in auto)
    moreover have "safely (fault_free w) (\<lambda>(_, ins', _, w'). hstep S ins w ins' w')
        (proc_done (Some a) ?ins si1 w1)" for si1
      using h by (simp add: proc_done_def)
    ultimately show ?case unfolding ld ebind_simps Let_def by simp
  qed
qed

lemma proc_send_ack_safe:
  assumes wf: "tab_wf ins ps" and a: "a \<in> set ps" and ok: "ds_ok (tads ins) w qs"
    and l: "length (si_msgbuf si) = TFTP_MSGLEN_MAX"
  shows "safely ff (\<lambda>(_, ins', _, w'). hstep S ins w ins' w') (proc_send_ack a blk ins si w)"
proof -
  obtain n where n: "sheap ins a = Some n" using tab_wfD(6) [OF wf a] by blast
  have ld: "load (sheap ins) a = Inr n" "store (sheap ins) a m = Inr ((sheap ins)(a \<mapsto> m))" for m
    using n by simp_all
  have i: "ses_inv n" using tab_wfD(5) [OF wf a] n by simp
  let ?mk = "make_tftpack_msg n blk (si_msgbuf si) TFTP_MSGLEN_MAX w"
  have mk: "safely ff (\<lambda>x. ?mk = Inr x) ?mk"
    using make_tftpack_msg_safe [of ff n blk "si_msgbuf si" TFTP_MSGLEN_MAX w] by (cases ?mk) auto
  show ?thesis
    unfolding proc_send_ack_def ld ebind_simps
  proof (rule safely_bind [OF mk], clarify, goal_cases)
    case (1 len m buf)
    let ?ins = "ins\<lparr>sheap := (sheap ins)(a \<mapsto> m)\<rparr>"
    have s: "same_id n m" using make_tftpack_msg_frame [OF 1 l] by simp
    have wf2: "tab_wf ?ins ps"
      using tab_wf_upd [OF wf a n] s i by (simp add: same_id_def ses_key_def)
    have q: "ds_ok (tads ?ins) w qs" using ok by simp
    have h: "hstep S ins w ?ins w" by (rule hstep_refl [OF ok]) (use n s in \<open>simp_all add: same_id_def\<close>)
    have "safely ff (\<lambda>(_, ins', _, w'). hstep S ins w ins' w')
        (proc_errsend (Some a) TFTP_ERR_SEEMSG ''server error'' ?ins si1 w)" for si1
      by (rule hstep_after [OF proc_errsend_safe [OF wf2 _ q] h]) (use a in auto)
    moreover have "safely ff (\<lambda>(_, ins', _, w'). hstep S ins w ins' w') (proc_done (Some a) ?ins si1 w)" for si1
      using h by (simp add: proc_done_def)
    ultimately show ?case unfolding ld ebind_simps Let_def by simp
  qed
qed

lemma proc_new_safe:
  assumes wf: "tab_wf ins ps" and ip: "length ip < IPADDRLEN_MAX" and ok: "ds_ok (tads ins) w qs"
    and l: "length (si_msgbuf si) = TFTP_MSGLEN_MAX" and new: "ses_view ins ps (ip, port) = None"
    and sh: "shielded S ins ps (ip, port) w" and cs: "is_cstring file"
  shows "safely (fault_free w) (\<lambda>(_, ins', _, w'). hstep S ins w ins' w')
    (ebind (add_newsession ins sock ip port file md w) (\<lambda>(clses, ins, w). case clses of
         None \<Rightarrow> proc_errsend None TFTP_ERR_SEEMSG ''server error'' ins si w
       | Some a \<Rightarrow> if opcode = OP_RRQ then proc_send_data a ins si w else proc_send_ack a 0 ins si w))"
proof (rule safely_bind [OF safely_self [OF add_newsession_safe [OF wf]]], clarify, goal_cases)
  case h: (1 r2 ins2 w2)
  note 1 = h(2)
  obtain ps2 where t: "tab_wf ins2 ps2" "\<And>a. r2 = Some a \<Longrightarrow> at_session (ip, port) ins ps ins2 ps2 a"
    using add_newsession_frame [OF wf new ip cs 1] by blast
  have h: "hstep S ins w ins2 w2" by (rule hstep_newsession [OF ok 1])
  obtain qs2 where q2: "ds_ok (tads ins2) w2 qs2" using hstepD(1) [OF h] by blast
  have ff: "fault_free w2 = fault_free w" by (rule hstepD(2) [OF h])
  show ?case
  proof (cases r2)
    case None
    with hstep_after [OF proc_errsend_safe [OF t(1) _ q2, of None] h] show ?thesis by simp
  next
    case (Some b)
    then have b: "b \<in> set ps2" using t(2) by (simp add: at_session_def)
    have sb: "clsock (the (sheap ins2 b)) \<notin> S"
      using sh add_newsession_sock(2) [OF _ 1 Some] by (auto simp: shielded_def)
    show ?thesis
      using hstep_after [OF proc_send_data_safe [OF t(1) b q2 l sb] h]
        hstep_after [OF proc_send_ack_safe [OF t(1) b q2 l] h] Some ff by simp
  qed
qed

lemma proc_request_safe:
  assumes wf: "tab_wf ins ps" and ip: "length ip < IPADDRLEN_MAX" and ok: "ds_ok (tads ins) w qs"
    and l: "length (si_msgbuf si) = TFTP_MSGLEN_MAX" and g: "get_session ins ip port = Inr clses"
    and sh: "shielded S ins ps (ip, port) w"
  shows "safely (fault_free w) (\<lambda>(_, ins', _, w'). hstep S ins w ins' w')
    (proc_request opcode clses sock ip port pkt plen ins si w)"
  using wf
proof (cases rule: get_session_cases [where ip = ip and port = port])
  case (some a n)
  then have "clses = Some a" using g by simp
  moreover have "clsock (the (sheap ins a)) \<notin> S" using shielded_client [OF sh some(7)] some(3) by simp
  ultimately show ?thesis using proc_resend_safe [OF wf some(2) ok] by (simp add: proc_request_def)
next
  case none
  have cl: "clses = None" using g none(1) by simp
  have errN: "safely ff (\<lambda>(_, ins', _, w'). hstep S ins w ins' w') (proc_errsend None code emsg ins si1 w)"
    for ff code emsg si1 by (rule proc_errsend_safe [OF wf _ ok]) simp
  show ?thesis
    unfolding proc_request_def cl option.case
  proof (rule safely_bind [OF safely_self [OF parse_safe(1)]], goal_cases)
    case (1 req)
    show ?case
    proof (cases req)
      case None
      with errN show ?thesis by simp
    next
      case (Some q)
      have cs: "is_cstring (rq_filename q)" using wreq.parse_sound 1 Some by (auto simp: req_wf_def)
      have d: "dspath (tads ins) \<noteq> []" "is_cstring (dspath (tads ins))" using ds_okD [OF ok] by auto
      obtain isf where f: "iwds_isfile (tads ins) (rq_filename q) w = Inr (isf, w\<lparr>tick := Suc (tick w)\<rparr>)"
        by (simp add: iwds_isfile_def is_dsfile_ok [OF d cs])
      let ?w1 = "w\<lparr>tick := Suc (tick w)\<rparr>"
      have ok1: "ds_ok (tads ins) ?w1 qs" by (rule ds_ok_world [OF ok]) simp_all
      have h1: "hstep S ins w ins ?w1" by (rule hstep_tick [OF ok])
      have ff1: "fault_free ?w1 = fault_free w" by (simp add: fault_free_def)
      have errN1: "safely (fault_free w) (\<lambda>(_, ins', _, w'). hstep S ins w ins' w')
        (proc_errsend None code emsg ins si1 ?w1)" for code emsg si1
        by (rule hstep_after [OF proc_errsend_safe [OF wf _ ok1] h1]) simp
      have sh1: "shielded S ins ps (ip, port) ?w1" using sh by (simp add: shielded_def)
      note new1 = hstep_after [OF proc_new_safe [OF wf ip ok1 l none(2) sh1 cs] h1, unfolded ff1]
      with Some f errN1 new1 show ?thesis by simp
    qed
  qed
qed

lemma proc_store_safe:
  assumes wf: "tab_wf ins ps" and a: "a \<in> set ps" and n: "sheap ins a = Some n" and s: "same_id n m"
    and ok: "ds_ok (tads ins) w qs" and l: "length (si_msgbuf si) = TFTP_MSGLEN_MAX" and sh: "clsock n \<notin> S"
  shows "safely (fault_free w) (\<lambda>(_, ins', _, w'). hstep S ins w ins' w') (proc_store a m dat ins si w)"
proof -
  have i: "ses_inv n" using tab_wfD(5) [OF wf a] n by simp
  let ?put = "put_session_data m (tads ins) (dt_data dat) w"
  have p: "safely (fault_free w) (\<lambda>x. (case x of (_, _, ads', w') \<Rightarrow> ds_step_of (clsock n) (tads ins) w ads' w') \<and> ?put = Inr x) ?put"
    by (rule safely_self) (use put_session_data_safe [OF ok ses_inv_same [OF s i]] s in \<open>simp add: same_id_def\<close>)
  show ?thesis
    unfolding proc_store_def
  proof (rule safely_bind [OF p], clarify, goal_cases)
    case (1 r k ads w1)
    have sk: "same_id n k" using same_id_trans [OF s put_session_data_same [OF 1(2)]] .
    let ?ins = "\<lambda>ads. ins\<lparr>sheap := (sheap ins)(a \<mapsto> k), tads := ads\<rparr>"
    have wf2: "tab_wf (?ins x) ps" for x
      using tab_wf_upd [OF wf a n] sk i by (simp add: same_id_def ses_key_def)
    obtain qs1 where q1: "ds_ok ads w1 qs1" using ds_step_ofD(1) [OF 1(1)] by blast
    have st: "store (sheap ins) a k = Inr ((sheap ins)(a \<mapsto> k))" using n by simp
    have kp: "same_socks ins (?ins x)" for x using n sk by (simp add: same_id_def)
    have h1: "hstep S ins w (?ins ads) w1" by (rule hstep_ds_step [OF 1(1) sh _ kp n]) simp
    have e: "safely (fault_free w) (\<lambda>(_, ins', _, w'). hstep S ins w ins' w')
        (proc_errsend (Some a) TFTP_ERR_ACCESSDENY [] (?ins ads) si w1)"
      by (rule hstep_after [OF proc_errsend_safe [OF wf2] h1]) (use a q1 in auto)
    have "clsock k = clsock n" using sk by (simp add: same_id_def)
    then have c: "safely (fault_free w) (\<lambda>(ads', w'). ds_step_of (clsock n) (tads ins) w ads' w')
        (if fin k then close_data k ads w1 else Inr (ads, w1))"
      using 1(1) safely_mono [OF close_data_safe [OF q1, of "fault_free w" k], of "\<lambda>(ads', w'). ds_step_of (clsock n) (tads ins) w ads' w'"]
      by (auto intro: ds_step_of_trans)
    have k: "safely (fault_free w) (\<lambda>(_, ins', _, w'). hstep S ins w ins' w')
        (ebind (if fin k then close_data k ads w1 else Inr (ads, w1))
          (\<lambda>(ads, w). proc_send_ack a (dt_blknum dat) (?ins ads) si w))"
    proof (rule safely_bind [OF c], clarify, goal_cases)
      case (1 ads2 w2)
      obtain qs2 where q2: "ds_ok ads2 w2 qs2" using ds_step_ofD(1) [OF 1] by blast
      have h2: "hstep S ins w (?ins ads2) w2" by (rule hstep_ds_step [OF 1 sh _ kp n]) simp
      show ?case
        by (rule hstep_after [OF proc_send_ack_safe [OF wf2 a _ l] h2]) (use q2 in simp)
    qed
    show ?case unfolding st ebind_simps using e k by simp
  qed
qed

lemma proc_data_safe:
  assumes wf: "tab_wf ins ps" and ok: "ds_ok (tads ins) w qs"
    and l: "length (si_msgbuf si) = TFTP_MSGLEN_MAX" and g: "get_session ins ip port = Inr clses"
    and sh: "shielded S ins ps (ip, port) w"
  shows "safely (fault_free w) (\<lambda>(_, ins', _, w'). hstep S ins w ins' w') (proc_data clses pkt plen ins si w)"
  using wf
proof (cases rule: get_session_cases [where ip = ip and port = port])
  case none
  with g proc_errsend_safe [OF wf _ ok, of None] show ?thesis by (simp add: proc_data_def)
next
  case (some a n)
  have cl: "clses = Some a" using g some(1) by simp
  have sn: "clsock n \<notin> S" "clsock (the (sheap ins a)) \<notin> S" using shielded_client [OF sh some(7)] some(3) by simp_all
  have e: "safely ff (\<lambda>(_, ins', _, w'). hstep S ins w ins' w') (proc_errsend (Some a) code emsg ins si w)"
    for ff code emsg by (rule proc_errsend_safe [OF wf _ ok]) (use some(2) in simp)
  have st: "safely (fault_free w) (\<lambda>(_, ins', _, w'). hstep S ins w ins' w')
      (proc_store a (if plen - 4 < TFTP_DATALEN_MAX then n\<lparr>fin := True\<rparr> else n) dat ins si w)" for dat
    by (rule proc_store_safe [OF wf some(2,3) _ ok l sn(1)]) simp
  show ?thesis
    unfolding proc_data_def cl option.case load_Some [where h = "sheap ins", OF some(3)] ebind_simps
    by (rule safely_bind [OF parse_safe(2)])
      (use e st proc_resend_safe [OF wf some(2) ok sn(2)] in \<open>auto split: option.split simp del: if_split\<close>)
qed

lemma proc_ack_safe:
  assumes wf: "tab_wf ins ps" and ok: "ds_ok (tads ins) w qs"
    and l: "length (si_msgbuf si) = TFTP_MSGLEN_MAX" and g: "get_session ins ip port = Inr clses"
    and sh: "shielded S ins ps (ip, port) w"
  shows "safely (fault_free w) (\<lambda>(_, ins', _, w'). hstep S ins w ins' w') (proc_ack clses pkt plen ins si w)"
  using wf
proof (cases rule: get_session_cases [where ip = ip and port = port])
  case none
  with g proc_errsend_safe [OF wf _ ok, of None] show ?thesis by (simp add: proc_ack_def)
next
  case (some a n)
  have cl: "clses = Some a" using g some(1) by simp
  have sn: "clsock n \<notin> S" "clsock (the (sheap ins a)) \<notin> S" using shielded_client [OF sh some(7)] some(3) by simp_all
  have e: "safely ff (\<lambda>(_, ins', _, w'). hstep S ins w ins' w') (proc_errsend (Some a) code emsg ins si w)"
    for ff code emsg by (rule proc_errsend_safe [OF wf _ ok]) (use some(2) in simp)
  have d: "safely ff (\<lambda>(_, ins', _, w'). hstep S ins w ins' w') (proc_done (Some a) (ins\<lparr>sheap := (sheap ins)(a \<mapsto> n\<lparr>disabled := True\<rparr>)\<rparr>) si w)"
    "safely ff (\<lambda>(_, ins', _, w'). hstep S ins w ins' w') (proc_done (Some a) ins si w)" for ff
    using hstep_refl [OF ok] some(3) by (simp_all add: proc_done_def)
  show ?thesis
    unfolding proc_ack_def cl option.case load_Some [where h = "sheap ins", OF some(3)]
      store_Some [where h = "sheap ins", OF some(3)] ebind_simps
    by (rule safely_bind [OF parse_safe(3)])
      (use e d proc_resend_safe [OF wf some(2) ok sn(2)] proc_send_data_safe [OF wf some(2) ok l sn(2)]
        in \<open>auto split: option.split\<close>)
qed

lemma proc_error_safe:
  assumes wf: "tab_wf ins ps" and ok: "ds_ok (tads ins) w qs" and g: "get_session ins ip port = Inr clses"
    and sh: "shielded S ins ps (ip, port) w"
  shows "safely (fault_free w) (\<lambda>(_, ins', _, w'). hstep S ins w ins' w') (proc_error clses pkt plen ins si w)"
  using wf
proof (cases rule: get_session_cases [where ip = ip and port = port])
  case none
  with g hstep_refl [OF ok] show ?thesis by (simp add: proc_error_def)
next
  case (some a n)
  have cl: "clses = Some a" using g some(1) by simp
  have sn: "clsock n \<notin> S" "clsock (the (sheap ins a)) \<notin> S" using shielded_client [OF sh some(7)] some(3) by simp_all
  show ?thesis
    unfolding proc_error_def cl option.case load_Some [where h = "sheap ins", OF some(3)]
      store_Some [where h = "sheap ins", OF some(3)] ebind_simps
    by (rule safely_bind [OF parse_safe(4)], rule safely_bind [OF close_data_safe [OF ok]],
        clarsimp simp: proc_done_def, erule hstep_ds_step [OF _ sn(1) _ _ some(3)], simp_all add: some(3))
qed

lemma tftp_proc_safe:
  assumes wf: "tab_wf ins ps" and ip: "length ip < IPADDRLEN_MAX" and ok: "ds_ok (tads ins) w qs"
    and l: "length (si_msgbuf si) = TFTP_MSGLEN_MAX" and sh: "shielded S ins ps (ip, port) w"
  shows "safely (fault_free w) (\<lambda>(_, ins', _, w'). hstep S ins w ins' w') (tftp_proc ins sock ip port pkt plen si w)"
proof -
  obtain clses where g: "get_session ins ip port = Inr clses"
    using get_session_ok [OF wf] by blast
  show ?thesis
    unfolding tftp_proc_def g ebind_simps
    by (rule safely_bind [OF safely_bytes(6)])
      (use proc_request_safe [OF wf ip ok l g sh] proc_data_safe [OF wf ok l g sh]
        proc_ack_safe [OF wf ok l g sh] proc_error_safe [OF wf ok g sh] hstep_refl [OF ok] in \<open>auto simp: proc_done_def\<close>)
qed

end
