(* ===== verification/Tftp_Service.thy ===== *)
theory Tftp_Service
  imports Tftp_Safe Tftp_Data
begin

text \<open>
  The functions that walk the whole session list (\<open>update_event\<close>, \<open>resend_allsession\<close>,
  \<open>cleanup_session\<close>, \<open>del_allsession\<close>), each with its exact effect on every session, and the
  event loop as a transition system: \<open>reachable\<close> is the set of states the loop can reach, and
  \<open>svc_inv\<close> and \<open>socks_ok\<close> hold in all of them. \<open>svc_step\<close> is what one datagram does to the service.
\<close>

section \<open>Walking the list\<close>

lemma tab_node:
  assumes "tab_wf ins (xs @ a # ys)"
  obtains n where "sheap ins a = Some n" "nxt n = hd_ptr ys" "ses_inv n" "a \<notin> set ys" "a \<notin> set xs"
proof -
  have d: "dll (sheap ins) (seshead ins) (xs @ a # ys)" by (rule tab_wfD(1) [OF assms])
  then obtain n where n: "sheap ins a = Some n" "nxt n = hd_ptr ys"
    by (cases ys) (auto simp: dll_def chain_mid)
  moreover have "ses_inv n" using tab_wfD(5) [OF assms, of a] n by simp
  ultimately show thesis using that tab_wfD(4) [OF assms] by simp
qed

lemma tab_wf_same:
  assumes "tab_wf ins ps" and "a \<in> set ps" and "sheap ins a = Some n" and "same_id n m"
  shows "tab_wf (ins\<lparr>sheap := (sheap ins)(a \<mapsto> m)\<rparr>) ps"
  using tab_wf_upd [OF assms(1-3), of m] tab_wfD(5) [OF assms(1,2)] assms(3,4)
  by (simp add: same_id_def ses_key_def)

section \<open>Events\<close>

lemma event_step_eq:
  "\<exists>w' e. event_step n err w = (n\<lparr>regevent := \<not> disabled n\<rparr>, e, w') \<and> same_files w w' \<and>
     same_env w w' \<and> socks w' = socks w \<and> sent w' = sent w"
  by (cases "regevent n"; cases "disabled n")
    (auto simp: event_step_def sys_epoll_add_def sys_epoll_del_def draw_def Let_def
      same_files_def same_env_def split: prod.split)

lemma update_loop_ok:
  assumes "tab_wf ins (xs @ ys)" and "length ys \<le> k"
  shows "\<exists>h e w'. update_loop k (sheap ins) (hd_ptr ys) err w = Inr (h, e, w') \<and>
    tab_wf (ins\<lparr>sheap := h\<rparr>) (xs @ ys) \<and>
    (\<forall>b. h b = (if b \<in> set ys then map_option (\<lambda>n. n\<lparr>regevent := \<not> disabled n\<rparr>) (sheap ins b) else sheap ins b)) \<and>
    same_files w w' \<and> same_env w w' \<and> socks w' = socks w \<and> sent w' = sent w"
  using assms
proof (induction ys arbitrary: ins xs k err w)
  case Nil
  then show ?case by (auto intro: exI [of _ "sheap ins"])
next
  case (Cons a ys)
  then obtain k' where k: "k = Suc k'" by (cases k) auto
  obtain n where n: "sheap ins a = Some n" "nxt n = hd_ptr ys" "a \<notin> set ys"
    using tab_node [OF Cons.prems(1)] by blast
  let ?m = "n\<lparr>regevent := \<not> disabled n\<rparr>"
  let ?ins = "ins\<lparr>sheap := (sheap ins)(a \<mapsto> ?m)\<rparr>"
  obtain w1 e where e: "event_step n err w = (?m, e, w1)" "same_files w w1" "same_env w w1"
      "socks w1 = socks w" "sent w1 = sent w"
    using event_step_eq [of n err w] by blast
  have wf': "tab_wf ?ins ((xs @ [a]) @ ys)" using tab_wf_same [OF Cons.prems(1) _ n(1), of ?m] by simp
  have "length ys \<le> k'" using Cons.prems(2) k by simp
  from Cons.IH [OF wf' this, of e w1] obtain h e' w2 where
      h: "update_loop k' (sheap ?ins) (hd_ptr ys) e w1 = Inr (h, e', w2)"
        "tab_wf (?ins\<lparr>sheap := h\<rparr>) ((xs @ [a]) @ ys)"
        "\<forall>b. h b = (if b \<in> set ys then map_option (\<lambda>n. n\<lparr>regevent := \<not> disabled n\<rparr>) (sheap ?ins b) else sheap ?ins b)"
        "same_files w1 w2" "same_env w1 w2" "socks w2 = socks w1" "sent w2 = sent w1"
    by blast
  have "update_loop k (sheap ins) (hd_ptr (a # ys)) err w = Inr (h, e', w2)"
    using h(1) n e(1) k by simp
  moreover have "h b = (if b \<in> set (a # ys) then map_option (\<lambda>n. n\<lparr>regevent := \<not> disabled n\<rparr>) (sheap ins b)
      else sheap ins b)" for b
    using h(3) n(1,3) by auto
  moreover have "tab_wf (ins\<lparr>sheap := h\<rparr>) (xs @ a # ys)" using h(2) by simp
  moreover have "same_files w w2" by (rule same_files_trans [OF e(2) h(4)])
  moreover have "same_env w w2" by (rule same_env_trans [OF e(3) h(5)])
  moreover have "socks w2 = socks w" "sent w2 = sent w" using h(6,7) e(4,5) by simp_all
  ultimately show ?case
    by (intro exI [of _ h] exI [of _ e'] exI [of _ w2] conjI allI)
qed

lemma count_loop_ok:
  assumes "tab_wf ins (xs @ ys)" and "length ys \<le> k"
  shows "count_loop k (sheap ins) (hd_ptr ys) c =
    Inr (c + int (length (filter (\<lambda>a. regevent (the (sheap ins a))) ys)))"
  using assms
proof (induction ys arbitrary: xs k c)
  case (Cons a ys)
  then obtain k' where k: "k = Suc k'" by (cases k) auto
  obtain n where n: "sheap ins a = Some n" "nxt n = hd_ptr ys"
    using tab_node [OF Cons.prems(1)] by blast
  have "tab_wf ins ((xs @ [a]) @ ys)" using Cons.prems(1) by simp
  with Cons.IH [OF this, of k'] Cons.prems(2) k n show ?case by simp
qed simp

lemma update_event_ok:
  assumes "tab_wf ins ps"
  shows "\<exists>h e w'. update_event ins w =
      Inr (if e then IW_ERR else int (length (filter (\<lambda>a. \<not> disabled (the (sheap ins a))) ps)), ins\<lparr>sheap := h\<rparr>, w') \<and>
    tab_wf (ins\<lparr>sheap := h\<rparr>) ps \<and>
    (\<forall>b. h b = (if b \<in> set ps then map_option (\<lambda>n. n\<lparr>regevent := \<not> disabled n\<rparr>) (sheap ins b) else sheap ins b)) \<and>
    same_files w w' \<and> same_env w w' \<and> socks w' = socks w \<and> sent w' = sent w"
proof -
  note d = tab_wfD(1,2) [OF assms]
  have hp: "seshead ins = hd_ptr ps" using d(1) by (simp add: dll_def)
  obtain h e w' where h: "update_loop (sbrk ins) (sheap ins) (hd_ptr ps) False w = Inr (h, e, w')"
      "tab_wf (ins\<lparr>sheap := h\<rparr>) ps"
      "\<forall>b. h b = (if b \<in> set ps then map_option (\<lambda>n. n\<lparr>regevent := \<not> disabled n\<rparr>) (sheap ins b) else sheap ins b)"
      "same_files w w'" "same_env w w'" "socks w' = socks w" "sent w' = sent w"
    using update_loop_ok [of ins "[]" ps "sbrk ins" False w] assms d(2) by auto
  have c: "count_loop (sbrk ins) h (hd_ptr ps) 0 = Inr (int (length (filter (\<lambda>a. regevent (the (h a))) ps)))"
    using count_loop_ok [of "ins\<lparr>sheap := h\<rparr>" "[]" ps "sbrk ins" 0] h(2) d(2) by simp
  have "filter (\<lambda>a. regevent (the (h a))) ps = filter (\<lambda>a. \<not> disabled (the (sheap ins a))) ps"
  proof (rule filter_cong [OF refl])
    fix a assume a: "a \<in> set ps"
    then obtain n where "sheap ins a = Some n" using tab_wfD(6) [OF assms] by blast
    with a h(3) show "regevent (the (h a)) = (\<not> disabled (the (sheap ins a)))" by simp
  qed
  then have "update_event ins w =
      Inr (if e then IW_ERR else int (length (filter (\<lambda>a. \<not> disabled (the (sheap ins a))) ps)), ins\<lparr>sheap := h\<rparr>, w')"
    using h(1) c hp by (simp add: update_event_def)
  with h(2-7) show ?thesis by blast
qed

section \<open>Resending\<close>

text \<open>What a turn of \<open>resend_allsession\<close> makes of a session; the last case has two outcomes because
  \<open>getsockname\<close> may fail.\<close>

definition resent :: "int \<Rightarrow> session \<Rightarrow> session \<Rightarrow> bool" where
  "resent now n m \<longleftrightarrow>
     (if now - lastsending n \<le> RESEND_INTERVAL \<or> fin n \<or> disabled n then m = n
      else if retrycount n \<ge> RESEND_COUNTMAX then m = n\<lparr>disabled := True\<rparr>
      else m = n \<or> m = n\<lparr>retrycount := retrycount n + 1, lastsending := now\<rparr>)"

text \<open>The datagrams it sends: from the socket of the session, the last message, to the local
  address of that socket.\<close>

definition to_self :: "(int \<times> saddr) list \<Rightarrow> session \<Rightarrow> dgram \<Rightarrow> bool" where
  "to_self sks n d \<longleftrightarrow> dg_sock d = clsock n \<and> dg_bytes d = take (lastmsglen n) (lastmsg n) \<and>
     map_of sks (clsock n) = Some (dg_to d)"

lemma resent_same: "\<lbrakk>resent now n m; ses_inv n\<rbrakk> \<Longrightarrow> same_id n m"
  by (auto simp: resent_def same_id_def ses_inv_def split: if_splits)

text \<open>The case in which the last message is sent again, to the address of the socket.\<close>

lemma resend_step_send:
  assumes ok: "ds_ok ads w qs" and n: "ses_inv n"
    and send: "\<not> (clock w - lastsending n \<le> RESEND_INTERVAL \<or> fin n \<or> disabled n)" "retrycount n < RESEND_COUNTMAX"
  shows "\<exists>m w' new. resend_step n ads w = Inr (m, ads, w') \<and> resent (clock w) n m \<and>
    (\<exists>qs. ds_ok ads w' qs) \<and> same_env w w' \<and> untouched w w' \<and> socks w' = socks w \<and>
    fsys w' = fsys w \<and> sent w' = sent w @ new \<and> (\<forall>d \<in> set new. to_self (socks w) n d) \<and>
    (\<forall>s f. entry_stream ads w' s f = entry_stream ads w s f)"
proof -
  let ?sa = "if outcome w (tick w) \<noteq> 0 then None else map_of (socks w) (clsock n)"
  let ?w1 = "w\<lparr>tick := Suc (tick w)\<rparr>" and ?m = "n\<lparr>retrycount := retrycount n + 1, lastsending := clock w\<rparr>"
  have g: "sys_getsockname w (clsock n) = (?sa, ?w1)" by (simp add: sys_getsockname_def draw_def)
  have m: "resent (clock w) n n" "resent (clock w) n ?m" using send by (auto simp: resent_def)
  show ?thesis
  proof (cases ?sa)
    case None
    with send g have "resend_step n ads w = Inr (n, ads, ?w1)" by (simp add: resend_step_def)
    moreover have "ds_ok ads ?w1 qs" by (rule ds_ok_world [OF ok]) simp_all
    ultimately show ?thesis using m(1)
      by (intro exI [of _ n] exI [of _ ?w1] exI [of _ "[]"]) (auto simp: same_env_def)
  next
    case (Some to)
    then have to: "map_of (socks w) (clsock n) = Some to" by (simp split: if_splits)
    let ?bs = "take (lastmsglen n) (lastmsg n)"
    let ?new = "if outcome w (Suc (tick w)) \<noteq> 0 then []
      else [\<lparr>dg_sock = clsock n, dg_to = to, dg_bytes = ?bs\<rparr>]"
    let ?w2 = "?w1\<lparr>tick := Suc (Suc (tick w)), sent := sent w @ ?new\<rparr>"
    have "sys_sendto ?w1 (clsock n) (lastmsg n) (int (lastmsglen n)) to = Inr (outcome w (Suc (tick w)) = 0, ?w2)"
      using to n by (auto simp: sys_sendto_def draw_def ses_inv_def)
    then have "resend_step n ads w = Inr (?m, ads, ?w2)"
      using send g Some unfolding resend_step_def Let_def by simp
    moreover have "ds_ok ads ?w2 qs" by (rule ds_ok_world [OF ok]) simp_all
    ultimately show ?thesis using to m(2) by (auto simp: same_env_def to_self_def)
  qed
qed

lemma resend_step_ok:
  assumes ok: "ds_ok ads w qs" and n: "ses_inv n"
  shows "\<exists>m ads' w' new. resend_step n ads w = Inr (m, ads', w') \<and> resent (clock w) n m \<and>
    (\<exists>qs. ds_ok ads' w' qs) \<and> dspath ads' = dspath ads \<and> same_env w w' \<and> untouched w w' \<and> socks w' = socks w \<and>
    fsys w' = fsys w \<and> sent w' = sent w @ new \<and> (\<forall>d \<in> set new. to_self (socks w) n d) \<and>
    (\<forall>s f. s \<noteq> clsock n \<longrightarrow> entry_stream ads' w' s f = entry_stream ads w s f)"
proof -
  consider (idle) "clock w - lastsending n \<le> RESEND_INTERVAL \<or> fin n \<or> disabled n"
    | (stop) "\<not> (clock w - lastsending n \<le> RESEND_INTERVAL \<or> fin n \<or> disabled n)" "retrycount n \<ge> RESEND_COUNTMAX"
    | (send) "\<not> (clock w - lastsending n \<le> RESEND_INTERVAL \<or> fin n \<or> disabled n)" "retrycount n < RESEND_COUNTMAX"
    by linarith
  then show ?thesis
  proof cases
    case idle
    then have "resend_step n ads w = Inr (n, ads, w)" by (auto simp: resend_step_def)
    with idle ok show ?thesis by (auto simp: resent_def)
  next
    case stop
    obtain ads' w' qs' where c: "close_data (n\<lparr>disabled := True\<rparr>) ads w = Inr (ads', w')" "ds_ok ads' w' qs'"
        "fsys w' = fsys w" "ds_step ads w ads' w'"
      using close_data_ok [OF ok, of "n\<lparr>disabled := True\<rparr>"] by blast
    moreover from c(1) have "\<forall>s f. s \<noteq> clsock n \<longrightarrow> entry_stream ads' w' s f = entry_stream ads w s f"
      using close_data_safe [OF ok, of True "n\<lparr>disabled := True\<rparr>"] by (simp add: ds_step_of_def)
    moreover have "resend_step n ads w = Inr (n\<lparr>disabled := True\<rparr>, ads', w')"
      using stop c(1) by (simp add: resend_step_def)
    moreover have "untouched w w'" using c(4) by (simp add: ds_step_def fstep_untouched)
    ultimately show ?thesis using stop
      by (intro exI [of _ "n\<lparr>disabled := True\<rparr>"] exI [of _ ads'] exI [of _ w'] exI [of _ "[]"])
        (auto simp: resent_def ds_step_def fstep_def)
  next
    case send
    with resend_step_send [OF ok n] show ?thesis by (auto simp: resent_def)
  qed
qed

lemma resend_loop_ok:
  assumes "tab_wf ins (xs @ ys)" and "length ys \<le> k" and "ds_ok (tads ins) w qs"
  shows "\<exists>ins' w' new. resend_loop k ins (hd_ptr ys) w = Inr (ins', w') \<and> tab_wf ins' (xs @ ys) \<and>
    svsocks ins' = svsocks ins \<and> seshead ins' = seshead ins \<and> sbrk ins' = sbrk ins \<and>
    (\<forall>b. if b \<in> set ys then \<exists>m. sheap ins' b = Some m \<and> resent (clock w) (the (sheap ins b)) m
         else sheap ins' b = sheap ins b) \<and>
    (\<exists>qs. ds_ok (tads ins') w' qs) \<and> dspath (tads ins') = dspath (tads ins) \<and> same_env w w' \<and> untouched w w' \<and>
    socks w' = socks w \<and> fsys w' = fsys w \<and> sent w' = sent w @ new \<and>
    (\<forall>d \<in> set new. \<exists>b \<in> set ys. to_self (socks w) (the (sheap ins b)) d) \<and>
    (socks_ok ins w \<longrightarrow> socks_ok ins' w')"
  using assms
proof (induction ys arbitrary: ins xs k w qs)
  case Nil
  then show ?case by auto
next
  case (Cons a ys)
  then obtain k' where k: "k = Suc k'" by (cases k) auto
  obtain n where n: "sheap ins a = Some n" "nxt n = hd_ptr ys" "ses_inv n" "a \<notin> set ys"
    using tab_node [OF Cons.prems(1)] by blast
  obtain m ads1 w1 new1 qs1 where s: "resend_step n (tads ins) w = Inr (m, ads1, w1)" "resent (clock w) n m"
      "ds_ok ads1 w1 qs1" "dspath ads1 = dspath (tads ins)" "same_env w w1" "untouched w w1" "socks w1 = socks w"
      "fsys w1 = fsys w" "sent w1 = sent w @ new1" "\<forall>d \<in> set new1. to_self (socks w) n d"
      "\<forall>s f. s \<noteq> clsock n \<longrightarrow> entry_stream ads1 w1 s f = entry_stream (tads ins) w s f"
    using resend_step_ok [OF Cons.prems(3) n(3)] by blast
  have sm: "same_id n m" by (rule resent_same [OF s(2) n(3)])
  let ?ins = "ins\<lparr>sheap := (sheap ins)(a \<mapsto> m), tads := ads1\<rparr>"
  have wf1: "tab_wf ?ins ((xs @ [a]) @ ys)" using tab_wf_same [OF Cons.prems(1) _ n(1) sm] by simp
  have ck: "clock w1 = clock w" using s(5) by (simp add: same_env_def)
  have "length ys \<le> k'" "ds_ok (tads ?ins) w1 qs1" using Cons.prems(2) k s(3) by simp_all
  from Cons.IH [OF wf1 this] obtain ins' w' new where
      h: "resend_loop k' ?ins (hd_ptr ys) w1 = Inr (ins', w')" "tab_wf ins' ((xs @ [a]) @ ys)"
        "svsocks ins' = svsocks ?ins" "seshead ins' = seshead ?ins" "sbrk ins' = sbrk ?ins"
        "\<forall>b. if b \<in> set ys then \<exists>m. sheap ins' b = Some m \<and> resent (clock w1) (the (sheap ?ins b)) m
         else sheap ins' b = sheap ?ins b"
        "\<exists>qs. ds_ok (tads ins') w' qs" "dspath (tads ins') = dspath (tads ?ins)" "same_env w1 w'"
        "untouched w1 w'" "socks w' = socks w1" "fsys w' = fsys w1" "sent w' = sent w1 @ new"
        "\<forall>d \<in> set new. \<exists>b \<in> set ys. to_self (socks w1) (the (sheap ?ins b)) d"
        "socks_ok ?ins w1 \<longrightarrow> socks_ok ins' w'"
    by blast
  have "same_socks ins ?ins" using n(1) sm by (simp add: same_id_def)
  then have so: "socks_ok ins w \<longrightarrow> socks_ok ins' w'"
    using socks_ok_step [of ins w ?ins w1] s(7,11) n(1) h(15) by fastforce
  have nx: "nxt m = hd_ptr ys" using sm n(2) by (simp add: same_id_def)
  have "resend_loop k ins (hd_ptr (a # ys)) w = Inr (ins', w')"
    using h(1) n(1) s(1) nx k by simp
  moreover have "\<forall>b. if b \<in> set (a # ys) then \<exists>m. sheap ins' b = Some m \<and> resent (clock w) (the (sheap ins b)) m
      else sheap ins' b = sheap ins b"
  proof
    fix b
    show "if b \<in> set (a # ys) then \<exists>m. sheap ins' b = Some m \<and> resent (clock w) (the (sheap ins b)) m
      else sheap ins' b = sheap ins b"
      using spec [OF h(6), of b] n(1,4) s(2) ck by (cases "b = a") auto
  qed
  moreover have "\<exists>b \<in> set (a # ys). to_self (socks w) (the (sheap ins b)) d" if "d \<in> set (new1 @ new)" for d
  proof (cases "d \<in> set new1")
    case True
    with s(10) n(1) show ?thesis by auto
  next
    case False
    with that h(14) s(7) obtain b where "b \<in> set ys" "to_self (socks w) (the (sheap ?ins b)) d" by auto
    moreover from this(1) n(4) have "b \<noteq> a" by auto
    ultimately show ?thesis by auto
  qed
  moreover have "same_env w w'" by (rule same_env_trans [OF s(5) h(9)])
  moreover have "untouched w w'" by (rule untouched_trans [OF s(6) h(10)])
  moreover have "sent w' = sent w @ (new1 @ new)" using h(13) s(9) by simp
  moreover have "tab_wf ins' (xs @ a # ys)" using h(2) by simp
  ultimately show ?case
    using h(3-5,7,8,11,12) s(4,7,8) so by (intro exI [of _ ins'] exI [of _ w'] exI [of _ "new1 @ new"]) simp
qed

lemma resend_allsession_ok:
  assumes "tab_wf ins ps" and "ds_ok (tads ins) w qs"
  shows "\<exists>ins' w' new. resend_allsession ins w = Inr (ins', w') \<and> tab_wf ins' ps \<and>
    svsocks ins' = svsocks ins \<and> seshead ins' = seshead ins \<and> sbrk ins' = sbrk ins \<and>
    (\<forall>b. if b \<in> set ps then \<exists>m. sheap ins' b = Some m \<and> resent (clock w) (the (sheap ins b)) m
         else sheap ins' b = sheap ins b) \<and>
    (\<exists>qs. ds_ok (tads ins') w' qs) \<and> dspath (tads ins') = dspath (tads ins) \<and> same_env w w' \<and> untouched w w' \<and>
    socks w' = socks w \<and> fsys w' = fsys w \<and> sent w' = sent w @ new \<and>
    (\<forall>d \<in> set new. \<exists>b \<in> set ps. to_self (socks w) (the (sheap ins b)) d) \<and>
    (socks_ok ins w \<longrightarrow> socks_ok ins' w')"
proof -
  note d = tab_wfD(1,2) [OF assms(1)]
  have hp: "seshead ins = hd_ptr ps" using d(1) by (simp add: dll_def)
  from resend_loop_ok [of ins "[]" ps "sbrk ins" w qs] assms d(2) show ?thesis
    unfolding resend_allsession_def hp by simp
qed

section \<open>Clean-up and the end\<close>

lemma cleanup_session_ok:
  assumes wf: "tab_wf ins ps"
  shows "cleanup_session ins w =
    (case find (\<lambda>a. ses_due (clock w) (the (sheap ins a))) ps of
       None \<Rightarrow> Inr (ins, w) | Some a \<Rightarrow> Inl (Use_after_free a))"
proof -
  note d = tab_wfD(1,2) [OF wf]
  have hp: "seshead ins = hd_ptr ps" using d(1) by (simp add: dll_def)
  show ?thesis unfolding cleanup_session_def hp
    by (rule cleanup_loop_ok [OF wf, of "[]" ps "sbrk ins" None]) (use d in \<open>simp_all add: dll_def\<close>)
qed

text \<open>\<open>del_allsession\<close> frees every node and closes every socket, in the order of the list.\<close>

lemma delall_loop_ok:
  assumes "chain h pv ys None" and "distinct ys" and "length ys \<le> k"
  shows "\<exists>h'. delall_loop k h (hd_ptr ys) w =
      Inr (h', fold (\<lambda>a w. sys_close w (clsock (the (h a)))) ys w) \<and>
    (\<forall>b. h' b = (if b \<in> set ys then None else h b))"
  using assms
proof (induction ys arbitrary: h k pv w)
  case Nil
  then show ?case by simp
next
  case (Cons a ys)
  then obtain k' where k: "k = Suc k'" by (cases k) auto
  obtain n where n: "h a = Some n" "nxt n = hd_ptr ys" "chain h (Some a) ys None"
    using Cons.prems(1) by (cases ys) (auto split: option.splits if_splits)
  let ?h = "h(a := None)"
  have c: "chain ?h (Some a) ys None" "distinct ys" "length ys \<le> k'"
    using n(3) Cons.prems(2,3) k by simp_all
  obtain h' where h': "delall_loop k' ?h (hd_ptr ys) (sys_close w (clsock n)) =
      Inr (h', fold (\<lambda>a w. sys_close w (clsock (the (?h a)))) ys (sys_close w (clsock n)))"
      "\<forall>b. h' b = (if b \<in> set ys then None else ?h b)"
    using Cons.IH [OF c] by blast
  have "fold (\<lambda>a w. sys_close w (clsock (the (?h a)))) ys v = fold (\<lambda>a w. sys_close w (clsock (the (h a)))) ys v" for v
    using Cons.prems(2) by (intro fold_cong) auto
  with h' n k show ?case by auto
qed

lemma del_allsession_ok:
  assumes "tab_wf ins ps"
  shows "\<exists>h. del_allsession ins w =
      Inr (ins\<lparr>sheap := h, seshead := None\<rparr>, fold (\<lambda>a w. sys_close w (clsock (the (sheap ins a)))) ps w) \<and>
    (\<forall>b. h b = (if b \<in> set ps then None else sheap ins b))"
proof -
  note d = tab_wfD(1,2) [OF assms]
  have "seshead ins = hd_ptr ps" "chain (sheap ins) None ps None" "distinct ps"
    using d(1) by (simp_all add: dll_def)
  with delall_loop_ok [of "sheap ins" None ps "sbrk ins" w] d(2) show ?thesis
    by (auto simp: del_allsession_def)
qed

section \<open>The event loop as a transition system\<close>

definition svc_inv :: "service \<Rightarrow> bool" where
  "svc_inv v \<longleftrightarrow> (\<exists>ps qs. tab_wf (v_ins v) ps \<and> ds_ok (tads (v_ins v)) (v_world v) qs \<and>
     (\<forall>a. si_ses (v_si v) = Some a \<longrightarrow> a \<in> set ps)) \<and>
   length (v_rbuf v) = NWBUF_SIZE \<and> length (si_msgbuf (v_si v)) = TFTP_MSGLEN_MAX \<and>
   distinct (map fst (socks (v_world v)))"

text \<open>What \<open>iwtftp_service\<close> starts the loop with: no session, a store with nothing open, the two
  automatic buffers with any contents.\<close>

definition svc_start :: "service \<Rightarrow> bool" where
  "svc_start v \<longleftrightarrow> seshead (v_ins v) = None \<and> sheap (v_ins v) = (\<lambda>_. None) \<and>
     dhead (tads (v_ins v)) = None \<and> (\<exists>qs. ds_ok (tads (v_ins v)) (v_world v) qs) \<and>
     si_ses (v_si v) = None \<and> length (v_rbuf v) = NWBUF_SIZE \<and>
     length (si_msgbuf (v_si v)) = TFTP_MSGLEN_MAX \<and> distinct (map fst (socks (v_world v)))"

inductive reachable :: "service \<Rightarrow> bool" where
  start: "svc_start v \<Longrightarrow> reachable v"
| dgram: "\<lbrakk>reachable v; serve_dgram v d = Inr v'\<rbrakk> \<Longrightarrow> reachable v'"
| events: "\<lbrakk>reachable v; update_event (v_ins v) (v_world v) = Inr (r, ins, w)\<rbrakk> \<Longrightarrow>
    reachable (v\<lparr>v_ins := ins, v_world := w\<rparr>)"
| resending: "\<lbrakk>reachable v; resend_allsession (v_ins v) (v_world v) = Inr (ins, w)\<rbrakk> \<Longrightarrow>
    reachable (v\<lparr>v_ins := ins, v_world := w\<rparr>)"
| cleaning: "\<lbrakk>reachable v; cleanup_session (v_ins v) (v_world v) = Inr (ins, w)\<rbrakk> \<Longrightarrow>
    reachable (v\<lparr>v_ins := ins, v_world := w\<rparr>)"
| time: "reachable v \<Longrightarrow> reachable (v\<lparr>v_world := (v_world v)\<lparr>clock := now\<rparr>\<rparr>)"

lemma ds_ok_env [simp]:
  "ds_ok ds (w\<lparr>tick := t\<rparr>) qs = ds_ok ds w qs" "ds_ok ds (w\<lparr>clock := c\<rparr>) qs = ds_ok ds w qs"
  "ds_ok ds (w\<lparr>sent := s\<rparr>) qs = ds_ok ds w qs"
  by (simp_all add: ds_ok_def tab_ok_def)

lemma safely_ff: "\<lbrakk>safely ff Q r; ff' \<Longrightarrow> ff\<rbrakk> \<Longrightarrow> safely ff' Q r"
  by (cases r) auto

text \<open>Once a length has been assigned, one stays assigned.\<close>

lemma proc_msglen:
  "proc_done ses ins si w = Inr (ok, ins', si', w') \<Longrightarrow> si_msglen si \<noteq> None \<Longrightarrow> si_msglen si' \<noteq> None"
  "proc_resend a ins si w = Inr (ok, ins', si', w') \<Longrightarrow> si_msglen si \<noteq> None \<Longrightarrow> si_msglen si' \<noteq> None"
  "proc_errsend ses code emsg ins si w = Inr (ok, ins', si', w') \<Longrightarrow> si_msglen si' \<noteq> None"
  by (auto simp: proc_done_def proc_resend_def proc_errsend_def ebind_Inr_iff Let_def split: if_splits)

lemma proc_send_msglen:
  "proc_send_data a ins si w = Inr (ok, ins', si', w') \<Longrightarrow> si_msglen si' \<noteq> None"
  "proc_send_ack a blk ins si w = Inr (ok, ins', si', w') \<Longrightarrow> si_msglen si' \<noteq> None"
  by (auto simp: proc_send_data_def proc_send_ack_def proc_done_def ebind_Inr_iff Let_def
      split: if_splits dest: proc_msglen)

lemma proc_store_msglen:
  "proc_store a n dat ins si w = Inr (ok, ins', si', w') \<Longrightarrow> si_msglen si' \<noteq> None"
  unfolding proc_store_def
  by (auto simp: ebind_Inr_iff split: if_splits dest: proc_msglen(3) proc_send_msglen(2))

lemma tftp_proc_msglen:
  assumes r: "tftp_proc ins sock ip port pkt plen si w = Inr (ok, ins', si', w')" and m: "si_msglen si \<noteq> None"
  shows "si_msglen si' \<noteq> None"
proof -
  obtain opcode clses where o: "ntohs_at pkt 0 = Inr opcode" "get_session ins ip port = Inr clses"
    using r by (auto simp: tftp_proc_def ebind_Inr_iff)
  consider (rq) "proc_request opcode clses sock ip port pkt plen ins si w = Inr (ok, ins', si', w')"
    | (data) "proc_data clses pkt plen ins si w = Inr (ok, ins', si', w')"
    | (ack) "proc_ack clses pkt plen ins si w = Inr (ok, ins', si', w')"
    | (err) "proc_error clses pkt plen ins si w = Inr (ok, ins', si', w')"
    | (dn) "proc_done clses ins si w = Inr (ok, ins', si', w')"
    using r o by (simp add: tftp_proc_def split: if_splits)
  then show ?thesis
  proof cases
    case rq
    then show ?thesis unfolding proc_request_def
      by (cases clses) (auto simp: ebind_Inr_iff m split: option.splits if_splits
          dest!: proc_msglen(2) [OF _ m] proc_msglen(3) proc_send_msglen)
  next
    case data
    then show ?thesis unfolding proc_data_def
      by (cases clses) (auto simp: ebind_Inr_iff split: option.splits if_splits
          dest!: proc_msglen(2) [OF _ m] proc_msglen(3) proc_store_msglen)
  next
    case ack
    then show ?thesis unfolding proc_ack_def
      by (cases clses) (auto simp: ebind_Inr_iff split: option.splits if_splits
          dest!: proc_msglen(1,2) [OF _ m] proc_msglen(3) proc_send_msglen(1))
  next
    case err
    show ?thesis
    proof (cases clses)
      case None
      with err m show ?thesis by (simp add: proc_error_def)
    next
      case (Some a)
      with err show ?thesis
        by (auto simp: proc_error_def ebind_Inr_iff dest!: proc_msglen(1) [OF _ m])
    qed
  qed (rule proc_msglen(1) [OF _ m])
qed

lemma sys_sendto_world:
  "sys_sendto w fd buf len to = Inr (b, w') \<Longrightarrow>
   \<exists>new. w' = w\<lparr>tick := Suc (tick w), sent := sent w @ new\<rparr> \<and> (\<forall>g \<in> set new. dg_to g = to)"
  by (auto simp: sys_sendto_def draw_def Let_def ebind_Inr_iff split: if_splits
      intro: exI [of _ "[]"])

lemma sys_sendto_safe [safe]: "safely ff (\<lambda>_. True) (sys_sendto w fd buf len to)"
  by (auto simp: sys_sendto_def draw_def Let_def intro!: safely_bind [OF safely_bytes(2)])

lemma send_reply_world:
  assumes "send_reply fd from v = Inr v'"
  shows "\<exists>t new. v' = v\<lparr>v_world := (v_world v)\<lparr>tick := t, sent := sent (v_world v) @ new\<rparr>\<rparr> \<and>
    (\<forall>g \<in> set new. dg_to g = from)"
proof -
  define S where "S = (case si_ses (v_si v) of None \<Rightarrow> Inr (fd, False)
    | Some a \<Rightarrow> ebind (load (sheap (v_ins v)) a) (\<lambda>n. Inr (clsock n, disabled n)))"
  have e: "send_reply fd from v = ebind S (\<lambda>(sendsock, dis). if dis then Inr v
      else case si_msglen (v_si v) of None \<Rightarrow> Inl Uninitialised
        | Some len \<Rightarrow> ebind (sys_sendto (v_world v) sendsock (si_msgbuf (v_si v)) len from)
            (\<lambda>(_, w). Inr (v\<lparr>v_world := w\<rparr>)))"
    unfolding send_reply_def Let_def S_def ..
  obtain x where x: "S = Inr x" using assms unfolding e by (cases S) simp_all
  have r: "(if snd x then Inr v else case si_msglen (v_si v) of None \<Rightarrow> Inl Uninitialised
      | Some len \<Rightarrow> ebind (sys_sendto (v_world v) (fst x) (si_msgbuf (v_si v)) len from)
          (\<lambda>(_, w). Inr (v\<lparr>v_world := w\<rparr>))) = Inr v'"
    using assms unfolding e x ebind_simps by (simp only: case_prod_beta)
  show ?thesis
  proof (cases "snd x")
    case True
    with r have "v' = v" by simp
    then show ?thesis by (intro exI [of _ "tick (v_world v)"] exI [of _ "[]"]) simp
  next
    case False
    with r obtain len where "ebind (sys_sendto (v_world v) (fst x) (si_msgbuf (v_si v)) len from)
          (\<lambda>(_, w). Inr (v\<lparr>v_world := w\<rparr>)) = Inr v'"
      by (cases "si_msglen (v_si v)") simp_all
    then obtain y where y: "sys_sendto (v_world v) (fst x) (si_msgbuf (v_si v)) len from = Inr y"
        "v' = v\<lparr>v_world := snd y\<rparr>"
      by (cases "sys_sendto (v_world v) (fst x) (si_msgbuf (v_si v)) len from") (simp_all add: case_prod_beta)
    obtain new where "snd y = (v_world v)\<lparr>tick := Suc (tick (v_world v)), sent := sent (v_world v) @ new\<rparr>"
        "\<forall>g \<in> set new. dg_to g = from"
      using sys_sendto_world [of _ _ _ _ _ "fst y" "snd y"] y(1) by fastforce
    with y(2) show ?thesis
      by (intro exI [of _ "Suc (tick (v_world v))"] exI [of _ new]) simp
  qed
qed

lemma send_reply_safe:
  assumes v: "svc_inv v"
  shows "safely (si_msglen (v_si v) \<noteq> None) svc_inv (send_reply fd from v)"
proof -
  obtain ps where ps: "tab_wf (v_ins v) ps" "\<And>a. si_ses (v_si v) = Some a \<Longrightarrow> a \<in> set ps"
    using v unfolding svc_inv_def by blast
  have l: "\<exists>x. (case si_ses (v_si v) of None \<Rightarrow> Inr (fd, False)
      | Some a \<Rightarrow> ebind (load (sheap (v_ins v)) a) (\<lambda>n. Inr (clsock n, disabled n))) = Inr x"
  proof (cases "si_ses (v_si v)")
    case (Some a)
    then obtain n where "sheap (v_ins v) a = Some n" using tab_wfD(6) [OF ps(1) ps(2)] by blast
    with Some show ?thesis by auto
  qed auto
  have s: "safely ff svc_inv (ebind (sys_sendto (v_world v) sk buf len from) (\<lambda>(_, w). Inr (v\<lparr>v_world := w\<rparr>)))"
    for ff sk buf len
  proof (rule safely_bind [OF safely_self [OF sys_sendto_safe]], clarify)
    fix b w assume "sys_sendto (v_world v) sk buf len from = Inr (b, w)"
    then obtain new where "w = (v_world v)\<lparr>tick := Suc (tick (v_world v)), sent := sent (v_world v) @ new\<rparr>"
      using sys_sendto_world by blast
    then show "safely ff svc_inv (Inr (v\<lparr>v_world := w\<rparr>))" using v by (simp add: svc_inv_def)
  qed
  from l s v show ?thesis
    by (auto simp: send_reply_def Let_def split: option.split)
qed

text \<open>The world in which the handler runs.\<close>

abbreviation received :: "service \<Rightarrow> world" where
  "received v \<equiv> (v_world v)\<lparr>tick := Suc (Suc (tick (v_world v)))\<rparr>"

text \<open>What one datagram of the client \<open>from\<close> does to the service: the invariant is kept, so are
  the sessions of the other clients and the streams open for the descriptors in \<open>S\<close>; whatever is
  sent goes to this client.\<close>

definition svc_step :: "int set \<Rightarrow> saddr \<Rightarrow> service \<Rightarrow> service \<Rightarrow> bool" where
  "svc_step S from v v' \<longleftrightarrow> svc_inv v' \<and> (si_msglen (v_si v) \<noteq> None \<longrightarrow> si_msglen (v_si v') \<noteq> None) \<and>
     same_env (v_world v) (v_world v') \<and> untouched (v_world v) (v_world v') \<and>
     dspath (tads (v_ins v')) = dspath (tads (v_ins v)) \<and>
     (\<forall>ps. tab_wf (v_ins v) ps \<longrightarrow> (\<exists>ps'. tab_wf (v_ins v') ps' \<and>
        (\<forall>k. k \<noteq> from \<longrightarrow> ses_view (v_ins v') ps' k = ses_view (v_ins v) ps k))) \<and>
     (\<forall>fd a. map_of (socks (v_world v)) fd = Some a \<longrightarrow> map_of (socks (v_world v')) fd = Some a) \<and>
     socks_kept (v_world v) (v_ins v) (v_ins v') \<and>
     (socks_ok (v_ins v) (v_world v) \<longrightarrow> socks_ok (v_ins v') (v_world v')) \<and>
     (\<forall>s \<in> S. \<forall>f. entry_stream (tads (v_ins v')) (v_world v') s f = entry_stream (tads (v_ins v)) (v_world v) s f) \<and>
     (\<exists>new. sent (v_world v') = sent (v_world v) @ new \<and> (\<forall>g \<in> set new. dg_to g = from))"

lemma svc_step_dropped:
  assumes "svc_inv v" and "length rb = NWBUF_SIZE"
  shows "svc_step S from v (v\<lparr>v_rbuf := rb, v_world := (v_world v)\<lparr>tick := t\<rparr>\<rparr>)"
  using assms by (auto simp: svc_step_def svc_inv_def same_env_def same_socks_kept)

lemma svc_step_proc:
  assumes v: "svc_inv v" and wf: "tab_wf (v_ins v) ps" and rb: "length rb = NWBUF_SIZE"
    and h: "hstep S (v_ins v) (received v) ins' w'" and fr: "proc_frame from (v_ins v) ps ins' si'"
    and m: "si_msglen (v_si v) \<noteq> None \<longrightarrow> si_msglen si' \<noteq> None"
  shows "svc_step S from v (v\<lparr>v_rbuf := rb, v_ins := ins', v_si := si', v_world := w'\<rparr>)"
proof -
  let ?w = "received v" and ?v = "v\<lparr>v_rbuf := rb, v_ins := ins', v_si := si', v_world := w'\<rparr>"
  obtain ps' where ps': "tab_wf ins' ps'" "\<forall>a. si_ses si' = Some a \<longrightarrow> a \<in> set ps'"
      "length (si_msgbuf si') = TFTP_MSGLEN_MAX" "\<forall>k. k \<noteq> from \<longrightarrow> ses_view ins' ps' k = ses_view (v_ins v) ps k"
    using fr unfolding proc_frame_def by blast
  have "qs = ps" if "tab_wf (v_ins v) qs" for qs
    by (rule dll_unique [OF tab_wfD(1) [OF that] tab_wfD(1) [OF wf]])
  then have t: "\<forall>qs. tab_wf (v_ins v) qs \<longrightarrow> (\<exists>ps'. tab_wf ins' ps' \<and>
      (\<forall>k. k \<noteq> from \<longrightarrow> ses_view ins' ps' k = ses_view (v_ins v) qs k))"
    using ps'(1,4) by blast
  have d: "distinct (map fst (socks ?w))" using v by (simp add: svc_inv_def)
  note h' = h [unfolded hstep_def]
  have net: "distinct (map fst (socks w'))"
      "\<forall>fd a. map_of (socks ?w) fd = Some a \<longrightarrow> map_of (socks w') fd = Some a" "socks_kept ?w (v_ins v) ins'"
      "socks_ok (v_ins v) ?w \<longrightarrow> socks_ok ins' w'"
    using h' d by blast+
  have "socks_ok (v_ins v) (v_world v) \<longrightarrow> socks_ok ins' w'" using net(4) by simp
  moreover have "svc_inv ?v" using h' net(1) ps' rb by (auto simp: svc_inv_def)
  moreover have "untouched (v_world v) w'"
    using h' untouched_trans [OF untouched_upd(1)] unfolding untouched_def by blast
  moreover have "entry_stream (tads ins') w' s f = entry_stream (tads (v_ins v)) (v_world v) s f" if "s \<in> S" for s f
    using h' that by simp
  ultimately show ?thesis
    using h' m t net by (auto simp: svc_step_def same_env_def socks_kept_def)
qed

lemma svc_step_sent:
  assumes "svc_step S from v v1" and "\<forall>g \<in> set new. dg_to g = from"
  shows "svc_step S from v (v1\<lparr>v_world := (v_world v1)\<lparr>tick := t, sent := sent (v_world v1) @ new\<rparr>\<rparr>)"
proof -
  let ?w = "(v_world v1)\<lparr>tick := t, sent := sent (v_world v1) @ new\<rparr>"
  have "svc_inv (v1\<lparr>v_world := ?w\<rparr>)" using assms(1) by (simp add: svc_step_def svc_inv_def)
  moreover have "untouched (v_world v) ?w"
    using assms(1) untouched_trans [OF _ untouched_upd(3)] by (simp add: svc_step_def)
  moreover have "\<exists>n2. sent ?w = sent (v_world v) @ n2 \<and> (\<forall>g \<in> set n2. dg_to g = from)"
  proof -
    obtain n1 where "sent (v_world v1) = sent (v_world v) @ n1" "\<forall>g \<in> set n1. dg_to g = from"
      using assms(1) by (auto simp: svc_step_def)
    with assms(2) show ?thesis by (intro exI [of _ "n1 @ new"]) auto
  qed
  ultimately show ?thesis
    using assms(1) unfolding svc_step_def by (simp add: same_env_def)
qed

text \<open>The ends of a datagram: it is dropped, or handled and the reply is sent.\<close>

lemma serve_dgram_cases:
  assumes "length (v_rbuf v) = NWBUF_SIZE"
  obtains (dropped) t rb where "serve_dgram v (fd, from, bs) = Inr (v\<lparr>v_rbuf := rb, v_world := (v_world v)\<lparr>tick := t\<rparr>\<rparr>)"
      "length rb = NWBUF_SIZE"
  | (handled) rb n where "length (fst from) < IPADDRLEN_MAX" "length rb = NWBUF_SIZE"
      "serve_dgram v (fd, from, bs) = ebind (tftp_proc (v_ins v) fd (fst from) (snd from) rb n (v_si v) (received v))
        (\<lambda>(ok, ins, si, w). let v = v\<lparr>v_rbuf := rb, v_ins := ins, v_si := si, v_world := w\<rparr> in
           if \<not> ok then Inr v else send_reply fd from v)"
proof -
  let ?w = "v_world v" and ?rb = "recv_into (v_rbuf v) bs"
  have lr: "length ?rb = NWBUF_SIZE" using assms by (simp add: recv_into_def)
  have v: "v\<lparr>v_world := x\<rparr> = v\<lparr>v_rbuf := v_rbuf v, v_world := x\<rparr>" for x by (cases v) simp
  show thesis
  proof (cases "outcome ?w (tick ?w) = 0 \<and> outcome ?w (Suc (tick ?w)) = 0 \<and> length (fst from) < IPADDRLEN_MAX")
    case False
    then have "(\<exists>t. serve_dgram v (fd, from, bs) = Inr (v\<lparr>v_world := ?w\<lparr>tick := t\<rparr>\<rparr>)) \<or>
        (\<exists>t. serve_dgram v (fd, from, bs) = Inr (v\<lparr>v_rbuf := ?rb, v_world := ?w\<lparr>tick := t\<rparr>\<rparr>))"
      by (auto simp: serve_dgram_def sys_call_def draw_def Let_def)
    with dropped lr assms v show thesis by metis
  next
    case True
    then have "serve_dgram v (fd, from, bs) =
        ebind (tftp_proc (v_ins v) fd (fst from) (snd from) ?rb (length (take NWBUF_SIZE bs)) (v_si v) (received v))
        (\<lambda>(ok, ins, si, w). let v = v\<lparr>v_rbuf := ?rb, v_ins := ins, v_si := si, v_world := w\<rparr> in
           if \<not> ok then Inr v else send_reply fd from v)"
      by (simp add: serve_dgram_def sys_call_def draw_def Let_def)
    with handled lr True show thesis by blast
  qed
qed

lemma serve_dgram_step:
  assumes v: "svc_inv v" and sh: "\<And>ps. tab_wf (v_ins v) ps \<Longrightarrow> shielded S (v_ins v) ps from (v_world v)"
  shows "safely (fault_free (v_world v) \<and> si_msglen (v_si v) \<noteq> None) (svc_step S from v) (serve_dgram v (fd, from, bs))"
proof -
  obtain ps qs where v1: "tab_wf (v_ins v) ps" "ds_ok (tads (v_ins v)) (v_world v) qs"
      "\<And>a. si_ses (v_si v) = Some a \<Longrightarrow> a \<in> set ps"
    using v unfolding svc_inv_def by blast
  have v2: "length (v_rbuf v) = NWBUF_SIZE" "length (si_msgbuf (v_si v)) = TFTP_MSGLEN_MAX"
    using v unfolding svc_inv_def by simp_all
  show ?thesis using v2(1)
  proof (cases rule: serve_dgram_cases [of v fd "from" bs])
    case (dropped t rb)
    then show ?thesis using svc_step_dropped [OF v] by simp
  next
    case (handled rb n)
    let ?ff = "fault_free (v_world v) \<and> si_msglen (v_si v) \<noteq> None"
    let ?p = "tftp_proc (v_ins v) fd (fst from) (snd from) rb n (v_si v) (received v)"
    have ok: "ds_ok (tads (v_ins v)) (received v) qs" using v1(2) by simp
    have sh': "shielded S (v_ins v) ps (fst from, snd from) (received v)"
      using sh [OF v1(1)] by (simp add: shielded_def)
    have "safely (fault_free (received v)) (\<lambda>(_, ins', _, w'). hstep S (v_ins v) (received v) ins' w') ?p"
      by (rule tftp_proc_safe [OF v1(1) handled(1) ok v2(2) sh'])
    then have p: "safely ?ff (\<lambda>x. (case x of (_, ins', _, w') \<Rightarrow> hstep S (v_ins v) (received v) ins' w') \<and> ?p = Inr x) ?p"
      by (intro safely_self, elim safely_ff) (simp add: fault_free_def)
    show ?thesis
      unfolding handled(3)
    proof (rule safely_bind [OF p], clarify, goal_cases)
      case (1 ok ins' si' w')
      let ?v = "v\<lparr>v_rbuf := rb, v_ins := ins', v_si := si', v_world := w'\<rparr>"
      have fr: "proc_frame from (v_ins v) ps ins' si'"
        using tftp_proc_frame [OF v1(1) handled(1) v2(2) v1(3) 1(2)] by simp
      have m: "si_msglen (v_si v) \<noteq> None \<longrightarrow> si_msglen si' \<noteq> None" using tftp_proc_msglen [OF 1(2)] by blast
      have st: "svc_step S from v ?v" by (rule svc_step_proc [OF v v1(1) handled(2) 1(1) fr m])
      then have "svc_inv ?v" by (simp add: svc_step_def)
      then have "safely ?ff (\<lambda>v'. svc_inv v' \<and> send_reply fd from ?v = Inr v') (send_reply fd from ?v)"
        by (intro safely_self) (rule safely_ff [OF send_reply_safe], use m in simp_all)
      then have "safely ?ff (svc_step S from v) (send_reply fd from ?v)"
        by (rule safely_mono) (use send_reply_world svc_step_sent [OF st] in blast)
      with st show ?case by (simp add: Let_def)
    qed
  qed
qed

lemma serve_dgram_safe:
  assumes v: "svc_inv v"
  shows "safely (fault_free (v_world v) \<and> si_msglen (v_si v) \<noteq> None)
    (\<lambda>v'. svc_inv v' \<and> (si_msglen (v_si v) \<noteq> None \<longrightarrow> si_msglen (v_si v') \<noteq> None) \<and>
      same_env (v_world v) (v_world v') \<and> untouched (v_world v) (v_world v')) (serve_dgram v d)"
proof -
  obtain fd k bs where d: "d = (fd, k, bs)" by (cases d) auto
  show ?thesis
    unfolding d by (rule safely_mono [OF serve_dgram_step [where S = "{}", OF v shielded_empty]]) (simp add: svc_step_def)
qed

lemma reachable_inv: "reachable v \<Longrightarrow> svc_inv v"
proof (induction rule: reachable.induct)
  case (start v)
  then have "tab_wf (v_ins v) []" by (simp add: tab_wf_def keys_of_def svc_start_def)
  with start show ?case by (auto simp: svc_inv_def svc_start_def)
next
  case (dgram v d v')
  then show ?case using safely_InrD [OF serve_dgram_safe [OF dgram.IH] dgram.hyps(2)] by simp
next
  case (events v r ins w)
  then obtain ps qs where ps: "tab_wf (v_ins v) ps" "ds_ok (tads (v_ins v)) (v_world v) qs"
      "\<And>a. si_ses (v_si v) = Some a \<Longrightarrow> a \<in> set ps" unfolding svc_inv_def by blast
  obtain h where h: "ins = (v_ins v)\<lparr>sheap := h\<rparr>" "tab_wf ((v_ins v)\<lparr>sheap := h\<rparr>) ps"
      "same_files (v_world v) w" "socks w = socks (v_world v)"
    using update_event_ok [OF ps(1), of "v_world v"] events.hyps(2) by auto
  have "ds_ok (tads ins) w qs" using ds_ok_same_files [OF ps(2) h(3)] h(1) by simp
  with h events.IH ps(3) show ?case unfolding svc_inv_def by auto
next
  case (resending v ins w)
  then obtain ps qs where ps: "tab_wf (v_ins v) ps" "ds_ok (tads (v_ins v)) (v_world v) qs"
      "\<And>a. si_ses (v_si v) = Some a \<Longrightarrow> a \<in> set ps" unfolding svc_inv_def by blast
  have "tab_wf ins ps" "\<exists>qs. ds_ok (tads ins) w qs" "socks w = socks (v_world v)"
    using resend_allsession_ok [OF ps(1,2)] resending.hyps(2) by auto
  with resending.IH ps(3) show ?case unfolding svc_inv_def by auto
next
  case (cleaning v ins w)
  then obtain ps where ps: "tab_wf (v_ins v) ps" unfolding svc_inv_def by blast
  have "ins = v_ins v \<and> w = v_world v"
    using cleaning.hyps(2) cleanup_session_ok [OF ps, of "v_world v"] by (auto split: option.splits)
  with cleaning.IH show ?case by simp
next
  case (time v now)
  then show ?case by (simp add: svc_inv_def)
qed

text \<open>Sockets and open files stay in order, too: a socket is open as long as a session has it.\<close>

lemma reachable_socks: "reachable v \<Longrightarrow> socks_ok (v_ins v) (v_world v)"
proof (induction rule: reachable.induct)
  case (start v)
  then obtain qs where qs: "ds_ok (tads (v_ins v)) (v_world v) qs" "dhead (tads (v_ins v)) = None"
      "sheap (v_ins v) = (\<lambda>_. None)" by (auto simp: svc_start_def)
  then have "qs = []" using ds_okD(1) [OF qs(1)] by (cases qs) (auto simp: dll_def)
  then have "entry_stream (tads (v_ins v)) (v_world v) s f = None" for s f
    using entry_stream_notin [OF qs(1)] by (simp add: dtab_def keys_of_def)
  with qs(3) show ?case by (simp add: socks_ok_def)
next
  case (dgram v d v')
  obtain fd k bs where d: "d = (fd, k, bs)" by (cases d) auto
  have "svc_step {} k v v'"
    using safely_InrD [OF serve_dgram_step [OF reachable_inv [OF dgram.hyps(1)] shielded_empty]] dgram.hyps(2) d by blast
  with dgram.IH show ?case by (simp add: svc_step_def)
next
  case (events v r ins w)
  obtain ps where ps: "tab_wf (v_ins v) ps" using reachable_inv [OF events.hyps(1)] unfolding svc_inv_def by blast
  obtain h where h: "ins = (v_ins v)\<lparr>sheap := h\<rparr>" "same_files (v_world v) w" "socks w = socks (v_world v)"
      "\<forall>b. h b = (if b \<in> set ps then map_option (\<lambda>n. n\<lparr>regevent := \<not> disabled n\<rparr>) (sheap (v_ins v) b) else sheap (v_ins v) b)"
    using update_event_ok [OF ps, of "v_world v"] events.hyps(2) by auto
  have "same_socks (v_ins v) ins" using h(1,4) by (auto simp: same_socks_def ses_key_def split: if_splits)
  from socks_ok_step [OF events.IH this h(3)] show ?case using h(1) entry_stream_same_files [OF h(2)] by simp
next
  case (resending v ins w)
  obtain ps qs where ps: "tab_wf (v_ins v) ps" "ds_ok (tads (v_ins v)) (v_world v) qs"
    using reachable_inv [OF resending.hyps(1)] unfolding svc_inv_def by blast
  have "socks_ok (v_ins v) (v_world v) \<longrightarrow> socks_ok ins w"
    using resend_allsession_ok [OF ps] resending.hyps(2) by auto
  with resending.IH show ?case by simp
next
  case (cleaning v ins w)
  obtain ps where ps: "tab_wf (v_ins v) ps" using reachable_inv [OF cleaning.hyps(1)] unfolding svc_inv_def by blast
  have "ins = v_ins v \<and> w = v_world v"
    using cleaning.hyps(2) cleanup_session_ok [OF ps, of "v_world v"] by (auto split: option.splits)
  with cleaning.IH show ?case by simp
next
  case (time v now)
  then show ?case by simp
qed

end
