(* ===== verification/Tftp_Service_Props.thy ===== *)
theory Tftp_Service_Props
  imports Tftp_Service Datastore_Props
begin

text \<open>
  The properties of the session table and of the event loop. The fixed server states at the
  start serve the witnesses.
\<close>

section \<open>Server states for examples\<close>

definition demo_ses :: session where
  "demo_ses = empty_session\<lparr>clip := ''10.0.0.9'', clport := 1000, clsock := 4, filename := ''f''\<rparr>"

definition demo_tftp :: "session \<Rightarrow> iwtftp" where
  "demo_tftp n = \<lparr>svsocks = [3, -1], tads = demo_ds, seshead = Some 0, sheap = [0 \<mapsto> n], sbrk = 1\<rparr>"

definition demo_idle :: iwtftp where
  "demo_idle = \<lparr>svsocks = [3, -1], tads = demo_ds, seshead = None, sheap = (\<lambda>_. None), sbrk = 0\<rparr>"

definition demo_svc :: "iwtftp \<Rightarrow> service" where
  "demo_svc ins = \<lparr>v_ins = ins, v_rbuf = replicate NWBUF_SIZE NUL,
     v_si = \<lparr>si_ses = None, si_msgbuf = replicate TFTP_MSGLEN_MAX NUL, si_msglen = None\<rparr>,
     v_world = demo_world []\<rparr>"

lemma demo_ses_simps [simp]:
  "clip demo_ses = ''10.0.0.9''" "clport demo_ses = 1000" "clsock demo_ses = 4" "filename demo_ses = ''f''"
  "nxt demo_ses = None" "prv demo_ses = None" "ses_inv demo_ses" "fin demo_ses = False"
  "disabled demo_ses = False" "lastsending demo_ses = 0" "retrycount demo_ses = 0" "blknum demo_ses = 0"
  "regevent demo_ses = False" "lastmsglen demo_ses = 0"
  by (simp_all add: demo_ses_def empty_session_def empty_storage_def ses_inv_def is_cstring_def)

lemma ses_inv_flags [simp]:
  "ses_inv (n\<lparr>disabled := b\<rparr>) = ses_inv n" "ses_inv (n\<lparr>fin := b\<rparr>) = ses_inv n"
  "ses_inv (n\<lparr>lastsending := t\<rparr>) = ses_inv n" "ses_inv (n\<lparr>blknum := k\<rparr>) = ses_inv n"
  by (simp_all add: ses_inv_def)

lemma demo_tftp_simps [simp]:
  "svsocks (demo_tftp n) = [3, -1]" "tads (demo_tftp n) = demo_ds" "seshead (demo_tftp n) = Some 0"
  "sheap (demo_tftp n) 0 = Some n" "sbrk (demo_tftp n) = 1"
  by (simp_all add: demo_tftp_def)

lemma demo_idle_simps [simp]:
  "svsocks demo_idle = [3, -1]" "tads demo_idle = demo_ds" "seshead demo_idle = None"
  "sheap demo_idle = (\<lambda>_. None)" "sbrk demo_idle = 0" "tab_wf demo_idle []"
  by (simp_all add: demo_idle_def tab_wf_def keys_of_def)

lemma demo_tftp_wf: "\<lbrakk>ses_inv n; nxt n = None; prv n = None\<rbrakk> \<Longrightarrow> tab_wf (demo_tftp n) [0]"
  by (simp add: tab_wf_def dll_def keys_of_def)

text \<open>The socket of the session \<open>demo_ses\<close> is open, bound to a port of the server.\<close>

definition demo_net :: "world \<Rightarrow> world" where
  "demo_net w = w\<lparr>socks := [(4, (''10.0.0.1'', 40000)), (3, (''10.0.0.1'', 69))]\<rparr>"

lemma demo_svc_simps [simp]:
  "v_ins (demo_svc ins) = ins" "v_world (demo_svc ins) = demo_world []"
  "v_rbuf (demo_svc ins) = replicate NWBUF_SIZE NUL"
  "v_si (demo_svc ins) = \<lparr>si_ses = None, si_msgbuf = replicate TFTP_MSGLEN_MAX NUL, si_msglen = None\<rparr>"
  by (simp_all add: demo_svc_def)

lemma demo_svc_reachable: "reachable (demo_svc demo_idle)"
  by (rule reachable.start) (auto simp: svc_start_def intro: exI [of _ "[]"])

section \<open>The session table\<close>

text \<open>C7: the pointer list of sessions implements a finite map from client address and port to
  sessions: \<open>get_session\<close> is its lookup, \<open>del_session\<close> its deletion, whether the client has a
  session or not, and neither ever loops or touches freed memory.\<close>

theorem session_table_refines_map:
  assumes wf: "tab_wf ins ps"
  shows "(\<exists>r. get_session ins ip port = Inr r \<and>
      map_option (\<lambda>a. strip (the (sheap ins a))) r = ses_view ins ps (ip, port)) \<and>
    (\<exists>ins' w' ps'. del_session ins ip port w = Inr (ins', w') \<and> tab_wf ins' ps' \<and>
      ses_view ins' ps' = (ses_view ins ps)((ip, port) := None))"
  using wf
proof (cases rule: get_session_cases [where ip = ip and port = port])
  case none
  then have "(ses_view ins ps)((ip, port) := None) = ses_view ins ps" by (simp add: fun_upd_idem)
  with none wf show ?thesis by (auto simp: del_session_def)
next
  case (some a n)
  obtain xs ys where ps: "ps = xs @ a # ys" using some(2) by (meson split_list)
  obtain ins' where d: "del_session ins (clip n) (clport n) w = Inr (ins', sys_close w (clsock n))"
      "tab_wf ins' (xs @ ys)" "ses_view ins' (xs @ ys) = (ses_view ins (xs @ a # ys))(ses_key n := None)"
    using del_session_ok [OF wf [unfolded ps] some(3)] by blast
  have "ses_key n = (ip, port)" using some(4,5) by (simp add: ses_key_def)
  with d some ps show ?thesis by auto
qed

theorem session_table_refines_map_witness:
  "(\<exists>r. get_session (demo_tftp demo_ses) ''10.0.0.9'' 1000 = Inr r \<and>
      map_option (\<lambda>a. strip (the (sheap (demo_tftp demo_ses) a))) r =
      ses_view (demo_tftp demo_ses) [0] (''10.0.0.9'', 1000)) \<and>
    (\<exists>ins' w' ps'. del_session (demo_tftp demo_ses) ''10.0.0.9'' 1000 (demo_world []) = Inr (ins', w') \<and>
      tab_wf ins' ps' \<and>
      ses_view ins' ps' = (ses_view (demo_tftp demo_ses) [0])((''10.0.0.9'', 1000) := None))"
  by (rule session_table_refines_map [OF demo_tftp_wf]) simp_all

text \<open>C27: \<open>cleanup_session\<close> works only while there is nothing to clean up: with no session due it
  changes nothing, and otherwise it frees the first due session of the list and then reads the
  link of the freed node.\<close>

theorem cleanup_session_uses_freed:
  assumes "tab_wf ins ps"
  shows "cleanup_session ins w =
    (case find (\<lambda>a. ses_due (clock w) (the (sheap ins a))) ps of
       None \<Rightarrow> Inr (ins, w) | Some a \<Rightarrow> Inl (Use_after_free a))"
  by (rule cleanup_session_ok [OF assms])

theorem cleanup_session_uses_freed_witness:
  "cleanup_session (demo_tftp (demo_ses\<lparr>disabled := True\<rparr>)) (demo_world []) = Inl (Use_after_free 0)"
  using cleanup_session_uses_freed [OF demo_tftp_wf, of "demo_ses\<lparr>disabled := True\<rparr>" "demo_world []"]
  by (simp add: ses_due_def)



text \<open>C28: \<open>resend_allsession\<close> never faults. It retries a silent, unfinished session at most three
  times and then disables it, and leaves the others alone; but every datagram it sends goes to
  the local address of the socket it is sent from, the address \<open>getsockname\<close> gives, so no
  client ever receives a retransmission made here.\<close>

theorem resend_goes_to_own_address:
  assumes "tab_wf ins ps" and "ds_ok (tads ins) w qs"
  shows "\<exists>ins' w' new. resend_allsession ins w = Inr (ins', w') \<and> sent w' = sent w @ new \<and>
    (\<forall>d \<in> set new. map_of (socks w) (dg_sock d) = Some (dg_to d)) \<and>
    (\<forall>b \<in> set ps. \<exists>m. sheap ins' b = Some m \<and> resent (clock w) (the (sheap ins b)) m)"
proof -
  obtain ins' w' new where r: "resend_allsession ins w = Inr (ins', w')" "sent w' = sent w @ new"
      "\<forall>b. if b \<in> set ps then \<exists>m. sheap ins' b = Some m \<and> resent (clock w) (the (sheap ins b)) m
         else sheap ins' b = sheap ins b"
      "\<forall>d \<in> set new. \<exists>b \<in> set ps. to_self (socks w) (the (sheap ins b)) d"
    using resend_allsession_ok [OF assms] by blast
  then have "\<forall>d \<in> set new. map_of (socks w) (dg_sock d) = Some (dg_to d)"
    by (auto simp: to_self_def)
  moreover have "\<forall>b \<in> set ps. \<exists>m. sheap ins' b = Some m \<and> resent (clock w) (the (sheap ins b)) m"
    using r(3) by (metis (no_types, lifting))
  ultimately show ?thesis using r(1,2) by blast
qed

theorem resend_goes_to_own_address_witness:
  "\<exists>ins' w' new. resend_allsession (demo_tftp demo_ses) (demo_net (demo_world [])) = Inr (ins', w') \<and>
    sent w' = sent (demo_net (demo_world [])) @ new \<and>
    (\<forall>d \<in> set new. map_of (socks (demo_net (demo_world []))) (dg_sock d) = Some (dg_to d)) \<and>
    (\<forall>b \<in> set [0]. \<exists>m. sheap ins' b = Some m \<and>
       resent (clock (demo_net (demo_world []))) (the (sheap (demo_tftp demo_ses) b)) m)"
  by (rule resend_goes_to_own_address [OF demo_tftp_wf, where qs = "[]"]) simp_all

section \<open>The handler and the event loop\<close>

lemma open_files_socks:
  assumes so: "socks_ok ins w" and ok: "ds_ok (tads ins) w qs" and e: "(sid, f, p) \<in> set (dtab (tads ins) qs)"
  shows "sid = IW_ERR \<or> map_of (socks w) sid \<noteq> None"
proof -
  obtain f' fp where fp: "f = Some f'" "p = Some fp" "streams w fp \<noteq> None"
    using ok e unfolding ds_ok_def tab_ok_def by blast
  then have "entry_stream (tads ins) w sid f' \<noteq> None" using entry_stream_in [OF ok] e by simp
  with so show ?thesis unfolding socks_ok_def by blast
qed

text \<open>C4: in every state the event loop can reach, whatever datagrams came and whatever calls
  failed: no two sessions have the same client, every retry counter is between 0 and 3, every
  buffer has its size and the bytes counted in it fit, a session has an open socket, or none
  since making it failed; the table of open files of the data store is in order, and no file
  is open for a socket that is closed.\<close>

theorem service_loop_invariant:
  assumes "reachable v"
  shows "\<exists>ps. dll (sheap (v_ins v)) (seshead (v_ins v)) ps \<and>
    distinct (map (\<lambda>a. (clip (the (sheap (v_ins v) a)), clport (the (sheap (v_ins v) a)))) ps) \<and>
    (\<forall>a \<in> set ps. \<exists>n. sheap (v_ins v) a = Some n \<and> 0 \<le> retrycount n \<and> retrycount n \<le> RESEND_COUNTMAX \<and>
       lastmsglen n \<le> TFTP_MSGLEN_MAX \<and> sb_datalen (sesbuf n) \<le> SESSION_BUFSIZE \<and>
       length (sb_storage (sesbuf n)) = SESSION_BUFSIZE \<and>
       (clsock n = IW_ERR \<or> map_of (socks (v_world v)) (clsock n) \<noteq> None)) \<and>
    (\<exists>qs. ds_ok (tads (v_ins v)) (v_world v) qs \<and> (\<forall>(sid, f, p) \<in> set (dtab (tads (v_ins v)) qs).
       sid = IW_ERR \<or> map_of (socks (v_world v)) sid \<noteq> None)) \<and> length (v_rbuf v) = NWBUF_SIZE"
proof -
  obtain ps qs where ps: "tab_wf (v_ins v) ps" "ds_ok (tads (v_ins v)) (v_world v) qs"
      and l: "length (v_rbuf v) = NWBUF_SIZE"
    using reachable_inv [OF assms] unfolding svc_inv_def by blast
  have "\<exists>n. sheap (v_ins v) a = Some n \<and> ses_inv n" if a: "a \<in> set ps" for a
    using tab_wfD(5,6) [OF ps(1) a] by fastforce
  moreover have so: "socks_ok (v_ins v) (v_world v)" by (rule reachable_socks [OF assms])
  then have "clsock n = IW_ERR \<or> map_of (socks (v_world v)) (clsock n) \<noteq> None" if "sheap (v_ins v) a = Some n" for a n
    using that unfolding socks_ok_def by blast
  ultimately have "\<forall>a \<in> set ps. \<exists>n. sheap (v_ins v) a = Some n \<and> 0 \<le> retrycount n \<and> retrycount n \<le> RESEND_COUNTMAX \<and>
       lastmsglen n \<le> TFTP_MSGLEN_MAX \<and> sb_datalen (sesbuf n) \<le> SESSION_BUFSIZE \<and>
       length (sb_storage (sesbuf n)) = SESSION_BUFSIZE \<and>
       (clsock n = IW_ERR \<or> map_of (socks (v_world v)) (clsock n) \<noteq> None)"
    unfolding ses_inv_def by blast
  moreover have "\<forall>(sid, f, p) \<in> set (dtab (tads (v_ins v)) qs). sid = IW_ERR \<or> map_of (socks (v_world v)) sid \<noteq> None"
    using open_files_socks [OF so ps(2)] by blast
  moreover have "distinct (map (\<lambda>a. (clip (the (sheap (v_ins v) a)), clport (the (sheap (v_ins v) a)))) ps)"
    using tab_wfD(3) [OF ps(1)] by (simp add: keys_of_def ses_key_def)
  ultimately show ?thesis using tab_wfD(1) [OF ps(1)] ps(2) l by blast
qed

theorem service_loop_invariant_witness:
  "\<exists>ps. dll (\<lambda>_. None :: session option) None ps \<and> (\<exists>qs. ds_ok demo_ds (demo_world []) qs)"
  using service_loop_invariant [OF demo_svc_reachable] by (auto intro: exI [of _ "[]"])



text \<open>One turn of the event loop, whatever comes in, is defined or ends in a fault; it never
  loops. Together with the lists of arrivals this makes the service a total function.\<close>

lemma serve_all_safe:
  assumes "reachable v"
  shows "(\<exists>v'. serve_all v ds = Inr v' \<and> reachable v' \<and> same_env (v_world v) (v_world v') \<and>
      untouched (v_world v) (v_world v')) \<or>
    (\<exists>e. serve_all v ds = Inl e \<and> e \<noteq> Diverges)"
  using assms
proof (induction ds arbitrary: v)
  case Nil
  then show ?case by simp
next
  case (Cons d ds)
  show ?case
  proof (cases "serve_dgram v d")
    case (Inl e)
    with serve_dgram_safe [OF reachable_inv [OF Cons.prems], of d] show ?thesis by auto
  next
    case (Inr v1)
    have e: "same_env (v_world v) (v_world v1)" "untouched (v_world v) (v_world v1)"
      using serve_dgram_safe [OF reachable_inv [OF Cons.prems], of d] Inr by simp_all
    from Cons.IH [OF reachable.dgram [OF Cons.prems Inr]] show ?thesis
      using Inr same_env_trans [OF e(1)] untouched_trans [OF e(2)] by auto
  qed
qed

definition keeps_files :: "service \<Rightarrow> service \<Rightarrow> bool" where
  "keeps_files v v' \<longleftrightarrow> untouched (v_world v) (v_world v') \<and> canon (v_world v') = canon (v_world v)"

lemma keeps_files_trans: "\<lbrakk>keeps_files v v'; keeps_files v' v''\<rbrakk> \<Longrightarrow> keeps_files v v''"
  by (auto simp: keeps_files_def intro: untouched_trans)

text \<open>The two halves of a turn: the datagrams, if any came, then resending and cleaning up.\<close>

lemma round_datagrams:
  fixes ds :: "arrival list"
  assumes v: "reachable v"
  defines "r \<equiv> if ds = [] then Inr v else ebind (serve_all v ds) (\<lambda>v.
      ebind (update_event (v_ins v) (v_world v)) (\<lambda>(_, ins, w). Inr (v\<lparr>v_ins := ins, v_world := w\<rparr>)))"
  shows "(\<exists>v1. r = Inr v1 \<and> reachable v1 \<and> keeps_files v v1) \<or> (\<exists>e. r = Inl e \<and> e \<noteq> Diverges)"
proof (cases "ds = []")
  case True
  with v show ?thesis by (simp add: r_def keeps_files_def)
next
  case False
  from serve_all_safe [OF v, of ds] show ?thesis
  proof (elim disjE exE conjE)
    fix v1 assume s: "serve_all v ds = Inr v1" "reachable v1" "same_env (v_world v) (v_world v1)"
      "untouched (v_world v) (v_world v1)"
    obtain ps where ps: "tab_wf (v_ins v1) ps" using reachable_inv [OF s(2)] unfolding svc_inv_def by blast
    obtain x ins w where u: "update_event (v_ins v1) (v_world v1) = Inr (x, ins, w)"
        "same_files (v_world v1) w" "same_env (v_world v1) w"
      using update_event_ok [OF ps, of "v_world v1"] by blast
    have "untouched (v_world v) w" by (rule untouched_trans [OF s(4) untouched_same [OF u(2,3)]])
    moreover have "canon w = canon (v_world v)" using s(3) u(3) by (simp add: same_env_def)
    ultimately show ?thesis
      using reachable.events [OF s(2) u(1)] s(1) u(1) False by (simp add: r_def keeps_files_def)
  qed (use False in \<open>auto simp: r_def\<close>)
qed

lemma round_upkeep:
  assumes v: "reachable v"
  defines "r \<equiv> ebind (resend_allsession (v_ins v) (v_world v)) (\<lambda>(ins, w).
      ebind (cleanup_session ins w) (\<lambda>(ins, w). Inr (v\<lparr>v_ins := ins, v_world := w\<rparr>)))"
  shows "(\<exists>v1. r = Inr v1 \<and> reachable v1 \<and> keeps_files v v1) \<or> (\<exists>e. r = Inl e \<and> e \<noteq> Diverges)"
proof -
  obtain ps qs where ps: "tab_wf (v_ins v) ps" "ds_ok (tads (v_ins v)) (v_world v) qs"
    using reachable_inv [OF v] unfolding svc_inv_def by blast
  obtain ins w where s: "resend_allsession (v_ins v) (v_world v) = Inr (ins, w)" "tab_wf ins ps"
      "same_env (v_world v) w" "untouched (v_world v) w"
    using resend_allsession_ok [OF ps] by blast
  have v2: "reachable (v\<lparr>v_ins := ins, v_world := w\<rparr>)" by (rule reachable.resending [OF v s(1)])
  show ?thesis
  proof (cases "cleanup_session ins w")
    case (Inl x)
    with cleanup_session_ok [OF s(2), of w] s(1) show ?thesis by (auto simp: r_def split: option.splits)
  next
    case (Inr y)
    with cleanup_session_ok [OF s(2), of w] have "y = (ins, w)" by (auto split: option.splits)
    with reachable.cleaning [OF v2, of ins w] Inr s show ?thesis by (simp add: r_def keeps_files_def same_env_def)
  qed
qed

lemma service_round_reachable:
  assumes v: "reachable v"
  shows "(\<exists>v'. service_round v now ds = Inr v' \<and> reachable v' \<and> untouched (v_world v) (v_world v') \<and>
      canon (v_world v') = canon (v_world v)) \<or>
    (\<exists>e. service_round v now ds = Inl e \<and> e \<noteq> Diverges)"
proof -
  let ?v0 = "v\<lparr>v_world := (v_world v)\<lparr>clock := now\<rparr>\<rparr>"
  let ?r = "if ds = [] then Inr ?v0 else ebind (serve_all ?v0 ds) (\<lambda>v.
      ebind (update_event (v_ins v) (v_world v)) (\<lambda>(_, ins, w). Inr (v\<lparr>v_ins := ins, v_world := w\<rparr>)))"
  have e: "service_round v now ds = ebind ?r (\<lambda>v. ebind (resend_allsession (v_ins v) (v_world v)) (\<lambda>(ins, w).
      ebind (cleanup_session ins w) (\<lambda>(ins, w). Inr (v\<lparr>v_ins := ins, v_world := w\<rparr>))))"
    by (simp add: service_round_def Let_def)
  have k: "keeps_files v ?v0" by (simp add: keeps_files_def)
  from round_datagrams [OF reachable.time [OF v, of now], of ds] show ?thesis
  proof (elim disjE exE conjE)
    fix v1 assume r: "?r = Inr v1" and v1: "reachable v1" "keeps_files ?v0 v1"
    from round_upkeep [OF v1(1)] show ?thesis
      unfolding e r using keeps_files_trans [OF keeps_files_trans [OF k v1(2)]] by (auto simp: keeps_files_def)
  qed (use e in auto)
qed

lemma service_loop_untouched:
  "\<lbrakk>reachable v; service_loop v rs = Inr v'\<rbrakk> \<Longrightarrow>
   untouched (v_world v) (v_world v') \<and> canon (v_world v') = canon (v_world v) \<and> reachable v'"
proof (induction rs arbitrary: v)
  case (Cons r rs)
  obtain now ds where r: "r = (now, ds)" by (cases r)
  from service_round_reachable [OF Cons.prems(1), of now ds] Cons.prems(2) r obtain v1 where
    "service_round v now ds = Inr v1" "reachable v1" "untouched (v_world v) (v_world v1)"
    "canon (v_world v1) = canon (v_world v)" by auto
  with Cons.IH [of v1] Cons.prems(2) r untouched_trans show ?case by fastforce
qed simp

text \<open>C13: a run of the event loop over any sequence of turns never diverges, and where it is
  defined it stays among the reachable states.\<close>

theorem service_loop_terminates:
  assumes "reachable v"
  shows "service_loop v rs \<noteq> Inl Diverges \<and> (\<forall>v'. service_loop v rs = Inr v' \<longrightarrow> reachable v')"
  using assms
proof (induction rs arbitrary: v)
  case (Cons r rs)
  obtain now ds where r: "r = (now, ds)" by (cases r)
  from service_round_reachable [OF Cons.prems, of now ds] show ?case
  proof (elim disjE exE conjE)
    fix v1 assume "service_round v now ds = Inr v1" "reachable v1"
    with Cons.IH [of v1] r show ?thesis by simp
  qed (simp add: r)
qed simp

theorem service_loop_terminates_witness:
  "service_loop (demo_svc demo_idle) [(200, []), (300, [(3, (''10.0.0.9'', 1000), ''abc'')])] \<noteq> Inl Diverges"
  using service_loop_terminates [OF demo_svc_reachable] by blast

end
