(* ===== verification/Tftp_Replies.thy ===== *)
theory Tftp_Replies
  imports Tftp_Service_Props
begin

text \<open>
  What the handler answers, datagram by datagram: refused requests, datagrams of unknown
  clients, duplicates, errors, and the datagrams it ignores. \<open>says\<close> relates the \<open>sendinfo\<close> the
  handler leaves to the message the event loop then sends.
\<close>

section \<open>The reply\<close>

definition says :: "sendinfo \<Rightarrow> bytes \<Rightarrow> bool" where
  "says si msg \<longleftrightarrow> length (si_msgbuf si) = TFTP_MSGLEN_MAX \<and> si_msglen si = Some (int (length msg)) \<and>
     (\<exists>rest. si_msgbuf si = msg @ rest)"

lemma says_length: "says si msg \<Longrightarrow> length (si_msgbuf si) = TFTP_MSGLEN_MAX"
  by (simp add: says_def)

lemma saysI:
  "\<lbrakk>length buf = TFTP_MSGLEN_MAX; take (length msg) buf = msg\<rbrakk> \<Longrightarrow>
   says \<lparr>si_ses = s, si_msgbuf = buf, si_msglen = Some (int (length msg))\<rparr> msg"
  unfolding says_def by (metis append_take_drop_id sendinfo.select_convs(2,3))

lemma says_ses [simp]: "says (si\<lparr>si_ses := s\<rparr>) msg = says si msg"
  by (simp add: says_def)

definition reply_socket :: "int \<Rightarrow> iwtftp \<Rightarrow> sendinfo \<Rightarrow> int \<Rightarrow> bool" where
  "reply_socket fd ins si s \<longleftrightarrow>
     (case si_ses si of None \<Rightarrow> s = fd
      | Some a \<Rightarrow> (\<exists>n. sheap ins a = Some n \<and> clsock n = s \<and> \<not> disabled n))"

text \<open>The event loop sends exactly the message the handler left, to the client.\<close>

lemma send_reply_says:
  assumes "says (v_si v) msg" and "fault_free (v_world v)" and "map_of (socks (v_world v)) s \<noteq> None"
    and "reply_socket fd (v_ins v) (v_si v) s"
  shows "\<exists>w'. send_reply fd from v = Inr (v\<lparr>v_world := w'\<rparr>) \<and>
    w' = (v_world v)\<lparr>tick := Suc (tick (v_world v)),
      sent := sent (v_world v) @ [\<lparr>dg_sock = s, dg_to = from, dg_bytes = msg\<rparr>]\<rparr>"
proof -
  let ?w = "v_world v" and ?si = "v_si v"
  obtain rest where b: "si_msgbuf ?si = msg @ rest" "si_msglen ?si = Some (int (length msg))"
    using assms(1) by (auto simp: says_def)
  have "sys_sendto ?w s (si_msgbuf ?si) (int (length msg)) from =
      Inr (True, ?w\<lparr>tick := Suc (tick ?w), sent := sent ?w @ [\<lparr>dg_sock = s, dg_to = from, dg_bytes = msg\<rparr>]\<rparr>)"
    using assms(2,3) b(1) by (simp add: sys_sendto_def fault_free_draw)
  moreover have "(case si_ses ?si of None \<Rightarrow> Inr (fd, False)
      | Some a \<Rightarrow> ebind (load (sheap (v_ins v)) a) (\<lambda>n. Inr (clsock n, disabled n))) = Inr (s, False)"
    using assms(4) by (auto simp: reply_socket_def split: option.splits)
  ultimately show ?thesis using b(2) by (simp add: send_reply_def Let_def)
qed

text \<open>Without failing calls the handler sees each datagram, behind it what an earlier, longer one
  left in the buffer.\<close>

lemma serve_dgram_calls:
  assumes "fault_free (v_world v)" and "length (fst from) < IPADDRLEN_MAX"
    and "length bs \<le> NWBUF_SIZE" and "length (v_rbuf v) = NWBUF_SIZE"
  shows "serve_dgram v (fd, from, bs) =
    ebind (tftp_proc (v_ins v) fd (fst from) (snd from) (bs @ drop (length bs) (v_rbuf v)) (length bs)
        (v_si v) ((v_world v)\<lparr>tick := Suc (Suc (tick (v_world v)))\<rparr>)) (\<lambda>(ok, ins, si, w).
      let v' = v\<lparr>v_rbuf := bs @ drop (length bs) (v_rbuf v), v_ins := ins, v_si := si, v_world := w\<rparr> in
      if \<not> ok then Inr v' else send_reply fd from v')"
proof -
  have r: "bs @ drop (length bs) (v_rbuf v) = recv_into (v_rbuf v) bs" and t: "take NWBUF_SIZE bs = bs"
    using assms(3) by (simp_all add: recv_into_def)
  show ?thesis
    unfolding r using assms t by (simp add: serve_dgram_def sys_call_def fault_free_draw Let_def)
qed

section \<open>The handler by opcode\<close>

lemma tftp_proc_op:
  assumes "ntohs_at pkt 0 = Inr opcode" and "get_session ins ip port = Inr s"
  shows "tftp_proc ins sock ip port pkt plen si w =
     (if opcode = OP_RRQ \<or> opcode = OP_WRQ then proc_request opcode s sock ip port pkt plen ins si w
      else if opcode = OP_DATA then proc_data s pkt plen ins si w
      else if opcode = OP_ACK then proc_ack s pkt plen ins si w
      else if opcode = OP_ERROR then proc_error s pkt plen ins si w
      else proc_done s ins si w)"
  using assms by (simp add: tftp_proc_def)

lemma emsgbuf_of_cstring:
  assumes "length s < TFTP_EMSGLEN_MAX"
  shows "\<exists>t. emsgbuf_of s = s @ NUL # t"
proof -
  have "emsgbuf_of s = s @ replicate (Suc (TFTP_EMSGLEN_MAX - Suc (length s))) NUL"
    using assms by (simp add: emsgbuf_of_def Suc_diff_Suc del: replicate_Suc)
  then show ?thesis by simp
qed

lemma errsend_msg:
  assumes "length (si_msgbuf si) = TFTP_MSGLEN_MAX" and "unat ecode < 8"
    and "is_cstring emsg" and "length emsg < TFTP_EMSGLEN_MAX"
  shows "\<exists>buf. make_tftperr_msg ecode (si_msgbuf si) TFTP_MSGLEN_MAX (emsgbuf_of emsg) (length emsg) =
      Inr (int (length (enc_error \<lparr>er_errcode = ecode, er_errmsg = err_text ecode emsg\<rparr>)), buf) \<and>
    says (si\<lparr>si_msgbuf := buf,
        si_msglen := Some (int (length (enc_error \<lparr>er_errcode = ecode, er_errmsg = err_text ecode emsg\<rparr>)))\<rparr>)
      (enc_error \<lparr>er_errcode = ecode, er_errmsg = err_text ecode emsg\<rparr>)"
proof -
  obtain t where "emsgbuf_of emsg = emsg @ NUL # t" using emsgbuf_of_cstring [OF assms(4)] by blast
  from make_tftperr_msg_ok [OF assms(1,2,3,4) this] show ?thesis by (auto simp: says_def)
qed

lemma proc_errsend_None_ok:
  assumes "length (si_msgbuf si) = TFTP_MSGLEN_MAX" and "unat ecode < 8"
    and "is_cstring emsg" and "length emsg < TFTP_EMSGLEN_MAX"
  shows "\<exists>si'. proc_errsend None ecode emsg ins si w = Inr (True, ins, si', w) \<and> si_ses si' = None \<and>
    says si' (enc_error \<lparr>er_errcode = ecode, er_errmsg = err_text ecode emsg\<rparr>)"
proof -
  obtain buf where "make_tftperr_msg ecode (si_msgbuf si) TFTP_MSGLEN_MAX (emsgbuf_of emsg) (length emsg) =
      Inr (int (length (enc_error \<lparr>er_errcode = ecode, er_errmsg = err_text ecode emsg\<rparr>)), buf)"
      "says (si\<lparr>si_msgbuf := buf,
        si_msglen := Some (int (length (enc_error \<lparr>er_errcode = ecode, er_errmsg = err_text ecode emsg\<rparr>)))\<rparr>)
      (enc_error \<lparr>er_errcode = ecode, er_errmsg = err_text ecode emsg\<rparr>)"
    using errsend_msg [OF assms] by blast
  then show ?thesis by (simp add: proc_errsend_def)
qed

lemma proc_errsend_Some_ok:
  assumes "length (si_msgbuf si) = TFTP_MSGLEN_MAX" and "unat ecode < 8"
    and "is_cstring emsg" and "length emsg < TFTP_EMSGLEN_MAX" and "sheap ins a = Some n"
  shows "\<exists>si'. proc_errsend (Some a) ecode emsg ins si w =
      Inr (True, ins\<lparr>sheap := (sheap ins)(a \<mapsto> n\<lparr>fin := True\<rparr>)\<rparr>, si', w) \<and> si_ses si' = Some a \<and>
    says si' (enc_error \<lparr>er_errcode = ecode, er_errmsg = err_text ecode emsg\<rparr>)"
proof -
  obtain buf where "make_tftperr_msg ecode (si_msgbuf si) TFTP_MSGLEN_MAX (emsgbuf_of emsg) (length emsg) =
      Inr (int (length (enc_error \<lparr>er_errcode = ecode, er_errmsg = err_text ecode emsg\<rparr>)), buf)"
      "says (si\<lparr>si_msgbuf := buf,
        si_msglen := Some (int (length (enc_error \<lparr>er_errcode = ecode, er_errmsg = err_text ecode emsg\<rparr>)))\<rparr>)
      (enc_error \<lparr>er_errcode = ecode, er_errmsg = err_text ecode emsg\<rparr>)"
    using errsend_msg [OF assms(1-4)] by blast
  then show ?thesis using assms(5) by (simp add: proc_errsend_def)
qed

section \<open>Clients without a session\<close>

abbreviation reply_error :: "u16 \<Rightarrow> bytes" where
  "reply_error ecode \<equiv> enc_error \<lparr>er_errcode = ecode, er_errmsg = errmsgs ! unat ecode\<rparr>"

lemma err_text_table [simp]: "ecode \<noteq> TFTP_ERR_SEEMSG \<Longrightarrow> err_text ecode s = errmsgs ! unat ecode"
  by (simp add: err_text_def)

lemma tftp_proc_unknown:
  assumes wf: "tab_wf ins ps" and new: "ses_view ins ps (ip, port) = None"
    and l: "length (si_msgbuf si) = TFTP_MSGLEN_MAX" and o: "ntohs_at pkt 0 = Inr opcode"
  shows "(opcode = OP_DATA \<or> opcode = OP_ACK \<longrightarrow>
      (\<exists>si'. tftp_proc ins sock ip port pkt plen si w = Inr (True, ins, si', w) \<and> si_ses si' = None \<and>
        says si' (reply_error TFTP_ERR_UNKNOWNID))) \<and>
    (opcode = OP_ERROR \<longrightarrow> tftp_proc ins sock ip port pkt plen si w = Inr (False, ins, si, w))"
proof -
  have g: "get_session ins ip port = Inr None"
    using wf by (cases rule: get_session_cases [where ip = ip and port = port]) (use new in auto)
  obtain si' where e: "proc_errsend None TFTP_ERR_UNKNOWNID [] ins si w = Inr (True, ins, si', w)"
      "si_ses si' = None" "says si' (reply_error TFTP_ERR_UNKNOWNID)"
    using proc_errsend_None_ok [OF l, of TFTP_ERR_UNKNOWNID "[]" ins w] by (auto simp: is_cstring_def)
  then show ?thesis
    by (auto simp: tftp_proc_op [OF o g] proc_data_def proc_ack_def proc_error_def)
qed

text \<open>C21: a client that has no session gets ERROR 5, \<open>Unknown transfer ID\<close>, for a DATA or ACK
  datagram, and no answer to an ERROR datagram; no session, no file and no socket changes.\<close>

theorem unknown_client_refused:
  assumes wf: "tab_wf ins ps" and new: "ses_view ins ps (ip, port) = None"
    and l: "length (si_msgbuf si) = TFTP_MSGLEN_MAX" and o: "ntohs_at pkt 0 = Inr opcode"
  shows "(opcode = OP_DATA \<or> opcode = OP_ACK \<longrightarrow>
      (\<exists>si'. tftp_proc ins sock ip port pkt plen si w = Inr (True, ins, si', w) \<and> si_ses si' = None \<and>
        says si' (reply_error TFTP_ERR_UNKNOWNID))) \<and>
    (opcode = OP_ERROR \<longrightarrow> tftp_proc ins sock ip port pkt plen si w = Inr (False, ins, si, w))"
  using tftp_proc_unknown [OF assms] by blast

theorem unknown_client_refused_witness:
  "\<exists>si'. tftp_proc demo_idle 3 ''10.0.0.9'' 1000 (put_be16 OP_DATA @ ''xy'') 4 (v_si (demo_svc demo_idle))
      (demo_world []) = Inr (True, demo_idle, si', demo_world []) \<and> si_ses si' = None \<and>
    says si' (reply_error TFTP_ERR_UNKNOWNID)"
  by (rule unknown_client_refused [OF demo_idle_simps(6) _ _ ntohs_hd, THEN conjunct1, rule_format])
    (simp_all add: ses_view_def)

definition regular_file :: "iwtftp \<Rightarrow> world \<Rightarrow> string \<Rightarrow> bool" where
  "regular_file ins w f \<longleftrightarrow> (\<exists>c. fsys w (canon w (joined (dspath (tads ins)) f)) = Some (Regular c))"

text \<open>The outcome of a refusal: only the message buffer changes.\<close>

definition refused_with :: "proc_result \<Rightarrow> iwtftp \<Rightarrow> world \<Rightarrow> u16 \<Rightarrow> bool" where
  "refused_with r ins w e \<longleftrightarrow> (\<exists>si' t. r = Inr (True, ins, si', w\<lparr>tick := t\<rparr>) \<and> si_ses si' = None \<and>
     says si' (reply_error e))"



section \<open>Clients with a session\<close>

text \<open>The datagrams \<open>tftp_proc\<close> takes for a repetition of the client's last one: any request,
  DATA with the block number of the last ACK, ACK of the block before the last DATA.\<close>

definition is_duplicate :: "session \<Rightarrow> bytes \<Rightarrow> nat \<Rightarrow> bool" where
  "is_duplicate n pkt plen \<longleftrightarrow>
     ntohs_at pkt 0 = Inr OP_RRQ \<or> ntohs_at pkt 0 = Inr OP_WRQ \<or>
     ntohs_at pkt 0 = Inr OP_DATA \<and> (\<exists>d. parse_tftpdata pkt plen = Inr (Some d) \<and> dt_blknum d = blknum n) \<or>
     ntohs_at pkt 0 = Inr OP_ACK \<and>
       (\<exists>a. parse_tftpack pkt plen = Inr (Some a) \<and> uint (ak_blknum a) = uint (blknum n) - 1)"

lemma tftp_proc_duplicate:
  assumes "get_session ins ip port = Inr (Some a)" and n: "sheap ins a = Some n"
    and "is_duplicate n pkt plen"
  shows "tftp_proc ins sock ip port pkt plen si w = proc_resend a ins si w"
  using assms(3) unfolding is_duplicate_def
  by (elim disjE conjE exE)
    (simp_all add: tftp_proc_op [OF _ assms(1)] proc_request_def proc_data_def proc_ack_def n)

text \<open>C22: a duplicate datagram makes the server repeat the last message of the session, byte for
  byte, and count it; after three repetitions the session is disabled and its file closed
  instead. In both cases the block number and the rest of the session stay.\<close>

theorem duplicate_repeats_last_message:
  assumes wf: "tab_wf ins ps" and a: "a \<in> set ps" and n: "sheap ins a = Some n"
    and l: "length (si_msgbuf si) = TFTP_MSGLEN_MAX" and dup: "is_duplicate n pkt plen"
    and ds: "ds_ok (tads ins) w qs"
  shows "if retrycount n < RESEND_COUNTMAX
    then \<exists>si'. tftp_proc ins sock (clip n) (clport n) pkt plen si w = Inr (True,
        ins\<lparr>sheap := (sheap ins)(a \<mapsto> n\<lparr>lastsending := clock w, retrycount := retrycount n + 1\<rparr>)\<rparr>, si', w) \<and>
      si_ses si' = Some a \<and> says si' (take (lastmsglen n) (lastmsg n))
    else \<exists>ads' w' qs'. tftp_proc ins sock (clip n) (clport n) pkt plen si w = Inr (True,
        ins\<lparr>sheap := (sheap ins)(a \<mapsto> n\<lparr>disabled := True\<rparr>), tads := ads'\<rparr>, si\<lparr>si_ses := Some a\<rparr>, w') \<and>
      ds_ok ads' w' qs' \<and> ds_stream ads' w' qs' (clsock n) (filename n) = None \<and> fsys w' = fsys w"
proof -
  have g: "get_session ins (clip n) (clport n) = Inr (Some a)" by (rule get_session_found [OF wf a n])
  have inv: "ses_inv n" using tab_wfD(5) [OF wf a] n by simp
  show ?thesis
  proof (cases "retrycount n < RESEND_COUNTMAX")
    case True
    let ?m = "take (lastmsglen n) (lastmsg n)"
    have m: "length ?m = lastmsglen n" "lastmsglen n \<le> TFTP_MSGLEN_MAX" "length (lastmsg n) = TFTP_MSGLEN_MAX"
      using inv by (simp_all add: ses_inv_def)
    then have "rd_bytes (lastmsg n) 0 (lastmsglen n) = Inr ?m"
      "wr_bytes (si_msgbuf si) 0 ?m = Inr (?m @ drop (lastmsglen n) (si_msgbuf si))"
      using l by simp_all
    with True n m l show ?thesis
      by (simp add: tftp_proc_duplicate [OF g n dup] proc_resend_def says_def)
  next
    case False
    obtain ads' w' qs' where c: "close_data n (tads ins) w = Inr (ads', w')" "ds_ok ads' w' qs'"
        "ds_stream ads' w' qs' (clsock n) (filename n) = None" "fsys w' = fsys w"
      using close_data_ok [OF ds] by blast
    then have "tftp_proc ins sock (clip n) (clport n) pkt plen si w = Inr (True,
        ins\<lparr>sheap := (sheap ins)(a \<mapsto> n\<lparr>disabled := True\<rparr>), tads := ads'\<rparr>, si\<lparr>si_ses := Some a\<rparr>, w')"
      using False n by (simp add: tftp_proc_duplicate [OF g n dup] proc_resend_def)
    with False c show ?thesis unfolding if_not_P [OF False] by blast
  qed
qed

theorem duplicate_repeats_last_message_witness:
  "\<exists>si'. tftp_proc (demo_tftp demo_ses) 3 ''10.0.0.9'' 1000 (put_be16 OP_RRQ @ ''xy'') 4
      (v_si (demo_svc demo_idle)) (demo_world []) = Inr (True,
        demo_tftp demo_ses \<lparr>sheap := (sheap (demo_tftp demo_ses))(0 \<mapsto> demo_ses\<lparr>lastsending := 100, retrycount := 1\<rparr>)\<rparr>,
        si', demo_world []) \<and> si_ses si' = Some 0 \<and> says si' []"
  using duplicate_repeats_last_message [OF demo_tftp_wf _ demo_tftp_simps(4), of demo_ses
      "v_si (demo_svc demo_idle)" "put_be16 OP_RRQ @ ''xy''" 4 "demo_world []" "[]" 3]
  by (simp add: is_duplicate_def ntohs_hd del: ntohs_at_Inr)

text \<open>C23: an ERROR datagram of a client, well formed or not, disables its session and closes the
  session's file; no file changes.\<close>

theorem error_message_ends_session:
  assumes wf: "tab_wf ins ps" and a: "a \<in> set ps" and n: "sheap ins a = Some n"
    and o: "ntohs_at pkt 0 = Inr OP_ERROR" and len: "length pkt = NWBUF_SIZE"
    and ds: "ds_ok (tads ins) w qs"
  shows "\<exists>ads' w' qs'. tftp_proc ins sock (clip n) (clport n) pkt plen si w = Inr (True,
        ins\<lparr>sheap := (sheap ins)(a \<mapsto> n\<lparr>disabled := True\<rparr>), tads := ads'\<rparr>, si\<lparr>si_ses := Some a\<rparr>, w') \<and>
      ds_ok ads' w' qs' \<and> ds_stream ads' w' qs' (clsock n) (filename n) = None \<and> fsys w' = fsys w"
proof -
  have g: "get_session ins (clip n) (clport n) = Inr (Some a)" by (rule get_session_found [OF wf a n])
  have "defined (parse_tftperror pkt plen)"
    using len find_nul_ok [of 4 TFTP_EMSGLEN_MAX pkt] find_nul_TrueD [of pkt 4 TFTP_EMSGLEN_MAX]
    by (auto simp: parse_tftperror_def defined_iff)
  then obtain m where "parse_tftperror pkt plen = Inr m" by (auto simp: defined_iff)
  moreover obtain ads' w' qs' where c: "close_data n (tads ins) w = Inr (ads', w')" "ds_ok ads' w' qs'"
      "ds_stream ads' w' qs' (clsock n) (filename n) = None" "fsys w' = fsys w"
    using close_data_ok [OF ds] by blast
  ultimately have "tftp_proc ins sock (clip n) (clport n) pkt plen si w = Inr (True,
      ins\<lparr>sheap := (sheap ins)(a \<mapsto> n\<lparr>disabled := True\<rparr>), tads := ads'\<rparr>, si\<lparr>si_ses := Some a\<rparr>, w')"
    using n by (simp add: tftp_proc_op [OF o g] proc_error_def proc_done_def)
  with c show ?thesis by blast
qed

theorem error_message_ends_session_witness:
  "\<exists>ads' w' qs'. tftp_proc (demo_tftp demo_ses) 3 ''10.0.0.9'' 1000 (put_be16 OP_ERROR @ replicate 1022 NUL) 5
      (v_si (demo_svc demo_idle)) (demo_world []) = Inr (True,
        demo_tftp demo_ses \<lparr>sheap := (sheap (demo_tftp demo_ses))(0 \<mapsto> demo_ses\<lparr>disabled := True\<rparr>), tads := ads'\<rparr>,
        (v_si (demo_svc demo_idle))\<lparr>si_ses := Some 0\<rparr>, w') \<and>
      ds_ok ads' w' qs' \<and> ds_stream ads' w' qs' 4 ''f'' = None"
  using error_message_ends_session [OF demo_tftp_wf _ demo_tftp_simps(4) ntohs_hd, of demo_ses
      "replicate 1022 NUL" "demo_world []" "[]" 3 5 "v_si (demo_svc demo_idle)"]
  by (simp only: demo_ses_simps demo_tftp_simps) auto

section \<open>Separation of the clients\<close>

text \<open>C30: an unknown opcode is answered all the same: the client, which need not have a session,
  gets the bytes of the last message made for whichever client was served before.\<close>

theorem serve_dgram_leaks_last_reply:
  assumes wf: "tab_wf (v_ins v) ps" and new: "ses_view (v_ins v) ps from = None"
    and ff: "fault_free (v_world v)" and rb: "length (v_rbuf v) = NWBUF_SIZE"
    and fd: "map_of (socks (v_world v)) fd \<noteq> None" and last: "says (v_si v) msg"
    and ip: "length (fst from) < IPADDRLEN_MAX" and bs: "bs = put_be16 opcode @ t" "length bs \<le> NWBUF_SIZE"
    and op: "opcode \<notin> {OP_RRQ, OP_WRQ, OP_DATA, OP_ACK, OP_ERROR}"
  shows "\<exists>v'. serve_dgram v (fd, from, bs) = Inr v' \<and> v_ins v' = v_ins v \<and>
    sent (v_world v') = sent (v_world v) @ [\<lparr>dg_sock = fd, dg_to = from, dg_bytes = msg\<rparr>]"
proof -
  let ?buf = "bs @ drop (length bs) (v_rbuf v)"
  let ?w = "(v_world v)\<lparr>tick := Suc (Suc (tick (v_world v)))\<rparr>"
  let ?v = "v\<lparr>v_rbuf := ?buf, v_ins := v_ins v, v_si := (v_si v)\<lparr>si_ses := None\<rparr>, v_world := ?w\<rparr>"
  have g: "get_session (v_ins v) (fst from) (snd from) = Inr None"
    using wf by (cases rule: get_session_cases [where ip = "fst from" and port = "snd from"]) (use new in auto)
  have "ntohs_at ?buf 0 = Inr opcode" unfolding bs(1) append_assoc by (rule ntohs_hd)
  then have "tftp_proc (v_ins v) fd (fst from) (snd from) ?buf (length bs) (v_si v) ?w =
      Inr (True, v_ins v, (v_si v)\<lparr>si_ses := None\<rparr>, ?w)"
    using op by (simp add: tftp_proc_op [OF _ g] proc_done_def)
  then have "serve_dgram v (fd, from, bs) = send_reply fd from ?v"
    by (simp add: serve_dgram_calls [OF ff ip bs(2) rb])
  moreover have "\<exists>w'. send_reply fd from ?v = Inr (?v\<lparr>v_world := w'\<rparr>) \<and>
    w' = (v_world ?v)\<lparr>tick := Suc (tick (v_world ?v)),
      sent := sent (v_world ?v) @ [\<lparr>dg_sock = fd, dg_to = from, dg_bytes = msg\<rparr>]\<rparr>"
    by (rule send_reply_says) (use last ff fd in \<open>simp_all add: reply_socket_def\<close>)
  ultimately show ?thesis by auto
qed

text \<open>\<open>demo_told msg\<close>: the last message of the server was \<open>msg\<close>.\<close>

definition demo_told :: "bytes \<Rightarrow> service" where
  "demo_told msg = (demo_svc demo_idle)\<lparr>v_si :=
     \<lparr>si_ses = None, si_msgbuf = msg @ replicate (TFTP_MSGLEN_MAX - length msg) NUL,
      si_msglen = Some (int (length msg))\<rparr>\<rparr>"

theorem serve_dgram_leaks_last_reply_witness:
  "\<exists>v'. serve_dgram (demo_told ''secret'') (3, (''10.0.0.8'', 7), put_be16 9 @ []) = Inr v' \<and>
    sent (v_world v') = [\<lparr>dg_sock = 3, dg_to = (''10.0.0.8'', 7), dg_bytes = ''secret''\<rparr>]"
  using serve_dgram_leaks_last_reply [of "demo_told ''secret''" "[]" "(''10.0.0.8'', 7)" 3 "''secret''" "put_be16 9 @ []" 9 "[]"]
  by (auto simp: demo_told_def says_def ses_view_def)

end
