(* ===== verification/Tftp_Transfer.thy ===== *)
theory Tftp_Transfer
  imports Tftp_Replies
begin

text \<open>
  A file transfer as the client sees it: \<open>serve_all\<close> over the request and the datagrams that
  follow it, in a world without failing calls. The files are those of the start of the
  transfer, \<open>F\<close>.
\<close>

section \<open>Transfers and the network\<close>

text \<open>Sending datagrams and opening sockets does not disturb a transfer: the world at its start,
  which \<open>ses_sends\<close> and \<open>ses_stores\<close> refer to, moves along.\<close>

definition sending :: "(string \<Rightarrow> fnode option) \<Rightarrow> session \<Rightarrow> iwds \<Rightarrow> world \<Rightarrow> bytes \<Rightarrow> bool" where
  "sending F n ads w out \<longleftrightarrow> (\<exists>w0. fsys w0 = F \<and> ses_sends w0 (dspath ads) (n, ads, w) out)"

definition receiving :: "(string \<Rightarrow> fnode option) \<Rightarrow> session \<Rightarrow> iwds \<Rightarrow> world \<Rightarrow> bytes \<Rightarrow> bool" where
  "receiving F n ads w c \<longleftrightarrow> (\<exists>w0. fsys w0 = F \<and> canon w0 = canon w \<and> ses_stores w0 (dspath ads) (n, ads, w) c)"

abbreviation net_moved :: "world \<Rightarrow> world \<Rightarrow> world" where
  "net_moved w0 w \<equiv> w0\<lparr>socks := socks w, epoll := epoll w, sent := sent w\<rparr>"

lemma guarded_net_moved [simp]: "guarded (net_moved w0 w) q c = guarded w0 q c"
  by (simp add: guarded_def)

lemma guarded_eq: "same_files w w' \<Longrightarrow> guarded w' q c = guarded w q c"
  by (simp add: same_files_def guarded_def)

lemma confined_net_moved:
  assumes "confined w0 w" and "same_files w w'" and "same_env w w'"
  shows "confined (net_moved w0 w') w'"
proof -
  have "confined w0 w'" by (rule confined_trans [OF assms(1) confined_same [OF assms(2,3)]])
  then show ?thesis by (simp add: confined_def apart_def)
qed

lemma fstep_net_moved:
  assumes "fstep x w0 w" and "same_files w w'" and "same_env w w'"
  shows "fstep x (net_moved w0 w') w'"
  using assms guarded_eq [OF assms(2)] confined_net_moved [OF _ assms(2,3)] unfolding fstep_def
  by (simp add: same_env_def)

lemma ds_stream_same_files: "same_files w w' \<Longrightarrow> ds_stream ds w' ps sid f = ds_stream ds w ps sid f"
  by (simp add: ds_stream_def same_files_def split: option.split)

lemma ds_reads_net_moved:
  assumes "ds_reads w0 dir sid f (ads, w) r" and s: "same_files w w'" and e: "same_env w w'"
  shows "ds_reads (net_moved w0 w') dir sid f (ads, w') r"
proof -
  have "reading ads w' ps sid f pos" if "reading ads w ps sid f pos" for ps pos
    using that s e ds_ok_same_files [of ads w ps w'] ds_stream_same_files [OF s]
    by (auto simp: reading_def same_env_def)
  moreover have "fsys w' = fsys w" using s by (simp add: same_files_def)
  ultimately show ?thesis
    using assms(1) fstep_net_moved [OF _ s e] unfolding ds_reads_def by fastforce
qed

lemma ds_writes_net_moved:
  assumes "ds_writes w0 dir sid f (ads, w) c" and s: "same_files w w'" and e: "same_env w w'"
  shows "ds_writes (net_moved w0 w') dir sid f (ads, w') c"
proof -
  have "writing ads w' ps sid f c" if "writing ads w ps sid f c" for ps
    using that s e ds_ok_same_files [of ads w ps w'] ds_stream_same_files [OF s]
    by (auto simp: writing_def same_env_def same_files_def)
  moreover have "fsys w' = fsys w" using s by (simp add: same_files_def)
  ultimately show ?thesis
    using assms(1) fstep_net_moved [OF _ s e] unfolding ds_writes_def by fastforce
qed

lemma sending_moved:
  assumes "sending F n ads w out" and "same_files w w'" and "same_env w w'"
  shows "sending F n ads w' out"
proof -
  obtain w0 where w0: "fsys w0 = F" "ses_sends w0 (dspath ads) (n, ads, w) out"
    using assms(1) by (auto simp: sending_def)
  then have "ses_sends (net_moved w0 w') (dspath ads) (n, ads, w') out"
    using ds_reads_net_moved [OF _ assms(2,3)] unfolding ses_sends_def by fastforce
  with w0(1) show ?thesis unfolding sending_def by (intro exI [of _ "net_moved w0 w'"]) simp
qed

lemma receiving_moved:
  assumes "receiving F n ads w c" and "same_files w w'" and "same_env w w'"
  shows "receiving F n ads w' c"
proof -
  obtain w0 where w0: "fsys w0 = F" "canon w0 = canon w" "ses_stores w0 (dspath ads) (n, ads, w) c"
    using assms(1) by (auto simp: receiving_def)
  then have "ses_stores (net_moved w0 w') (dspath ads) (n, ads, w') c"
    using ds_writes_net_moved [OF _ assms(2,3)] unfolding ses_stores_def by fastforce
  with w0(1,2) assms(3) show ?thesis
    unfolding receiving_def by (intro exI [of _ "net_moved w0 w'"]) (simp add: same_env_def)
qed

lemma closed_moved:
  assumes "ses_closed F n ads w" and "same_files w w'"
  shows "ses_closed F n ads w'"
  using assms ds_ok_same_files [of ads w _ w'] ds_stream_same_files [OF assms(2)]
  by (auto simp: ses_closed_def same_files_def)

section \<open>A new session\<close>

lemma create_socket_ok:
  assumes "fault_free w"
  shows "\<exists>fd w'. create_socket fam ip svc w = Inr (fd, w') \<and> 0 \<le> fd"
proof -
  define host where "host = (if ip = ''ANY'' then wildcard fam else ip)"
  let ?t = "\<lambda>k w. w\<lparr>tick := k + tick w\<rparr>"
  let ?used = "map fst (socks w)"
  let ?fd = "pick_fd (length ?used) ?used (int (outcome w (Suc (Suc (tick w)))))"
  have "0 \<le> ?fd" using pick_fd_ge [of "int (outcome w (Suc (Suc (tick w))))"] by (metis of_nat_0_le_iff order_trans)
  then show ?thesis
    using assms by (simp add: create_socket_def sys_call_def sys_socket_def sys_bind_def draw_def fault_free_def Let_def)
qed

definition mode_of :: "string \<Rightarrow> tftp_mode" where
  "mode_of md = (if is_netascii md then TFTP_MODE_NETASCII else TFTP_MODE_OCTET)"

text \<open>The session a request makes: empty, for this client, file and mode, with a fresh socket.\<close>

definition fresh_session :: "session \<Rightarrow> string \<times> u16 \<Rightarrow> int \<Rightarrow> string \<Rightarrow> string \<Rightarrow> bool" where
  "fresh_session n from s file md \<longleftrightarrow>
     strip n = empty_session\<lparr>clip := fst from, clport := snd from, clsock := s, filename := file,
       tftpmode := mode_of md\<rparr>"

lemma fresh_sessionD:
  assumes "fresh_session n from s file md"
  shows "clip n = fst from" "clport n = snd from" "clsock n = s" "filename n = file" "tftpmode n = mode_of md"
    "sesbuf n = empty_storage" "blknum n = 0" "\<not> fin n" "\<not> disabled n" "length (lastmsg n) = TFTP_MSGLEN_MAX"
proof -
  note e = assms [unfolded fresh_session_def, symmetric]
  have "x (strip n) = x (empty_session\<lparr>clip := fst from, clport := snd from, clsock := s, filename := file,
       tftpmode := mode_of md\<rparr>)" for x :: "session \<Rightarrow> 'a" using e by simp
  note f = this
  show "clip n = fst from" using f [of clip] by (simp add: strip_def)
  show "clport n = snd from" using f [of clport] by (simp add: strip_def)
  show "clsock n = s" using f [of clsock] by (simp add: strip_def)
  show "filename n = file" using f [of filename] by (simp add: strip_def)
  show "tftpmode n = mode_of md" using f [of tftpmode] by (simp add: strip_def)
  show "sesbuf n = empty_storage" using f [of sesbuf] by (simp add: strip_def empty_session_def)
  show "blknum n = 0" using f [of blknum] by (simp add: strip_def empty_session_def)
  show "\<not> fin n" using f [of fin] by (simp add: strip_def empty_session_def)
  show "\<not> disabled n" using f [of disabled] by (simp add: strip_def empty_session_def)
  show "length (lastmsg n) = TFTP_MSGLEN_MAX" using f [of lastmsg] by (simp add: strip_def empty_session_def)
qed

lemma add_newsession_ok:
  assumes wf: "tab_wf ins ps" and new: "ses_view ins ps (ip, port) = None"
    and ip: "length ip < IPADDRLEN_MAX" and cs: "is_cstring file" "length file < TFTP_FILENAME_MAX"
    and md: "is_netascii md \<or> is_octet md" and ff: "fault_free w"
    and sk: "map_of (socks w) svsock \<noteq> None" and d: "distinct (map fst (socks w))"
  shows "\<exists>a ins' w' ps' n s. add_newsession ins svsock ip port file md w = Inr (Some a, ins', w') \<and>
    tab_wf ins' ps' \<and> a \<in> set ps' \<and> sheap ins' a = Some n \<and> fresh_session n (ip, port) s file md \<and>
    tads ins' = tads ins \<and> same_files w w' \<and> same_env w w' \<and> sent w' = sent w \<and>
    map_of (socks w) s = None \<and> map_of (socks w') s \<noteq> None \<and> new_sock (ip, port) file s ins ins'"
  using wf
proof (cases rule: create_session_ok [where w = w])
  case (none ins1 w1)
  with ff show ?thesis by simp
next
  case (some ins1 w1 n)
  obtain svip svport where sv: "map_of (socks w) svsock = Some (svip, svport)" using sk by auto
  let ?a = "sbrk ins" and ?m = "init_session n ip port file md"
  let ?w = "w\<lparr>tick := tick w + 4\<rparr>"
  obtain s w2 where c: "create_socket (family_of svip) svip None ?w = Inr (s, w2)" "0 \<le> s"
    using create_socket_ok [of ?w "family_of svip" svip None] ff by auto
  let ?ins' = "ins1\<lparr>sheap := (sheap ins1)(?a \<mapsto> ?m\<lparr>clsock := s\<rparr>)\<rparr>"
  have r: "add_newsession ins svsock ip port file md w = Inr (Some ?a, ?ins', w2)"
    using some(1,4,8) sv c ff
    by (simp add: add_newsession_def sys_getsockname_def sys_call_def fault_free_draw Let_def
        add.commute [of 4] numeral_eq_Suc)
  obtain ps' where ps': "tab_wf ?ins' ps'" "?a \<in> set ps'"
    using add_newsession_frame [OF wf new ip cs(1) r] by (auto simp: at_session_def)
  have net: "tads ?ins' = tads ins" "same_files w w2" "same_env w w2" "sent w2 = sent w"
    using add_newsession_net [OF r] by simp_all
  have "map_of (socks w) s = None \<and> map_of (socks w2) s \<noteq> None"
    using create_socket_net [OF c(1)] d c(2) by (auto simp: map_of_eq_None_iff)
  moreover have fs: "fresh_session (?m\<lparr>clsock := s\<rparr>) (ip, port) s file md"
  proof -
    have "strip (?m\<lparr>clsock := s\<rparr>) = (init_session (strip n) ip port file md)\<lparr>clsock := s\<rparr>"
      by (simp add: strip_def init_session_def)
    also have "\<dots> = empty_session\<lparr>clip := ip, clport := port, clsock := s, filename := file,
       tftpmode := mode_of md\<rparr>"
      using some(5) ip cs(2) md by (auto simp: init_session_def mode_of_def)
    finally show ?thesis by (simp add: fresh_session_def)
  qed
  moreover have "sheap ?ins' ?a = Some (?m\<lparr>clsock := s\<rparr>)" by simp
  moreover have "new_sock (ip, port) file s ins ?ins'"
    using add_newsession_new_sock [OF r, of "?m\<lparr>clsock := s\<rparr>"] fresh_sessionD(1-4) [OF fs] by (simp add: ses_key_def)
  ultimately show ?thesis using r ps' net by blast
qed

section \<open>The handler on a transfer\<close>

text \<open>\<open>moved_on\<close>: of the server only the session \<open>a\<close>, the data store and the world have changed,
  and the network not at all.\<close>

definition moved_on :: "iwtftp \<Rightarrow> world \<Rightarrow> nat \<Rightarrow> session \<Rightarrow> iwtftp \<Rightarrow> world \<Rightarrow> bool" where
  "moved_on ins w a m ins' w' \<longleftrightarrow> (\<exists>ads'. ins' = ins\<lparr>sheap := (sheap ins)(a \<mapsto> m), tads := ads'\<rparr>) \<and>
     same_env w w' \<and> socks w' = socks w \<and> sent w' = sent w"

lemma proc_send_data_ok:
  assumes n: "sheap ins a = Some n" and l: "length (si_msgbuf si) = TFTP_MSGLEN_MAX"
    and lm: "length (lastmsg n) = TFTP_MSGLEN_MAX" and s: "sending F n (tads ins) w out"
    and f: "\<not> fin n"
  defines "p \<equiv> take TFTP_DATALEN_MAX out"
  shows "\<exists>ins' si' w' m. proc_send_data a ins si w = Inr (True, ins', si', w') \<and> si_ses si' = Some a \<and>
    says si' (enc_data \<lparr>dt_blknum = blknum n + 1, dt_data = p\<rparr>) \<and> moved_on ins w a m ins' w' \<and>
    same_id n m \<and> disabled m = disabled n \<and> blknum m = blknum n + 1 \<and> length (lastmsg m) = TFTP_MSGLEN_MAX \<and>
    (if TFTP_DATALEN_MAX \<le> length out then \<not> fin m \<and> sending F m (tads ins') w' (drop TFTP_DATALEN_MAX out)
     else fin m \<and> ses_closed F m (tads ins') w')"
proof -
  obtain w0 where w0: "fsys w0 = F" "ses_sends w0 (dspath (tads ins)) (n, tads ins, w) out"
    using s by (auto simp: sending_def)
  obtain sb' lm' ads' buf' w' m where
    mk: "make_tftpdata_msg n (tads ins) (si_msgbuf si) TFTP_MSGLEN_MAX w = Inr (4 + int (length p), m, ads', buf', w')"
    and m: "m = n\<lparr>sesbuf := sb', blknum := blknum n + 1, fin := fin n \<or> length p < TFTP_DATALEN_MAX,
        lastmsg := lm', lastmsglen := 4 + length p, lastsending := clock w, retrycount := 0\<rparr>"
    and buf: "length buf' = TFTP_MSGLEN_MAX" "take (4 + length p) buf' = enc_data \<lparr>dt_blknum = blknum n + 1, dt_data = p\<rparr>"
    and lm': "length lm' = TFTP_MSGLEN_MAX" and st: "fstep None w0 w'" "dspath ads' = dspath (tads ins)"
    and out: "if length p = TFTP_DATALEN_MAX then ses_sends w0 (dspath (tads ins)) (m, ads', w') (drop TFTP_DATALEN_MAX out)
       else ses_closed (fsys w0) m ads' w'"
    using make_tftpdata_msg_ok [OF w0(2) l lm, folded p_def, unfolded next_blknum_add] by blast
  have fr: "same_id n m" using make_tftpdata_msg_frame [OF mk l] by simp
  let ?msg = "enc_data \<lparr>dt_blknum = blknum n + 1, dt_data = p\<rparr>"
  let ?si = "\<lparr>si_ses = Some a, si_msgbuf = buf', si_msglen = Some (4 + int (length p))\<rparr>"
  have lmsg: "length ?msg = 4 + length p" by (simp add: enc_data_def)
  have "says ?si ?msg" using saysI [of buf' ?msg "Some a"] buf lmsg by simp
  moreover have "proc_send_data a ins si w = Inr (True, ins\<lparr>sheap := (sheap ins)(a \<mapsto> m), tads := ads'\<rparr>, ?si, w')"
    using n mk by (simp add: proc_send_data_def proc_done_def Let_def)
  moreover have "moved_on ins w a m (ins\<lparr>sheap := (sheap ins)(a \<mapsto> m), tads := ads'\<rparr>) w'"
    using ses_sends_world [OF w0(2)] st(1) by (auto simp: moved_on_def fstep_def same_env_def)
  moreover have "length p = TFTP_DATALEN_MAX \<longleftrightarrow> TFTP_DATALEN_MAX \<le> length out" by (auto simp: p_def)
  moreover have "disabled m = disabled n" "blknum m = blknum n + 1" "length (lastmsg m) = TFTP_MSGLEN_MAX"
    "fin m \<longleftrightarrow> length p < TFTP_DATALEN_MAX" using m lm' f by simp_all
  moreover have "length p \<le> TFTP_DATALEN_MAX" by (simp add: p_def)
  ultimately show ?thesis
    using out w0(1) st(2) fr unfolding sending_def
    by (intro exI [of _ "ins\<lparr>sheap := (sheap ins)(a \<mapsto> m), tads := ads'\<rparr>"] exI [of _ ?si] exI [of _ w'] exI [of _ m])
      (auto split: if_splits)
qed

lemma proc_send_ack_ok:
  assumes n: "sheap ins a = Some n" and l: "length (si_msgbuf si) = TFTP_MSGLEN_MAX"
    and lm: "length (lastmsg n) = TFTP_MSGLEN_MAX"
  shows "\<exists>si' m. proc_send_ack a blk ins si w = Inr (True, ins\<lparr>sheap := (sheap ins)(a \<mapsto> m)\<rparr>, si', w) \<and>
    si_ses si' = Some a \<and> says si' (enc_ack \<lparr>ak_blknum = blk\<rparr>) \<and> same_id n m \<and> disabled m = disabled n \<and>
    fin m = fin n \<and> blknum m = blk \<and> sesbuf m = sesbuf n \<and> length (lastmsg m) = TFTP_MSGLEN_MAX"
proof -
  obtain lm' buf' where mk: "make_tftpack_msg n blk (si_msgbuf si) TFTP_MSGLEN_MAX w =
      Inr (4, n\<lparr>blknum := blk, lastmsg := lm', lastmsglen := 4, lastsending := clock w, retrycount := 0\<rparr>, buf')"
    and b: "length buf' = TFTP_MSGLEN_MAX" "take 4 buf' = enc_ack \<lparr>ak_blknum = blk\<rparr>" "length lm' = TFTP_MSGLEN_MAX"
    using make_tftpack_msg_ok [OF lm l] by blast
  let ?m = "n\<lparr>blknum := blk, lastmsg := lm', lastmsglen := 4, lastsending := clock w, retrycount := 0\<rparr>"
  let ?si = "\<lparr>si_ses = Some a, si_msgbuf = buf', si_msglen = Some 4\<rparr>"
  have "same_id n ?m" using make_tftpack_msg_frame [OF mk l] by simp
  moreover have "says ?si (enc_ack \<lparr>ak_blknum = blk\<rparr>)"
    using saysI [of buf' "enc_ack \<lparr>ak_blknum = blk\<rparr>" "Some a"] b by (simp add: enc_ack_def)
  moreover have "proc_send_ack a blk ins si w = Inr (True, ins\<lparr>sheap := (sheap ins)(a \<mapsto> ?m)\<rparr>, ?si, w)"
    using n mk by (simp add: proc_send_ack_def proc_done_def Let_def)
  ultimately show ?thesis using b(3)
    by (intro exI [of _ ?si] exI [of _ ?m]) simp
qed

section \<open>A client and its session\<close>

text \<open>\<open>speaks\<close>: the session \<open>n\<close> of the table belongs to the client \<open>from\<close> and has the socket \<open>s\<close>.
  \<open>talks\<close>: moreover the server is between two datagrams and no call fails.\<close>

definition speaks :: "iwtftp \<Rightarrow> nat list \<Rightarrow> nat \<Rightarrow> session \<Rightarrow> saddr \<Rightarrow> int \<Rightarrow> bool" where
  "speaks ins ps a n from s \<longleftrightarrow> tab_wf ins ps \<and> a \<in> set ps \<and> sheap ins a = Some n \<and> clip n = fst from \<and>
     clport n = snd from \<and> clsock n = s \<and> \<not> disabled n"

definition calm :: "service \<Rightarrow> bool" where
  "calm v \<longleftrightarrow> fault_free (v_world v) \<and> length (v_rbuf v) = NWBUF_SIZE \<and>
     length (si_msgbuf (v_si v)) = TFTP_MSGLEN_MAX"

definition talks :: "service \<Rightarrow> nat list \<Rightarrow> nat \<Rightarrow> session \<Rightarrow> saddr \<Rightarrow> int \<Rightarrow> bool" where
  "talks v ps a n from s \<longleftrightarrow> calm v \<and> speaks (v_ins v) ps a n from s \<and> map_of (socks (v_world v)) s \<noteq> None"

lemma speaks_session:
  assumes "speaks ins ps a n from s"
  shows "get_session ins (fst from) (snd from) = Inr (Some a)" "sheap ins a = Some n" "ses_inv n"
    "length (lastmsg n) = TFTP_MSGLEN_MAX"
proof -
  have w: "tab_wf ins ps" "a \<in> set ps" "sheap ins a = Some n" "clip n = fst from" "clport n = snd from"
    using assms by (simp_all add: speaks_def)
  then show "get_session ins (fst from) (snd from) = Inr (Some a)" "sheap ins a = Some n"
    using get_session_found [OF w(1,2,3)] by simp_all
  show "ses_inv n" using tab_wfD(5) [OF w(1,2)] w(3) by simp
  then show "length (lastmsg n) = TFTP_MSGLEN_MAX" by (simp add: ses_inv_def)
qed

lemma speaks_moved:
  assumes "speaks ins ps a n from s" and "moved_on ins w a m ins' w'" and "same_id n m" and "\<not> disabled m"
  shows "speaks ins' ps a m from s"
proof -
  have w: "tab_wf ins ps" "a \<in> set ps" "sheap ins a = Some n" using assms(1) by (simp_all add: speaks_def)
  have "tab_wf (ins\<lparr>sheap := (sheap ins)(a \<mapsto> m)\<rparr>) ps"
    using assms(3) speaks_session(3) [OF assms(1)]
    by (intro tab_wf_upd [OF w]) (auto simp: same_id_def ses_key_def)
  moreover obtain ads' where "ins' = ins\<lparr>sheap := (sheap ins)(a \<mapsto> m)\<rparr>\<lparr>tads := ads'\<rparr>"
    using assms(2) by (auto simp: moved_on_def)
  ultimately show ?thesis using assms(1,3,4) by (simp add: speaks_def same_id_def)
qed

lemma new_sock_moved:
  assumes "new_sock k f s ins0 ins" and "moved_on ins w a m ins' w'" and "sheap ins a = Some n" and "same_id n m"
  shows "new_sock k f s ins0 ins'"
proof -
  have e: "ses_key m = ses_key n" "filename m = filename n" "clsock m = clsock n"
    using assms(4) by (simp_all add: same_id_def ses_key_def)
  have "sheap ins' = (sheap ins)(a \<mapsto> m)" using assms(2) by (auto simp: moved_on_def)
  then have "\<exists>l. sheap ins b = Some l \<and> ses_key l = ses_key l' \<and> filename l = filename l' \<and> clsock l = clsock l'"
    if "sheap ins' b = Some l'" for b l' using that assms(3) e by (auto split: if_splits)
  with assms(1) show ?thesis unfolding new_sock_def by metis
qed

text \<open>One datagram: what the handler leaves is sent through the socket of the session.\<close>

lemma serve_dgram_reply:
  assumes v: "calm v" and ip: "length (fst from) < IPADDRLEN_MAX" and bs: "length bs \<le> NWBUF_SIZE"
    and r: "tftp_proc (v_ins v) fd (fst from) (snd from) (bs @ drop (length bs) (v_rbuf v)) (length bs) (v_si v)
      (received v) = Inr (True, ins', si', w')"
    and t: "speaks ins' ps' a m from s" "map_of (socks w') s \<noteq> None" and e: "same_env (received v) w'"
    and si: "si_ses si' = Some a" "says si' msg"
  shows "\<exists>v'. serve_dgram v (fd, from, bs) = Inr v' \<and> talks v' ps' a m from s \<and> v_ins v' = ins' \<and>
    sent (v_world v') = sent w' @ [\<lparr>dg_sock = s, dg_to = from, dg_bytes = msg\<rparr>] \<and>
    same_files w' (v_world v') \<and> same_env w' (v_world v') \<and> socks (v_world v') = socks w'"
proof -
  let ?v = "v\<lparr>v_rbuf := bs @ drop (length bs) (v_rbuf v), v_ins := ins', v_si := si', v_world := w'\<rparr>"
  let ?w = "w'\<lparr>tick := Suc (tick w'), sent := sent w' @ [\<lparr>dg_sock = s, dg_to = from, dg_bytes = msg\<rparr>]\<rparr>"
  have c: "fault_free (v_world v)" "length (v_rbuf v) = NWBUF_SIZE" using v by (simp_all add: calm_def)
  have ff: "fault_free w'" using same_env_fault_free [OF e] c(1) by simp
  have rs: "reply_socket fd ins' si' s" using t(1) si(1) by (auto simp: reply_socket_def speaks_def)
  have "\<exists>w''. send_reply fd from ?v = Inr (?v\<lparr>v_world := w''\<rparr>) \<and> w'' = (v_world ?v)\<lparr>tick := Suc (tick (v_world ?v)),
      sent := sent (v_world ?v) @ [\<lparr>dg_sock = s, dg_to = from, dg_bytes = msg\<rparr>]\<rparr>"
    by (rule send_reply_says) (use si(2) ff t(2) rs in simp_all)
  then have "serve_dgram v (fd, from, bs) = Inr (?v\<lparr>v_world := ?w\<rparr>)"
    by (simp add: serve_dgram_calls [OF c(1) ip bs c(2)] r)
  moreover have "talks (?v\<lparr>v_world := ?w\<rparr>) ps' a m from s"
    using t ff bs c(2) says_length [OF si(2)] by (simp add: talks_def calm_def)
  moreover have "same_files w' ?w" "same_env w' ?w" by (simp_all add: same_files_def same_env_def)
  ultimately show ?thesis by (intro exI [of _ "?v\<lparr>v_world := ?w\<rparr>"]) simp
qed

lemma serve_dgram_talks:
  assumes v: "talks v ps a n from s" and ip: "length (fst from) < IPADDRLEN_MAX" and bs: "length bs \<le> NWBUF_SIZE"
    and r: "tftp_proc (v_ins v) fd (fst from) (snd from) (bs @ drop (length bs) (v_rbuf v)) (length bs) (v_si v)
      (received v) = Inr (True, ins', si', w')"
    and m: "moved_on (v_ins v) (received v) a m ins' w'" "same_id n m" "\<not> disabled m"
    and si: "si_ses si' = Some a" "says si' msg"
  shows "\<exists>v'. serve_dgram v (fd, from, bs) = Inr v' \<and> talks v' ps a m from s \<and> v_ins v' = ins' \<and>
    sent (v_world v') = sent (v_world v) @ [\<lparr>dg_sock = s, dg_to = from, dg_bytes = msg\<rparr>] \<and>
    same_files w' (v_world v') \<and> same_env w' (v_world v') \<and> socks (v_world v') = socks (v_world v)"
proof -
  have t: "calm v" "speaks (v_ins v) ps a n from s" "map_of (socks (v_world v)) s \<noteq> None"
    using v by (simp_all add: talks_def)
  have w': "map_of (socks w') s \<noteq> None" "same_env (received v) w'" "sent w' = sent (v_world v)"
      "socks w' = socks (v_world v)"
    using m(1) t(3) by (simp_all add: moved_on_def)
  from serve_dgram_reply [OF t(1) ip bs r speaks_moved [OF t(2) m] w'(1,2) si] w'(3,4) show ?thesis by simp
qed

section \<open>An accepted request\<close>

text \<open>The data store has nothing open for a socket that is closed.\<close>

lemma closed_sock_stream:
  assumes "socks_ok ins w" and "ds_ok (tads ins) w qs" and "map_of (socks w) s = None" and "s \<noteq> IW_ERR"
    and "same_files w w'"
  shows "ds_stream (tads ins) w' qs s f = None"
  using assms ds_stream_entry [OF assms(2)] ds_stream_same_files [OF assms(5)] unfolding socks_ok_def by metis

lemma tftp_proc_new:
  assumes wf: "tab_wf ins ps" and new: "ses_view ins ps (ip, port) = None"
    and ip: "length ip < IPADDRLEN_MAX" and ff: "fault_free w" and ds: "ds_ok (tads ins) w qs"
    and nl: "socks_ok ins w" and q: "parse_tftpreq pkt plen = Inr (Some r)"
    and sk: "map_of (socks w) sock \<noteq> None" "distinct (map fst (socks w))"
    and ok: "rq_opcode r = OP_RRQ \<longleftrightarrow> regular_file ins w (rq_filename r)"
  shows "\<exists>a ins' w' ps' n s. tftp_proc ins sock ip port pkt plen si w =
      (if rq_opcode r = OP_RRQ then proc_send_data a ins' si w' else proc_send_ack a 0 ins' si w') \<and>
    speaks ins' ps' a n (ip, port) s \<and> fresh_session n (ip, port) s (rq_filename r) (rq_mode r) \<and>
    tads ins' = tads ins \<and> same_files w w' \<and> same_env w w' \<and> sent w' = sent w \<and>
    map_of (socks w) s = None \<and> map_of (socks w') s \<noteq> None \<and>
    ds_stream (tads ins) w' qs s (rq_filename r) = None \<and> new_sock (ip, port) (rq_filename r) s ins ins'"
proof -
  have g: "get_session ins ip port = Inr None"
    using wf by (cases rule: get_session_cases [where ip = ip and port = port]) (use new in auto)
  obtain rest where rq: "req_wf r" "pkt = enc_req r @ rest" using wreq.parse_sound [OF q] by blast
  have o: "ntohs_at pkt 0 = Inr (rq_opcode r)" unfolding rq(2) enc_req_def append_assoc by (rule ntohs_hd)
  let ?f = "rq_filename r" and ?w = "w\<lparr>tick := Suc (tick w)\<rparr>"
  have f: "is_cstring ?f" "length ?f < TFTP_FILENAME_MAX" "is_netascii (rq_mode r) \<or> is_octet (rq_mode r)"
    and op: "rq_opcode r = OP_RRQ \<or> rq_opcode r = OP_WRQ"
    using rq(1) by (auto simp: req_wf_def is_netascii_def is_octet_def)
  have isf: "iwds_isfile (tads ins) ?f w = Inr (if regular_file ins w ?f then IW_True else IW_False, ?w)"
    using is_dsfile_ok [OF ds_okD(5,6) [OF ds] f(1), of w] ff
    by (auto simp: iwds_isfile_def fault_free_def file_kind_def regular_file_def split: option.splits fnode.splits)
  obtain a ins' w' ps' n s where
    add: "add_newsession ins sock ip port ?f (rq_mode r) ?w = Inr (Some a, ins', w')"
    and t: "tab_wf ins' ps'" "a \<in> set ps'" "sheap ins' a = Some n" "fresh_session n (ip, port) s ?f (rq_mode r)"
    and w: "tads ins' = tads ins" "same_files ?w w'" "same_env ?w w'" "sent w' = sent ?w"
      "map_of (socks ?w) s = None" "map_of (socks w') s \<noteq> None" "new_sock (ip, port) ?f s ins ins'"
    using add_newsession_ok [OF wf new ip f, of ?w sock] ff sk by auto
  have "tftp_proc ins sock ip port pkt plen si w =
      (if rq_opcode r = OP_RRQ then proc_send_data a ins' si w' else proc_send_ack a 0 ins' si w')"
    using op ok q isf add by (auto simp: tftp_proc_op [OF o g] proc_request_def)
  moreover have "speaks ins' ps' a n (ip, port) s"
    using t fresh_sessionD [OF t(4)] by (simp add: speaks_def)
  moreover have "same_files w w'" "same_env w w'"
    using w(2,3) by (simp_all add: same_files_def same_env_def)
  moreover have "sent w' = sent w" "map_of (socks w) s = None" using w(4,5) by simp_all
  moreover from this(2) have "ds_stream (tads ins) w' qs s ?f = None"
    using closed_sock_stream [OF nl ds, of s w' ?f] w(2,7) by (simp add: new_sock_def same_files_def)
  ultimately show ?thesis using t(4) w(1,6,7) by blast
qed

section \<open>Sending a file\<close>

lemma sending_start:
  assumes n: "fresh_session n from s f md" and "fault_free w" and "ds_ok ads w qs"
    and "ds_stream ads w qs s f = None" and "is_cstring f"
    and "fsys w (canon w (joined (dspath ads) f)) = Some (Regular c)"
  shows "sending (fsys w) n ads w (wire_of (mode_of md) c)"
proof -
  note n = fresh_sessionD [OF n]
  have "ds_reads w (dspath ads) s f (ads, w) c" by (rule ds_reads_start [OF assms(2-6)])
  moreover have "sb_ok empty_storage" "fopt_ok m empty_storage" "sb_pend m empty_storage = []" for m
    by (simp_all add: sb_ok_def fopt_ok_def sb_pend_def empty_storage_def sb_bytes_def)
  ultimately show ?thesis
    using n unfolding sending_def ses_sends_def by (intro exI [of _ w]) auto
qed

text \<open>The state after the block \<open>b\<close> has been sent; \<open>rest\<close> is what is still to be sent, \<open>None\<close> after
  the last, short block.\<close>

definition fetching ::
    "(string \<Rightarrow> fnode option) \<Rightarrow> service \<Rightarrow> saddr \<Rightarrow> int \<Rightarrow> u16 \<Rightarrow> bytes option \<Rightarrow> bool" where
  "fetching F v from s b rest \<longleftrightarrow> (\<exists>ps a n. talks v ps a n from s \<and> blknum n = b \<and>
     (case rest of Some out \<Rightarrow> \<not> fin n \<and> sending F n (tads (v_ins v)) (v_world v) out
      | None \<Rightarrow> fin n \<and> ses_closed F n (tads (v_ins v)) (v_world v)))"

definition after_block :: "bytes \<Rightarrow> bytes option" where
  "after_block out = (if TFTP_DATALEN_MAX \<le> length out then Some (drop TFTP_DATALEN_MAX out) else None)"

lemma fetching_after:
  assumes "talks v ps a m from s" and "blknum m = b"
    and "if TFTP_DATALEN_MAX \<le> length out then \<not> fin m \<and> sending F m (tads (v_ins v)) w (drop TFTP_DATALEN_MAX out)
       else fin m \<and> ses_closed F m (tads (v_ins v)) w"
    and "same_files w (v_world v)" and "same_env w (v_world v)"
  shows "fetching F v from s b (after_block out)"
  using assms sending_moved [of F m _ w _ "v_world v"] closed_moved [of F m _ w "v_world v"]
  unfolding fetching_def after_block_def
  by (intro exI [of _ ps] exI [of _ a] exI [of _ m]) (auto split: if_splits)

lemma serve_rrq:
  assumes v: "calm v" and wf: "tab_wf (v_ins v) ps" and new: "ses_view (v_ins v) ps from = None"
    and ip: "length (fst from) < IPADDRLEN_MAX"
    and ds: "ds_ok (tads (v_ins v)) (v_world v) qs" and nl: "socks_ok (v_ins v) (v_world v)"
    and r: "req_wf r" "10 \<le> length (enc_req r)" "rq_opcode r = OP_RRQ"
    and sk: "map_of (socks (v_world v)) fd \<noteq> None" "distinct (map fst (socks (v_world v)))"
    and c: "fsys (v_world v) (canon (v_world v) (joined (dspath (tads (v_ins v))) (rq_filename r))) = Some (Regular c)"
  defines "out \<equiv> wire_of (mode_of (rq_mode r)) c"
  shows "\<exists>v' s. serve_dgram v (fd, from, enc_req r) = Inr v' \<and>
    fetching (fsys (v_world v)) v' from s 1 (after_block out) \<and> map_of (socks (v_world v)) s = None \<and>
    new_sock from (rq_filename r) s (v_ins v) (v_ins v') \<and> sent (v_world v') = sent (v_world v) @
      [\<lparr>dg_sock = s, dg_to = from, dg_bytes = enc_data \<lparr>dt_blknum = 1, dt_data = take TFTP_DATALEN_MAX out\<rparr>\<rparr>]"
proof -
  let ?w = "received v" and ?ins = "v_ins v" and ?pkt = "enc_req r @ drop (length (enc_req r)) (v_rbuf v)"
  have vc: "fault_free ?w" "length (v_rbuf v) = NWBUF_SIZE" "length (si_msgbuf (v_si v)) = TFTP_MSGLEN_MAX"
    using v by (simp_all add: calm_def)
  have f: "is_cstring (rq_filename r)" using r(1) by (simp add: req_wf_def)
  have len: "length (enc_req r) \<le> NWBUF_SIZE" using r(1) by (auto simp: req_wf_def enc_req_def)
  have q: "parse_tftpreq ?pkt (length (enc_req r)) = Inr (Some r)" by (rule wreq.parse_enc [OF r(1,2)])
  have ds': "ds_ok (tads ?ins) ?w qs" "socks_ok ?ins ?w" using ds nl by simp_all
  have sk': "map_of (socks ?w) fd \<noteq> None" "distinct (map fst (socks ?w))" using sk by simp_all
  have new': "ses_view ?ins ps (fst from, snd from) = None" using new by simp
  have reg: "regular_file ?ins ?w (rq_filename r)" using c by (simp add: regular_file_def)
  have ops: "rq_opcode r = OP_RRQ \<longleftrightarrow> regular_file ?ins ?w (rq_filename r)" using r(3) reg by simp
  obtain a ins1 w1 ps1 n s where
    p: "tftp_proc ?ins fd (fst from) (snd from) ?pkt (length (enc_req r)) (v_si v) ?w = proc_send_data a ins1 (v_si v) w1"
    and n: "speaks ins1 ps1 a n from s" "fresh_session n from s (rq_filename r) (rq_mode r)"
    and w1: "tads ins1 = tads ?ins" "same_files ?w w1" "same_env ?w w1" "sent w1 = sent ?w"
      "map_of (socks ?w) s = None" "map_of (socks w1) s \<noteq> None" "ds_stream (tads ?ins) w1 qs s (rq_filename r) = None"
      "new_sock from (rq_filename r) s ?ins ins1"
    using tftp_proc_new [where si = "v_si v", OF wf new' ip vc(1) ds' q sk' ops, unfolded prod.collapse r(3) simp_thms(6) if_True]
    by blast
  have snd: "sending (fsys (v_world v)) n (tads ins1) w1 out"
  proof -
    have "fsys w1 = fsys (v_world v)" "canon w1 = canon (v_world v)"
      using w1(2,3) by (simp_all add: same_files_def same_env_def)
    moreover have "fault_free w1" using same_env_fault_free [OF w1(3) vc(1)] .
    ultimately show ?thesis
      using sending_start [OF n(2) _ ds_ok_same_files [OF ds'(1) w1(2)] w1(7) f, of c] c w1(1) by (simp add: out_def)
  qed
  note n' = fresh_sessionD [OF n(2)] and sp = speaks_session [OF n(1)]
  obtain ins' si' w' m where
    d: "proc_send_data a ins1 (v_si v) w1 = Inr (True, ins', si', w')" "si_ses si' = Some a"
      "says si' (enc_data \<lparr>dt_blknum = 1, dt_data = take TFTP_DATALEN_MAX out\<rparr>)"
    and m: "moved_on ins1 w1 a m ins' w'" "same_id n m" "\<not> disabled m" "blknum m = 1"
    and rest: "if TFTP_DATALEN_MAX \<le> length out then \<not> fin m \<and> sending (fsys (v_world v)) m (tads ins') w' (drop TFTP_DATALEN_MAX out)
     else fin m \<and> ses_closed (fsys (v_world v)) m (tads ins') w'"
    using proc_send_data_ok [OF sp(2) vc(3) sp(4) snd n'(8)] n'(7,9) by auto
  have w': "map_of (socks w') s \<noteq> None" "same_env ?w w'" "sent w' = sent (v_world v)"
    using m(1) w1(3,4,6) by (auto simp: moved_on_def intro: same_env_trans)
  obtain v' where v': "serve_dgram v (fd, from, enc_req r) = Inr v'" "talks v' ps1 a m from s" "v_ins v' = ins'"
      "sent (v_world v') = sent w' @ [\<lparr>dg_sock = s, dg_to = from,
         dg_bytes = enc_data \<lparr>dt_blknum = 1, dt_data = take TFTP_DATALEN_MAX out\<rparr>\<rparr>]"
      "same_files w' (v_world v')" "same_env w' (v_world v')"
    using serve_dgram_reply [OF v ip len p [unfolded d(1)] speaks_moved [OF n(1) m(1,2,3)] w'(1,2) d(2,3)] by blast
  have "fetching (fsys (v_world v)) v' from s 1 (after_block out)"
    by (rule fetching_after [OF v'(2) m(4) _ v'(5,6)]) (use rest v'(3) in simp)
  moreover have "new_sock from (rq_filename r) s ?ins (v_ins v')"
    using new_sock_moved [OF w1(8) m(1) sp(2) m(2)] v'(3) by simp
  ultimately show ?thesis using v' w'(3) w1(5) by auto
qed

lemma ack_op: "ntohs_at (enc_ack k @ t) 0 = Inr OP_ACK"
  unfolding enc_ack_def append_assoc by (rule ntohs_hd)

lemma length_enc_ack [simp]: "length (enc_ack k) = 4"
  by (simp add: enc_ack_def)

lemma parse_enc_ack: "parse_tftpack (enc_ack k @ t) 4 = Inr (Some k)"
  using wack.parse_enc [of k t] by simp

text \<open>The handler on an ACK of the current block.\<close>

lemma tftp_proc_ack:
  assumes "speaks ins ps a n from s" and "blknum n = b"
  shows "tftp_proc ins sock (fst from) (snd from) (enc_ack \<lparr>ak_blknum = b\<rparr> @ t) 4 si w =
    (if fin n then proc_done (Some a) (ins\<lparr>sheap := (sheap ins)(a \<mapsto> n\<lparr>disabled := True\<rparr>)\<rparr>) si w
     else proc_send_data a ins si w)"
  using speaks_session(2) [OF assms(1)] assms(2)
  by (simp add: tftp_proc_op [OF ack_op speaks_session(1) [OF assms(1)]] proc_ack_def parse_enc_ack)

lemma serve_ack:
  assumes "fetching F v from s b (Some out)" and ip: "length (fst from) < IPADDRLEN_MAX"
  shows "\<exists>v'. serve_dgram v (fd, from, enc_ack \<lparr>ak_blknum = b\<rparr>) = Inr v' \<and>
    fetching F v' from s (b + 1) (after_block out) \<and>
    sent (v_world v') = sent (v_world v) @
      [\<lparr>dg_sock = s, dg_to = from, dg_bytes = enc_data \<lparr>dt_blknum = b + 1, dt_data = take TFTP_DATALEN_MAX out\<rparr>\<rparr>]"
proof -
  from assms(1) obtain ps a n where t: "talks v ps a n from s" and n: "blknum n = b" "\<not> fin n"
      and snd: "sending F n (tads (v_ins v)) (v_world v) out"
    unfolding fetching_def by auto
  have sp: "speaks (v_ins v) ps a n from s" and l: "length (si_msgbuf (v_si v)) = TFTP_MSGLEN_MAX"
    and d: "\<not> disabled n"
    using t by (simp_all add: talks_def calm_def speaks_def)
  have snd': "sending F n (tads (v_ins v)) (received v) out"
    by (rule sending_moved [OF snd]) (simp_all add: same_files_def same_env_def)
  obtain ins' si' w' m where
    r: "proc_send_data a (v_ins v) (v_si v) (received v) = Inr (True, ins', si', w')"
    and si: "si_ses si' = Some a" "says si' (enc_data \<lparr>dt_blknum = b + 1, dt_data = take TFTP_DATALEN_MAX out\<rparr>)"
    and m: "moved_on (v_ins v) (received v) a m ins' w'" "same_id n m" "\<not> disabled m" "blknum m = b + 1"
    and rest: "if TFTP_DATALEN_MAX \<le> length out then \<not> fin m \<and> sending F m (tads ins') w' (drop TFTP_DATALEN_MAX out)
     else fin m \<and> ses_closed F m (tads ins') w'"
    using proc_send_data_ok [OF speaks_session(2) [OF sp] l speaks_session(4) [OF sp] snd' n(2)] n(1) d by auto
  have p: "tftp_proc (v_ins v) fd (fst from) (snd from)
      (enc_ack \<lparr>ak_blknum = b\<rparr> @ drop (length (enc_ack \<lparr>ak_blknum = b\<rparr>)) (v_rbuf v))
      (length (enc_ack \<lparr>ak_blknum = b\<rparr>)) (v_si v) (received v) = Inr (True, ins', si', w')"
    unfolding length_enc_ack tftp_proc_ack [OF sp n(1)] using n(2) r by simp
  have len: "length (enc_ack \<lparr>ak_blknum = b\<rparr>) \<le> NWBUF_SIZE" by simp
  obtain v' where v': "serve_dgram v (fd, from, enc_ack \<lparr>ak_blknum = b\<rparr>) = Inr v'" "talks v' ps a m from s"
      "v_ins v' = ins'" "sent (v_world v') = sent (v_world v) @ [\<lparr>dg_sock = s, dg_to = from,
         dg_bytes = enc_data \<lparr>dt_blknum = b + 1, dt_data = take TFTP_DATALEN_MAX out\<rparr>\<rparr>]"
      "same_files w' (v_world v')" "same_env w' (v_world v')"
    using serve_dgram_talks [OF t ip len p m(1,2,3) si] by blast
  have "fetching F v' from s (b + 1) (after_block out)"
    by (rule fetching_after [OF v'(2) m(4) _ v'(5,6)]) (use rest v'(3) in simp)
  with v' show ?thesis by blast
qed

text \<open>The ACK of the last block ends the session; it is not answered.\<close>

lemma serve_last_ack:
  assumes "fetching F v from s b None" and ip: "length (fst from) < IPADDRLEN_MAX"
  shows "\<exists>v'. serve_dgram v (fd, from, enc_ack \<lparr>ak_blknum = b\<rparr>) = Inr v' \<and>
    sent (v_world v') = sent (v_world v) \<and> fsys (v_world v') = F \<and>
    (\<exists>a n. get_session (v_ins v') (fst from) (snd from) = Inr (Some a) \<and> sheap (v_ins v') a = Some n \<and> disabled n)"
proof -
  from assms(1) obtain ps a n where t: "talks v ps a n from s" and n: "blknum n = b" "fin n"
      and cl: "ses_closed F n (tads (v_ins v)) (v_world v)"
    unfolding fetching_def by auto
  have sp: "speaks (v_ins v) ps a n from s" and c: "fault_free (v_world v)" "length (v_rbuf v) = NWBUF_SIZE"
    using t by (simp_all add: talks_def calm_def)
  let ?m = "n\<lparr>disabled := True\<rparr>"
  let ?ins = "(v_ins v)\<lparr>sheap := (sheap (v_ins v))(a \<mapsto> ?m)\<rparr>"
  let ?buf = "enc_ack \<lparr>ak_blknum = b\<rparr> @ drop 4 (v_rbuf v)"
  let ?v = "v\<lparr>v_rbuf := ?buf, v_ins := ?ins, v_si := (v_si v)\<lparr>si_ses := Some a\<rparr>, v_world := received v\<rparr>"
  have len: "length (enc_ack \<lparr>ak_blknum = b\<rparr>) \<le> NWBUF_SIZE" by simp
  have "tftp_proc (v_ins v) fd (fst from) (snd from) ?buf 4 (v_si v) (received v) =
      Inr (True, ?ins, (v_si v)\<lparr>si_ses := Some a\<rparr>, received v)"
    unfolding tftp_proc_ack [OF sp n(1)] using n(2) by (simp add: proc_done_def)
  then have "serve_dgram v (fd, from, enc_ack \<lparr>ak_blknum = b\<rparr>) = Inr ?v"
    by (simp add: serve_dgram_calls [OF c(1) ip len c(2)] send_reply_def)
  moreover have "tab_wf ?ins ps"
    using sp speaks_session(2,3) [OF sp]
    by (intro tab_wf_upd [where n = n]) (auto simp: speaks_def ses_key_def ses_inv_def)
  then have "get_session ?ins (fst from) (snd from) = Inr (Some a)"
    using sp get_session_found [of ?ins ps a ?m] by (simp add: speaks_def)
  ultimately show ?thesis
    using cl by (intro exI [of _ ?v]) (simp add: ses_closed_def)
qed

section \<open>The download\<close>

text \<open>The DATA datagrams of the blocks \<open>ps\<close>, numbered from \<open>b\<close> on, and the ACK datagrams a client
  sends for \<open>k\<close> blocks.\<close>

fun data_dgrams :: "int \<Rightarrow> saddr \<Rightarrow> u16 \<Rightarrow> bytes list \<Rightarrow> dgram list" where
  "data_dgrams s from b [] = []"
| "data_dgrams s from b (p # ps) =
     \<lparr>dg_sock = s, dg_to = from, dg_bytes = enc_data \<lparr>dt_blknum = b, dt_data = p\<rparr>\<rparr> # data_dgrams s from (b + 1) ps"

fun ack_arrivals :: "int \<Rightarrow> saddr \<Rightarrow> u16 \<Rightarrow> nat \<Rightarrow> arrival list" where
  "ack_arrivals fd from b 0 = []"
| "ack_arrivals fd from b (Suc k) = (fd, from, enc_ack \<lparr>ak_blknum = b\<rparr>) # ack_arrivals fd from (b + 1) k"

definition session_over :: "service \<Rightarrow> saddr \<Rightarrow> bool" where
  "session_over v from \<longleftrightarrow>
     (\<exists>a n. get_session (v_ins v) (fst from) (snd from) = Inr (Some a) \<and> sheap (v_ins v) a = Some n \<and> disabled n)"

lemma serve_acks:
  assumes "fetching F v from s b (after_block out)" and "length (fst from) < IPADDRLEN_MAX"
  shows "\<exists>v'. serve_all v (ack_arrivals fd from b (length out div TFTP_DATALEN_MAX + 1)) = Inr v' \<and>
    sent (v_world v') = sent (v_world v) @
      data_dgrams s from (b + 1) (tl (blocks_of TFTP_DATALEN_MAX (length out div TFTP_DATALEN_MAX + 1) out)) \<and>
    fsys (v_world v') = F \<and> session_over v' from"
  using assms(1)
proof (induction out arbitrary: v b rule: measure_induct_rule [of length])
  case (less out)
  show ?case
  proof (cases "TFTP_DATALEN_MAX \<le> length out")
    case False
    then have "fetching F v from s b None" "length out div TFTP_DATALEN_MAX = 0"
      using less.prems by (simp_all add: after_block_def)
    with serve_last_ack [OF this(1) assms(2), of fd] show ?thesis by (auto simp: session_over_def)
  next
    case True
    let ?o = "drop TFTP_DATALEN_MAX out"
    have k: "length out div TFTP_DATALEN_MAX = Suc (length ?o div TFTP_DATALEN_MAX)"
      using True by (simp add: le_div_geq)
    have "fetching F v from s b (Some ?o)" using less.prems True by (simp add: after_block_def)
    from serve_ack [OF this assms(2), of fd] obtain v1 where
      v1: "serve_dgram v (fd, from, enc_ack \<lparr>ak_blknum = b\<rparr>) = Inr v1" "fetching F v1 from s (b + 1) (after_block ?o)"
        "sent (v_world v1) = sent (v_world v) @
          [\<lparr>dg_sock = s, dg_to = from, dg_bytes = enc_data \<lparr>dt_blknum = b + 1, dt_data = take TFTP_DATALEN_MAX ?o\<rparr>\<rparr>]"
      by blast
    have "length ?o < length out" using True by simp
    from less.IH [OF this v1(2)] obtain v2 where
      v2: "serve_all v1 (ack_arrivals fd from (b + 1) (length ?o div TFTP_DATALEN_MAX + 1)) = Inr v2"
        "sent (v_world v2) = sent (v_world v1) @
          data_dgrams s from (b + 1 + 1) (tl (blocks_of TFTP_DATALEN_MAX (length ?o div TFTP_DATALEN_MAX + 1) ?o))"
        "fsys (v_world v2) = F" "session_over v2 from"
      by blast
    show ?thesis unfolding k using v1 v2 by simp
  qed
qed

text \<open>The premises of a transfer: in a reachable state without failing calls, the request of a client
  that has no session arrives at an open socket, and it parses.\<close>

definition may_request :: "service \<Rightarrow> int \<Rightarrow> saddr \<Rightarrow> tftpreq \<Rightarrow> bool" where
  "may_request v fd from r \<longleftrightarrow> reachable v \<and> fault_free (v_world v) \<and>
     get_session (v_ins v) (fst from) (snd from) = Inr None \<and> length (fst from) < IPADDRLEN_MAX \<and>
     map_of (socks (v_world v)) fd \<noteq> None \<and> req_wf r \<and> 10 \<le> length (enc_req r)"

lemma may_requestE:
  assumes "may_request v fd from r"
  obtains ps qs where "calm v" "tab_wf (v_ins v) ps" "ses_view (v_ins v) ps from = None"
      "ds_ok (tads (v_ins v)) (v_world v) qs" "socks_ok (v_ins v) (v_world v)"
      "length (fst from) < IPADDRLEN_MAX" "req_wf r" "10 \<le> length (enc_req r)"
      "map_of (socks (v_world v)) fd \<noteq> None" "distinct (map fst (socks (v_world v)))"
proof -
  have r: "reachable v" "fault_free (v_world v)" "get_session (v_ins v) (fst from) (snd from) = Inr None"
      "length (fst from) < IPADDRLEN_MAX" "map_of (socks (v_world v)) fd \<noteq> None" "req_wf r" "10 \<le> length (enc_req r)"
    using assms by (simp_all add: may_request_def)
  have i: "svc_inv v" by (rule reachable_inv [OF r(1)])
  then obtain ps qs where ps: "tab_wf (v_ins v) ps" "ds_ok (tads (v_ins v)) (v_world v) qs" unfolding svc_inv_def by blast
  have "ses_view (v_ins v) ps from = None"
    by (cases rule: get_session_cases [OF ps(1), where ip = "fst from" and port = "snd from"]) (use r(3) in auto)
  moreover have "calm v" "distinct (map fst (socks (v_world v)))" using i r(2) by (simp_all add: svc_inv_def calm_def)
  ultimately show thesis using that [OF _ ps(1) _ ps(2) reachable_socks [OF r(1)]] r by blast
qed

abbreviation file_of :: "service \<Rightarrow> tftpreq \<Rightarrow> string" where
  "file_of v r \<equiv> canon (v_world v) (joined (dspath (tads (v_ins v))) (rq_filename r))"

text \<open>C1: a download. In any state the server can reach, without failing calls, a client that has
  no session, requests a regular file and acknowledges each block gets the file: the server sends, through one new socket, the
  blocks of the file in the form of the transfer mode, all of 512 bytes but the last, which is
  shorter, numbered from 1 on modulo 65536; afterwards the session is disabled, and no file has
  changed.\<close>

theorem download_delivers_file:
  assumes "may_request v fd from r" and "rq_opcode r = OP_RRQ"
    and "fsys (v_world v) (file_of v r) = Some (Regular c)"
  shows "\<exists>v' s bss. serve_all v ((fd, from, enc_req r) #
        ack_arrivals s from 1 (length (wire_of (mode_of (rq_mode r)) c) div TFTP_DATALEN_MAX + 1)) = Inr v' \<and>
    sent (v_world v') = sent (v_world v) @ data_dgrams s from 1 bss \<and> map_of (socks (v_world v)) s = None \<and>
    concat bss = wire_of (mode_of (rq_mode r)) c \<and>
    (\<forall>i < length bss - 1. length (bss ! i) = TFTP_DATALEN_MAX) \<and> bss \<noteq> [] \<and> length (last bss) < TFTP_DATALEN_MAX \<and>
    fsys (v_world v') = fsys (v_world v) \<and> session_over v' from"
proof -
  let ?out = "wire_of (mode_of (rq_mode r)) c" and ?F = "fsys (v_world v)"
  let ?bss = "blocks_of TFTP_DATALEN_MAX (length ?out div TFTP_DATALEN_MAX + 1) ?out"
  from assms(1) obtain ps qs where a: "calm v" "tab_wf (v_ins v) ps" "ses_view (v_ins v) ps from = None"
      "ds_ok (tads (v_ins v)) (v_world v) qs" "socks_ok (v_ins v) (v_world v)"
      "length (fst from) < IPADDRLEN_MAX" "req_wf r" "10 \<le> length (enc_req r)"
      "map_of (socks (v_world v)) fd \<noteq> None" "distinct (map fst (socks (v_world v)))"
    by (rule may_requestE)
  obtain v1 s where v1: "serve_dgram v (fd, from, enc_req r) = Inr v1" "fetching ?F v1 from s 1 (after_block ?out)"
      "map_of (socks (v_world v)) s = None" "sent (v_world v1) = sent (v_world v) @
      [\<lparr>dg_sock = s, dg_to = from, dg_bytes = enc_data \<lparr>dt_blknum = 1, dt_data = take TFTP_DATALEN_MAX ?out\<rparr>\<rparr>]"
    using serve_rrq [OF a(1,2,3,6,4,5,7,8) assms(2) a(9,10) assms(3)] by blast
  obtain v2 where v2: "serve_all v1 (ack_arrivals s from 1 (length ?out div TFTP_DATALEN_MAX + 1)) = Inr v2"
      "sent (v_world v2) = sent (v_world v1) @ data_dgrams s from (1 + 1) (tl ?bss)"
      "fsys (v_world v2) = ?F" "session_over v2 from"
    using serve_acks [OF v1(2) a(6)] by blast
  have "sent (v_world v2) = sent (v_world v) @ data_dgrams s from 1 ?bss" using v1(4) v2(2) by simp
  moreover have "concat ?bss = ?out" "length (last ?bss) < TFTP_DATALEN_MAX"
    "\<forall>i < length ?bss - 1. length (?bss ! i) = TFTP_DATALEN_MAX"
    using blocks_of_transfer [where n = TFTP_DATALEN_MAX and bs = ?out] by (simp_all del: blocks_of.simps)
  moreover have "?bss \<noteq> []" by simp
  ultimately show ?thesis using v1(1,3) v2 by (intro exI [of _ v2] exI [of _ s] exI [of _ ?bss]) simp
qed

text \<open>The server \<open>demo_svc\<close> with the file \<open>f\<close>.\<close>

definition demo_files :: "(string \<times> bytes) list \<Rightarrow> service" where
  "demo_files fs = (demo_svc demo_idle)\<lparr>v_world := demo_world fs\<rparr>"

lemma demo_may_request:
  "may_request (demo_files fs) 3 (''10.0.0.9'', 1000)
     \<lparr>rq_opcode = op, rq_filename = ''f'', rq_mode = md\<rparr> \<longleftrightarrow> op \<in> {OP_RRQ, OP_WRQ} \<and> md \<in> {''netascii'', ''octet''}"
proof -
  have "reachable (demo_files fs)"
    by (rule reachable.start) (auto simp: demo_files_def svc_start_def intro: exI [of _ "[]"])
  moreover have "get_session demo_idle ip port = Inr None" for ip port by (simp add: get_session_def)
  ultimately show ?thesis
    by (auto simp: may_request_def demo_files_def req_wf_def enc_req_def is_cstring_def)
qed

theorem download_delivers_file_witness:
  "\<exists>v' s. serve_all (demo_files [(''/d/f'', ''abc'')]) [(3, (''10.0.0.9'', 1000),
        enc_req \<lparr>rq_opcode = OP_RRQ, rq_filename = ''f'', rq_mode = ''octet''\<rparr>),
        (s, (''10.0.0.9'', 1000), enc_ack \<lparr>ak_blknum = 1\<rparr>)] = Inr v' \<and>
    sent (v_world v') = [\<lparr>dg_sock = s, dg_to = (''10.0.0.9'', 1000),
      dg_bytes = enc_data \<lparr>dt_blknum = 1, dt_data = ''abc''\<rparr>\<rparr>]"
proof -
  let ?r = "\<lparr>rq_opcode = OP_RRQ, rq_filename = ''f'', rq_mode = ''octet''\<rparr>"
  have m: "wire_of (mode_of ''octet'') x = x" for x by (simp add: mode_of_def is_netascii_def wire_of_def)
  obtain v' s bss where v': "serve_all (demo_files [(''/d/f'', ''abc'')]) ((3, (''10.0.0.9'', 1000), enc_req ?r) #
        ack_arrivals s (''10.0.0.9'', 1000) 1 1) = Inr v'"
      "sent (v_world v') = data_dgrams s (''10.0.0.9'', 1000) 1 bss" "concat bss = ''abc''"
      "\<forall>i < length bss - 1. length (bss ! i) = TFTP_DATALEN_MAX" "bss \<noteq> []"
    using download_delivers_file [of "demo_files [(''/d/f'', ''abc'')]" 3 "(''10.0.0.9'', 1000)" ?r "''abc''"]
      demo_may_request [of "[(''/d/f'', ''abc'')]" OP_RRQ "''octet''"]
    by (auto simp: m demo_files_def simp del: serve_all.simps ack_arrivals.simps data_dgrams.simps)
  obtain b bs where b: "bss = b # bs" using v'(5) by (cases bss) auto
  have "bs = []"
  proof (rule ccontr)
    assume "bs \<noteq> []"
    then have "length b = TFTP_DATALEN_MAX" using v'(4) b by (auto dest: spec [of _ 0])
    moreover have "length b \<le> length (concat bss)" by (simp add: b)
    ultimately show False using v'(3) by simp
  qed
  with v' b show ?thesis by (intro exI [of _ v'] exI [of _ s]) simp
qed

end
