(* ===== verification/Tftp_Upload.thy ===== *)
theory Tftp_Upload
  imports Tftp_Transfer
begin

text \<open>
  An upload as the client sees it: the write request, the DATA datagrams, the acknowledgements
  and the file that results. And what happens to DATA and ACK datagrams in a session of the
  other direction.
\<close>

section \<open>Receiving a file\<close>

lemma receiving_start:
  assumes n: "fresh_session n from s f md" and "fault_free w" and "ds_ok ads w qs"
    and "ds_stream ads w qs s f = None" and "is_cstring f"
    and "fsys w (canon w (joined (dspath ads) f)) = None"
  shows "receiving (fsys w) n ads w []"
proof -
  note n = fresh_sessionD [OF n]
  have "ds_writes w (dspath ads) s f (ads, w) []" by (rule ds_writes_start [OF assms(2-6)])
  moreover have "sb_in empty_storage" "sb_got empty_storage = []"
    by (simp_all add: sb_in_def sb_got_def empty_storage_def)
  ultimately show ?thesis
    using n unfolding receiving_def ses_stores_def by (intro exI [of _ w]) auto
qed

lemma receiving_cong:
  "\<lbrakk>receiving F n ads w c; sesbuf m = sesbuf n; clsock m = clsock n; filename m = filename n\<rbrakk> \<Longrightarrow>
   receiving F m ads w c"
  by (simp add: receiving_def ses_stores_def)

lemma ses_stores_world: "ses_stores w0 dir (n, ads, w) c \<Longrightarrow> fstep None w0 w \<and> dspath ads = dir"
  by (auto simp: ses_stores_def ds_writes_def)

lemma fstep_between:
  "\<lbrakk>fstep None w0 w; fstep None w0 w'\<rbrakk> \<Longrightarrow> same_env w w' \<and> socks w' = socks w \<and> sent w' = sent w"
  by (simp add: fstep_def same_env_def)

lemma heap_tads_upd: "ins\<lparr>tads := x, sheap := h\<rparr> = ins\<lparr>sheap := h, tads := x\<rparr>"
  by (cases ins) simp

text \<open>The handler on a DATA datagram with the next block: a full block is kept and acknowledged.\<close>

lemma proc_store_more:
  assumes n: "sheap ins a = Some n" and l: "length (si_msgbuf si) = TFTP_MSGLEN_MAX" and inv: "ses_inv n"
    and s: "receiving F n (tads ins) w c" and f: "\<not> fin n" "sb_datalen (sesbuf n) < SESSION_BUFSIZE"
  shows "\<exists>ins' si' w' m. proc_store a n dat ins si w = Inr (True, ins', si', w') \<and> si_ses si' = Some a \<and>
    says si' (enc_ack \<lparr>ak_blknum = dt_blknum dat\<rparr>) \<and> moved_on ins w a m ins' w' \<and> same_id n m \<and>
    disabled m = disabled n \<and> blknum m = dt_blknum dat \<and> \<not> fin m \<and> sb_datalen (sesbuf m) < SESSION_BUFSIZE \<and>
    dspath (tads ins') = dspath (tads ins) \<and>
    receiving F m (tads ins') w' (c @ local_of (tftpmode n) (dt_data dat))"
proof -
  let ?src = "dt_data dat"
  obtain w0 where w0: "fsys w0 = F" "canon w0 = canon w" "ses_stores w0 (dspath (tads ins)) (n, tads ins, w) c"
    using s by (auto simp: receiving_def)
  obtain sb' ads' w' where p: "put_session_data n (tads ins) ?src w = Inr (int (length ?src), set_sb n sb', ads', w')"
      "ses_stores w0 (dspath (tads ins)) (set_sb n sb', ads', w') (c @ local_of (tftpmode n) ?src)"
      "sb_datalen sb' < SESSION_BUFSIZE"
    using put_session_data_more [OF w0(3) f] by blast
  let ?n = "set_sb n sb'" and ?ins = "ins\<lparr>sheap := (sheap ins)(a \<mapsto> set_sb n sb'), tads := ads'\<rparr>"
  have e: "same_env w w'" "socks w' = socks w" "sent w' = sent w" "dspath ads' = dspath (tads ins)"
    using fstep_between [of w0 w w'] ses_stores_world [OF w0(3)] ses_stores_world [OF p(2)] by simp_all
  have id: "same_id n ?n" by (rule put_session_data_same [OF p(1)])
  have h: "sheap ?ins a = Some ?n" and lm: "length (lastmsg ?n) = TFTP_MSGLEN_MAX"
    using inv by (simp_all add: ses_inv_def)
  obtain si' m where k: "proc_send_ack a (dt_blknum dat) ?ins si w' =
      Inr (True, ?ins\<lparr>sheap := (sheap ?ins)(a \<mapsto> m)\<rparr>, si', w')" "si_ses si' = Some a"
      "says si' (enc_ack \<lparr>ak_blknum = dt_blknum dat\<rparr>)" "same_id ?n m" "disabled m = disabled ?n" "fin m = fin ?n"
      "blknum m = dt_blknum dat" "sesbuf m = sesbuf ?n"
    using proc_send_ack_ok [OF h l lm] by blast
  have "receiving F ?n ads' w' (c @ local_of (tftpmode n) ?src)"
    unfolding receiving_def using w0(1,2) p(2) e(1,4) by (intro exI [of _ w0]) (simp add: same_env_def)
  then have "receiving F m ads' w' (c @ local_of (tftpmode n) ?src)"
    by (rule receiving_cong) (use k(4,8) in \<open>simp_all add: same_id_def\<close>)
  moreover have "proc_store a n dat ins si w = Inr (True, ?ins\<lparr>sheap := (sheap ?ins)(a \<mapsto> m)\<rparr>, si', w')"
    using n p(1) f(1) k(1) by (simp add: proc_store_def)
  moreover have "moved_on ins w a m (?ins\<lparr>sheap := (sheap ?ins)(a \<mapsto> m)\<rparr>) w'"
    using e unfolding moved_on_def by (intro conjI exI [of _ ads']) (simp_all add: heap_tads_upd)
  ultimately show ?thesis
    using k(2-8) same_id_trans [OF id k(4)] f(1) p(3) e(4)
    by (intro exI [of _ "?ins\<lparr>sheap := (sheap ?ins)(a \<mapsto> m)\<rparr>"] exI [of _ si'] exI [of _ w'] exI [of _ m]) simp
qed

text \<open>The last, short block: it is kept, the file is closed, the block acknowledged.\<close>

lemma proc_store_last:
  assumes n: "sheap ins a = Some n" and l: "length (si_msgbuf si) = TFTP_MSGLEN_MAX" and inv: "ses_inv n"
    and s: "receiving F n (tads ins) w c" and f: "sb_datalen (sesbuf n) < SESSION_BUFSIZE"
    and last: "tftpmode n = TFTP_MODE_OCTET \<or> CR \<notin> set (dt_data dat)"
  defines "q \<equiv> canon w (joined (dspath (tads ins)) (filename n))"
  shows "\<exists>ins' si' w' m. proc_store a (n\<lparr>fin := True\<rparr>) dat ins si w = Inr (True, ins', si', w') \<and> si_ses si' = Some a \<and>
    says si' (enc_ack \<lparr>ak_blknum = dt_blknum dat\<rparr>) \<and> moved_on ins w a m ins' w' \<and> same_id n m \<and>
    disabled m = disabled n \<and> blknum m = dt_blknum dat \<and> fin m \<and>
    ses_closed (if c @ dt_data dat = [] then F else F(q \<mapsto> Regular (c @ dt_data dat))) m (tads ins') w'"
proof -
  let ?src = "dt_data dat" and ?nf = "n\<lparr>fin := True\<rparr>"
  let ?G = "if c @ ?src = [] then F else F(q \<mapsto> Regular (c @ ?src))"
  obtain w0 where w0: "fsys w0 = F" "canon w0 = canon w" "ses_stores w0 (dspath (tads ins)) (n, tads ins, w) c"
    using s by (auto simp: receiving_def)
  have w0': "ses_stores w0 (dspath (tads ins)) (?nf, tads ins, w) c" using w0(3) by (simp add: ses_stores_def)
  obtain sb' ads1 w1 where p: "put_session_data ?nf (tads ins) ?src w = Inr (int (length ?src), set_sb ?nf sb', ads1, w1)"
      "ds_writes w0 (dspath (tads ins)) (clsock n) (filename n) (ads1, w1) (c @ ?src)"
    using put_session_data_last [OF w0', of ?src] f last by auto
  let ?n = "set_sb ?nf sb'"
  have fs: "fstep None w0 w1" "dspath ads1 = dspath (tads ins)" "fsys w1 = ?G" and wr: "\<exists>qs. ds_ok ads1 w1 qs"
    using p(2) w0(1,2) unfolding ds_writes_def q_def by (auto simp: writing_def)
  obtain qs where "ds_ok ads1 w1 qs" using wr by blast
  from close_data_ok [OF this, of ?n] obtain ads' w' where
    cl: "close_data ?n ads1 w1 = Inr (ads', w')" "ses_closed ?G ?n ads' w'" "ds_step ads1 w1 ads' w'"
    unfolding ses_closed_def using fs(3) by auto
  let ?ins = "ins\<lparr>sheap := (sheap ins)(a \<mapsto> ?n), tads := ads'\<rparr>"
  have e: "same_env w w'" "socks w' = socks w" "sent w' = sent w"
    using fstep_between [of w0 w w'] ses_stores_world [OF w0(3)] fs(1) cl(3)
    by (auto simp: ds_step_def intro: fstep_trans)
  have id: "same_id ?nf ?n" by (rule put_session_data_same [OF p(1)])
  have h: "sheap ?ins a = Some ?n" and lm: "length (lastmsg ?n) = TFTP_MSGLEN_MAX"
    using inv by (simp_all add: ses_inv_def)
  obtain si' m where k: "proc_send_ack a (dt_blknum dat) ?ins si w' =
      Inr (True, ?ins\<lparr>sheap := (sheap ?ins)(a \<mapsto> m)\<rparr>, si', w')" "si_ses si' = Some a"
      "says si' (enc_ack \<lparr>ak_blknum = dt_blknum dat\<rparr>)" "same_id ?n m" "disabled m = disabled ?n" "fin m = fin ?n"
      "blknum m = dt_blknum dat"
    using proc_send_ack_ok [OF h l lm] by blast
  have "ses_closed ?G m ads' w'" using cl(2) k(4) by (simp add: ses_closed_def same_id_def)
  moreover have "proc_store a ?nf dat ins si w = Inr (True, ?ins\<lparr>sheap := (sheap ?ins)(a \<mapsto> m)\<rparr>, si', w')"
    using n p(1) cl(1) k(1) by (simp add: proc_store_def heap_tads_upd)
  moreover have "moved_on ins w a m (?ins\<lparr>sheap := (sheap ?ins)(a \<mapsto> m)\<rparr>) w'"
    using e unfolding moved_on_def by (intro conjI exI [of _ ads']) (simp_all add: heap_tads_upd)
  moreover have "same_id n m" by (rule same_id_trans [OF same_id_trans [OF same_id_flags(1) id] k(4)])
  ultimately show ?thesis using k(2-7)
    by (intro exI [of _ "?ins\<lparr>sheap := (sheap ?ins)(a \<mapsto> m)\<rparr>"] exI [of _ si'] exI [of _ w'] exI [of _ m]) simp
qed

section \<open>DATA datagrams\<close>

text \<open>The state after the block \<open>b\<close> has been acknowledged; \<open>c\<close> is what has been received, in the
  local form, for the file \<open>q\<close>.\<close>

definition storing ::
    "(string \<Rightarrow> fnode option) \<Rightarrow> string \<Rightarrow> tftp_mode \<Rightarrow> service \<Rightarrow> saddr \<Rightarrow> int \<Rightarrow> u16 \<Rightarrow> bytes \<Rightarrow> bool" where
  "storing F q md v from s b c \<longleftrightarrow> (\<exists>ps a n. talks v ps a n from s \<and> blknum n = b \<and> \<not> fin n \<and>
     sb_datalen (sesbuf n) < SESSION_BUFSIZE \<and> tftpmode n = md \<and>
     canon (v_world v) (joined (dspath (tads (v_ins v))) (filename n)) = q \<and>
     receiving F n (tads (v_ins v)) (v_world v) c)"

lemma data_op: "ntohs_at (enc_data d @ t) 0 = Inr OP_DATA"
  unfolding enc_data_def append_assoc by (rule ntohs_hd)

lemma length_enc_data [simp]: "length (enc_data d) = 4 + length (dt_data d)"
  by (simp add: enc_data_def)

lemma next_not_same: "(b :: u16) + 1 \<noteq> b"
  by simp

lemma tftp_proc_data:
  assumes "speaks ins ps a n from s" and "dt_blknum d = blknum n + 1" and "length (dt_data d) \<le> TFTP_DATALEN_MAX"
  shows "tftp_proc ins sock (fst from) (snd from) (enc_data d @ t) (length (enc_data d)) si w =
    proc_store a (if length (dt_data d) < TFTP_DATALEN_MAX then n\<lparr>fin := True\<rparr> else n) d ins si w"
proof -
  have "parse_tftpdata (enc_data d @ t) (length (enc_data d)) = Inr (Some d)"
    using assms(3) by (intro wdata.parse_enc) (simp_all add: data_fits_def)
  with speaks_session(2) [OF assms(1)] assms(2) show ?thesis
    by (simp add: tftp_proc_op [OF data_op speaks_session(1) [OF assms(1)]] proc_data_def next_blknum_add)
qed

abbreviation ack_dgram :: "int \<Rightarrow> saddr \<Rightarrow> u16 \<Rightarrow> dgram" where
  "ack_dgram s from b \<equiv> \<lparr>dg_sock = s, dg_to = from, dg_bytes = enc_ack \<lparr>ak_blknum = b\<rparr>\<rparr>"

lemma storingE:
  assumes "storing F q md v from s b c"
  obtains ps a n where "talks v ps a n from s" "blknum n = b" "\<not> fin n" "sb_datalen (sesbuf n) < SESSION_BUFSIZE"
    "tftpmode n = md" "canon (v_world v) (joined (dspath (tads (v_ins v))) (filename n)) = q"
    "receiving F n (tads (v_ins v)) (received v) c" "speaks (v_ins v) ps a n from s"
    "length (si_msgbuf (v_si v)) = TFTP_MSGLEN_MAX" "\<not> disabled n" "sheap (v_ins v) a = Some n" "ses_inv n"
proof -
  from assms obtain ps a n where t: "talks v ps a n from s"
      "blknum n = b" "\<not> fin n" "sb_datalen (sesbuf n) < SESSION_BUFSIZE"
    "tftpmode n = md" "canon (v_world v) (joined (dspath (tads (v_ins v))) (filename n)) = q"
    "receiving F n (tads (v_ins v)) (v_world v) c"
    unfolding storing_def by blast
  then have sp: "speaks (v_ins v) ps a n from s" and l: "length (si_msgbuf (v_si v)) = TFTP_MSGLEN_MAX"
    by (simp_all add: talks_def calm_def)
  have r: "receiving F n (tads (v_ins v)) (received v) c"
    by (rule receiving_moved [OF t(7)]) (simp_all add: same_files_def same_env_def)
  have d: "\<not> disabled n" using sp by (simp add: speaks_def)
  show thesis by (rule that [OF t(1-6) r sp l d speaks_session(2,3) [OF sp]])
qed

lemma serve_data:
  assumes st: "storing F q md v from s b c" and ip: "length (fst from) < IPADDRLEN_MAX"
    and p: "length p = TFTP_DATALEN_MAX"
  shows "\<exists>v'. serve_dgram v (fd, from, enc_data \<lparr>dt_blknum = b + 1, dt_data = p\<rparr>) = Inr v' \<and>
    storing F q md v' from s (b + 1) (c @ local_of md p) \<and>
    sent (v_world v') = sent (v_world v) @ [ack_dgram s from (b + 1)]"
  using st
proof (cases rule: storingE)
  case st: (1 ps a n)
  let ?d = "\<lparr>dt_blknum = b + 1, dt_data = p\<rparr>"
  obtain ins' si' w' m where
    r: "proc_store a n ?d (v_ins v) (v_si v) (received v) = Inr (True, ins', si', w')"
    and si: "si_ses si' = Some a" "says si' (enc_ack \<lparr>ak_blknum = b + 1\<rparr>)"
    and m: "moved_on (v_ins v) (received v) a m ins' w'" "same_id n m" "\<not> disabled m" "blknum m = b + 1" "\<not> fin m"
      "sb_datalen (sesbuf m) < SESSION_BUFSIZE" "dspath (tads ins') = dspath (tads (v_ins v))"
      "receiving F m (tads ins') w' (c @ local_of md p)"
    using proc_store_more [OF st(11,9,12,7,3,4), of ?d, unfolded tftpdata.select_convs st(5)] st(10) by blast
  have t: "tftp_proc (v_ins v) fd (fst from) (snd from) (enc_data ?d @ drop (length (enc_data ?d)) (v_rbuf v))
      (length (enc_data ?d)) (v_si v) (received v) = Inr (True, ins', si', w')"
    using tftp_proc_data [OF st(8), of ?d] st(2) p r by simp
  have len: "length (enc_data ?d) \<le> NWBUF_SIZE" using p by simp
  obtain v' where v': "serve_dgram v (fd, from, enc_data ?d) = Inr v'" "talks v' ps a m from s"
      "v_ins v' = ins'" "sent (v_world v') = sent (v_world v) @ [ack_dgram s from (b + 1)]"
      "same_files w' (v_world v')" "same_env w' (v_world v')"
    using serve_dgram_talks [OF st(1) ip len t m(1,2,3) si] by blast
  have "receiving F m (tads ins') (v_world v') (c @ local_of md p)"
    by (rule receiving_moved [OF m(8) v'(5,6)])
  moreover have "canon (v_world v') = canon (v_world v)"
    using v'(6) m(1) by (simp add: same_env_def moved_on_def)
  moreover have "tftpmode m = md" "filename m = filename n" using m(2) st(5) by (simp_all add: same_id_def)
  ultimately have "storing F q md v' from s (b + 1) (c @ local_of md p)"
    unfolding storing_def using v'(2,3) m st(6)
    by (intro exI [of _ ps] exI [of _ a] exI [of _ m]) simp
  with v' show ?thesis by blast
qed

lemma serve_last_data:
  assumes st: "storing F q md v from s b c" and ip: "length (fst from) < IPADDRLEN_MAX"
    and p: "length p < TFTP_DATALEN_MAX" "md = TFTP_MODE_OCTET \<or> CR \<notin> set p"
  shows "\<exists>v'. serve_dgram v (fd, from, enc_data \<lparr>dt_blknum = b + 1, dt_data = p\<rparr>) = Inr v' \<and>
    fetching (if c @ p = [] then F else F(q \<mapsto> Regular (c @ p))) v' from s (b + 1) None \<and>
    sent (v_world v') = sent (v_world v) @ [ack_dgram s from (b + 1)]"
  using st
proof (cases rule: storingE)
  case st: (1 ps a n)
  let ?d = "\<lparr>dt_blknum = b + 1, dt_data = p\<rparr>" and ?G = "if c @ p = [] then F else F(q \<mapsto> Regular (c @ p))"
  have md: "tftpmode n = TFTP_MODE_OCTET \<or> CR \<notin> set (dt_data ?d)" using st(5) p(2) by simp
  have q: "canon (received v) (joined (dspath (tads (v_ins v))) (filename n)) = q" using st(6) by simp
  obtain ins' si' w' m where
    r: "proc_store a (n\<lparr>fin := True\<rparr>) ?d (v_ins v) (v_si v) (received v) = Inr (True, ins', si', w')"
    and si: "si_ses si' = Some a" "says si' (enc_ack \<lparr>ak_blknum = b + 1\<rparr>)"
    and m: "moved_on (v_ins v) (received v) a m ins' w'" "same_id n m" "\<not> disabled m" "blknum m = b + 1" "fin m"
      "ses_closed ?G m (tads ins') w'"
    using proc_store_last [OF st(11,9,12,7,4) md, unfolded q tftpdata.select_convs] st(10) by blast
  have t: "tftp_proc (v_ins v) fd (fst from) (snd from) (enc_data ?d @ drop (length (enc_data ?d)) (v_rbuf v))
      (length (enc_data ?d)) (v_si v) (received v) = Inr (True, ins', si', w')"
    using tftp_proc_data [OF st(8), of ?d] st(2) p(1) r by simp
  have len: "length (enc_data ?d) \<le> NWBUF_SIZE" using p(1) by simp
  obtain v' where v': "serve_dgram v (fd, from, enc_data ?d) = Inr v'" "talks v' ps a m from s"
      "v_ins v' = ins'" "sent (v_world v') = sent (v_world v) @ [ack_dgram s from (b + 1)]"
      "same_files w' (v_world v')" "same_env w' (v_world v')"
    using serve_dgram_talks [OF st(1) ip len t m(1,2,3) si] by blast
  have "ses_closed ?G m (tads ins') (v_world v')" by (rule closed_moved [OF m(6) v'(5)])
  then have "fetching ?G v' from s (b + 1) None"
    unfolding fetching_def using v'(2,3) m(4,5) by (intro exI [of _ ps] exI [of _ a] exI [of _ m]) simp
  with v' show ?thesis by blast
qed

section \<open>The upload\<close>

lemma serve_wrq:
  assumes v: "calm v" and wf: "tab_wf (v_ins v) ps" and new: "ses_view (v_ins v) ps from = None"
    and ip: "length (fst from) < IPADDRLEN_MAX"
    and ds: "ds_ok (tads (v_ins v)) (v_world v) qs" and nl: "socks_ok (v_ins v) (v_world v)"
    and r: "req_wf r" "10 \<le> length (enc_req r)" "rq_opcode r = OP_WRQ"
    and sk: "map_of (socks (v_world v)) fd \<noteq> None" "distinct (map fst (socks (v_world v)))"
    and no: "fsys (v_world v) (file_of v r) = None"
  shows "\<exists>v' s. serve_dgram v (fd, from, enc_req r) = Inr v' \<and>
    storing (fsys (v_world v)) (file_of v r) (mode_of (rq_mode r)) v' from s 0 [] \<and>
    map_of (socks (v_world v)) s = None \<and> sent (v_world v') = sent (v_world v) @ [ack_dgram s from 0]"
proof -
  let ?w = "received v" and ?ins = "v_ins v" and ?pkt = "enc_req r @ drop (length (enc_req r)) (v_rbuf v)"
  have vc: "fault_free ?w" "length (v_rbuf v) = NWBUF_SIZE" "length (si_msgbuf (v_si v)) = TFTP_MSGLEN_MAX"
    using v by (simp_all add: calm_def)
  have f: "is_cstring (rq_filename r)" using r(1) by (simp add: req_wf_def)
  have len: "length (enc_req r) \<le> NWBUF_SIZE" using r(1) by (auto simp: req_wf_def enc_req_def)
  have q: "parse_tftpreq ?pkt (length (enc_req r)) = Inr (Some r)" by (rule wreq.parse_enc [OF r(1,2)])
  have ds': "ds_ok (tads ?ins) ?w qs" "socks_ok ?ins ?w" using ds nl by simp_all
  have sk': "map_of (socks ?w) fd \<noteq> None" "distinct (map fst (socks ?w))" using sk by simp_all
  have new': "ses_view ?ins ps (fst from, snd from) = None" using new by simp
  have ne: "rq_opcode r \<noteq> OP_RRQ" using r(3) by simp
  have ops: "rq_opcode r = OP_RRQ \<longleftrightarrow> regular_file ?ins ?w (rq_filename r)"
    using r(3) no by (simp add: regular_file_def)
  obtain a ins1 w1 ps1 n s where
    p: "tftp_proc ?ins fd (fst from) (snd from) ?pkt (length (enc_req r)) (v_si v) ?w = proc_send_ack a 0 ins1 (v_si v) w1"
    and n: "speaks ins1 ps1 a n from s" "fresh_session n from s (rq_filename r) (rq_mode r)"
    and w1: "tads ins1 = tads ?ins" "same_files ?w w1" "same_env ?w w1" "sent w1 = sent ?w"
      "map_of (socks ?w) s = None" "map_of (socks w1) s \<noteq> None" "ds_stream (tads ?ins) w1 qs s (rq_filename r) = None"
    using tftp_proc_new [where si = "v_si v", OF wf new' ip vc(1) ds' q sk' ops, unfolded prod.collapse if_not_P [OF ne]]
    by blast
  have w1': "fsys w1 = fsys (v_world v)" "canon w1 = canon (v_world v)" "fault_free w1"
    using w1(2,3) same_env_fault_free [OF w1(3) vc(1)] by (simp_all add: same_files_def same_env_def)
  have rcv: "receiving (fsys (v_world v)) n (tads ins1) w1 []"
    using receiving_start [OF n(2) w1'(3) ds_ok_same_files [OF ds'(1) w1(2)] w1(7) f] no w1(1) w1' by simp
  note n' = fresh_sessionD [OF n(2)] and sp = speaks_session [OF n(1)]
  obtain si' m where
    d: "proc_send_ack a 0 ins1 (v_si v) w1 = Inr (True, ins1\<lparr>sheap := (sheap ins1)(a \<mapsto> m)\<rparr>, si', w1)"
      "si_ses si' = Some a" "says si' (enc_ack \<lparr>ak_blknum = 0\<rparr>)"
    and m: "same_id n m" "disabled m = disabled n" "fin m = fin n" "blknum m = 0" "sesbuf m = sesbuf n"
    using proc_send_ack_ok [OF sp(2) vc(3) sp(4)] by blast
  let ?ins' = "ins1\<lparr>sheap := (sheap ins1)(a \<mapsto> m)\<rparr>"
  have mv: "moved_on ins1 w1 a m ?ins' w1" unfolding moved_on_def by (intro conjI exI [of _ "tads ins1"]) simp_all
  have nd: "\<not> disabled m" using m(2) n'(9) by simp
  obtain v' where v': "serve_dgram v (fd, from, enc_req r) = Inr v'" "talks v' ps1 a m from s" "v_ins v' = ?ins'"
      "sent (v_world v') = sent w1 @ [ack_dgram s from 0]" "same_files w1 (v_world v')" "same_env w1 (v_world v')"
    using serve_dgram_reply [OF v ip len p [unfolded d(1)] speaks_moved [OF n(1) mv m(1) nd] w1(6,3) d(2,3)] by blast
  have "receiving (fsys (v_world v)) m (tads ins1) w1 []"
    by (rule receiving_cong [OF rcv m(5)]) (use m(1) in \<open>simp_all add: same_id_def\<close>)
  then have "receiving (fsys (v_world v)) m (tads ins1) (v_world v') []" by (rule receiving_moved [OF _ v'(5,6)])
  moreover have "canon (v_world v') = canon (v_world v)" using v'(6) w1'(2) by (simp add: same_env_def)
  moreover have "tftpmode m = mode_of (rq_mode r)" "filename m = rq_filename r" "sb_datalen (sesbuf m) = 0" "\<not> fin m"
    using m(1,3,5) n' by (simp_all add: same_id_def empty_storage_def)
  ultimately have "storing (fsys (v_world v)) (file_of v r) (mode_of (rq_mode r)) v' from s 0 []"
    unfolding storing_def using v'(2,3) m(4) w1(1) by (intro exI [of _ ps1] exI [of _ a] exI [of _ m]) simp
  then show ?thesis using v'(1,4) w1(4,5) by auto
qed

fun data_arrivals :: "int \<Rightarrow> saddr \<Rightarrow> u16 \<Rightarrow> bytes list \<Rightarrow> arrival list" where
  "data_arrivals fd from b [] = []"
| "data_arrivals fd from b (p # ps) =
     (fd, from, enc_data \<lparr>dt_blknum = b, dt_data = p\<rparr>) # data_arrivals fd from (b + 1) ps"

fun ack_dgrams :: "int \<Rightarrow> saddr \<Rightarrow> u16 \<Rightarrow> nat \<Rightarrow> dgram list" where
  "ack_dgrams s from b 0 = []"
| "ack_dgrams s from b (Suc k) = ack_dgram s from b # ack_dgrams s from (b + 1) k"

lemma serve_datas:
  assumes "storing F q md v from s b c" and "length (fst from) < IPADDRLEN_MAX"
    and "\<forall>p \<in> set bss. length p = TFTP_DATALEN_MAX"
    and "length lst < TFTP_DATALEN_MAX" and "md = TFTP_MODE_OCTET \<or> CR \<notin> set lst"
  defines "all_data \<equiv> c @ local_of md (concat bss @ lst)"
  shows "\<exists>v'. serve_all v (data_arrivals fd from (b + 1) (bss @ [lst])) = Inr v' \<and>
    sent (v_world v') = sent (v_world v) @ ack_dgrams s from (b + 1) (length bss + 1) \<and>
    fsys (v_world v') = (if all_data = [] then F else F(q \<mapsto> Regular all_data))"
  using assms(1,3) unfolding all_data_def
proof (induction bss arbitrary: v b c)
  case Nil
  have "local_of md lst = lst" using assms(5) local_of_noCR [of lst md] by (auto simp: local_of_def)
  with serve_last_data [OF Nil.prems(1) assms(2,4,5), of fd] show ?case
    by (auto simp: fetching_def ses_closed_def)
next
  case (Cons p bss)
  then have "length p = TFTP_DATALEN_MAX" by simp
  from serve_data [OF Cons.prems(1) assms(2) this, of fd] obtain v1 where
    v1: "serve_dgram v (fd, from, enc_data \<lparr>dt_blknum = b + 1, dt_data = p\<rparr>) = Inr v1"
      "storing F q md v1 from s (b + 1) (c @ local_of md p)" "sent (v_world v1) = sent (v_world v) @ [ack_dgram s from (b + 1)]"
    by blast
  from Cons.IH [OF v1(2)] Cons.prems(2) obtain v2 where
    v2: "serve_all v1 (data_arrivals fd from (b + 1 + 1) (bss @ [lst])) = Inr v2"
      "sent (v_world v2) = sent (v_world v1) @ ack_dgrams s from (b + 1 + 1) (length bss + 1)"
      "fsys (v_world v2) = (if (c @ local_of md p) @ local_of md (concat bss @ lst) = [] then F
        else F(q \<mapsto> Regular ((c @ local_of md p) @ local_of md (concat bss @ lst))))"
    by auto
  then show ?case using v1 by (simp add: local_of_append)
qed

text \<open>C2: an upload. In any state the server can reach, without failing calls, a client that has no
  session, asks to write a name that does not exist and sends its data in blocks of 512 bytes with a shorter last one gets
  every block acknowledged, from 0 on modulo 65536, through one new socket; then the file holds
  the data, in netascii mode without its carriage returns (the last block has none there), and
  no other file has changed. When there is no data, no file is created.\<close>

theorem upload_stores_file:
  assumes "may_request v fd from r" and "rq_opcode r = OP_WRQ" and "fsys (v_world v) (file_of v r) = None"
    and "\<forall>p \<in> set bss. length p = TFTP_DATALEN_MAX" and "length lst < TFTP_DATALEN_MAX"
    and "rq_mode r = ''octet'' \<or> CR \<notin> set lst"
  defines "all_data \<equiv> local_of (mode_of (rq_mode r)) (concat bss @ lst)"
  shows "\<exists>v' s. serve_all v ((fd, from, enc_req r) # data_arrivals s from 1 (bss @ [lst])) = Inr v' \<and>
    sent (v_world v') = sent (v_world v) @ ack_dgrams s from 0 (length bss + 2) \<and>
    map_of (socks (v_world v)) s = None \<and>
    fsys (v_world v') = (if all_data = [] then fsys (v_world v)
      else (fsys (v_world v))(file_of v r \<mapsto> Regular all_data))"
proof -
  let ?md = "mode_of (rq_mode r)" and ?F = "fsys (v_world v)"
  from assms(1) obtain ps qs where a: "calm v" "tab_wf (v_ins v) ps" "ses_view (v_ins v) ps from = None"
      "ds_ok (tads (v_ins v)) (v_world v) qs" "socks_ok (v_ins v) (v_world v)"
      "length (fst from) < IPADDRLEN_MAX" "req_wf r" "10 \<le> length (enc_req r)"
      "map_of (socks (v_world v)) fd \<noteq> None" "distinct (map fst (socks (v_world v)))"
    by (rule may_requestE)
  have md: "?md = TFTP_MODE_OCTET \<or> CR \<notin> set lst" using assms(6) by (auto simp: mode_of_def is_netascii_def)
  obtain v1 s where v1: "serve_dgram v (fd, from, enc_req r) = Inr v1" "storing ?F (file_of v r) ?md v1 from s 0 []"
      "map_of (socks (v_world v)) s = None" "sent (v_world v1) = sent (v_world v) @ [ack_dgram s from 0]"
    using serve_wrq [OF a(1,2,3,6,4,5,7,8) assms(2) a(9,10) assms(3)] by blast
  obtain v2 where v2: "serve_all v1 (data_arrivals s from (0 + 1) (bss @ [lst])) = Inr v2"
      "sent (v_world v2) = sent (v_world v1) @ ack_dgrams s from (0 + 1) (length bss + 1)"
      "fsys (v_world v2) = (if [] @ all_data = [] then ?F else ?F(file_of v r \<mapsto> Regular ([] @ all_data)))"
    using serve_datas [OF v1(2) a(6) assms(4,5) md, of s] unfolding all_data_def by blast
  then show ?thesis using v1 by (intro exI [of _ v2] exI [of _ s]) simp
qed

theorem upload_stores_file_witness:
  "\<exists>v' s. serve_all (demo_files []) [(3, (''10.0.0.9'', 1000),
        enc_req \<lparr>rq_opcode = OP_WRQ, rq_filename = ''f'', rq_mode = ''octet''\<rparr>),
        (s, (''10.0.0.9'', 1000), enc_data \<lparr>dt_blknum = 1, dt_data = ''abc''\<rparr>)] = Inr v' \<and>
    sent (v_world v') = [ack_dgram s (''10.0.0.9'', 1000) 0, ack_dgram s (''10.0.0.9'', 1000) 1] \<and>
    fsys (v_world v') ''/d/f'' = Some (Regular ''abc'')"
proof -
  have m: "local_of (mode_of ''octet'') x = x" for x by (simp add: mode_of_def is_netascii_def local_of_def)
  let ?v = "demo_files []" and ?from = "(''10.0.0.9'', 1000)"
  let ?r = "\<lparr>rq_opcode = OP_WRQ, rq_filename = ''f'', rq_mode = ''octet''\<rparr>"
  have "may_request ?v 3 ?from ?r" by (simp add: demo_may_request)
  from upload_stores_file [OF this, of "[]" "''abc''"] obtain v' s where
    "serve_all ?v ((3, ?from, enc_req ?r) # data_arrivals s ?from 1 ([] @ [''abc''])) = Inr v'"
    "sent (v_world v') = sent (v_world ?v) @ ack_dgrams s ?from 0 (length [] + 2)"
    "fsys (v_world v') = (fsys (v_world ?v))(''/d/f'' \<mapsto> Regular ''abc'')"
    by (auto simp: m demo_files_def simp del: serve_all.simps)
  then show ?thesis by (intro exI [of _ v'] exI [of _ s]) (simp add: demo_files_def numeral_2_eq_2)
qed

section \<open>DATA datagrams in a download\<close>

text \<open>C29: the server takes DATA from a client that is downloading, too, and stores it behind the
  bytes it has still to send: when these and the new ones do not fit behind the read position of
  the session buffer, it writes beyond the buffer. The client chooses the bytes.\<close>

theorem data_in_download_overflows:
  assumes sp: "speaks ins ps a n from s" and md: "tftpmode n = TFTP_MODE_OCTET"
    and d: "dt_blknum d = blknum n + 1" "0 < length (dt_data d)" "length (dt_data d) \<le> TFTP_DATALEN_MAX"
    and pos: "SESSION_BUFSIZE < sb_pos (sesbuf n) + min (SESSION_BUFSIZE - sb_datalen (sesbuf n)) (length (dt_data d))"
  shows "tftp_proc ins sock (fst from) (snd from) (enc_data d @ t) (length (enc_data d)) si w = Inl Out_of_bounds"
proof -
  let ?m = "if length (dt_data d) < TFTP_DATALEN_MAX then n\<lparr>fin := True\<rparr> else n"
  have st: "length (sb_storage (sesbuf n)) = SESSION_BUFSIZE" "sb_datalen (sesbuf n) \<le> SESSION_BUFSIZE"
    using speaks_session(3) [OF sp] by (simp_all add: ses_inv_def)
  have m: "tftpmode ?m = TFTP_MODE_OCTET" "sesbuf ?m = sesbuf n" using md by simp_all
  define len where "len = min (SESSION_BUFSIZE - sb_datalen (sesbuf n)) (length (dt_data d))"
  have l: "length (take len (dt_data d)) = len" by (simp add: len_def)
  have wr: "wr_bytes (sb_storage (sesbuf n)) (sb_pos (sesbuf n)) (take len (dt_data d)) = Inl Out_of_bounds"
    using pos st(1) unfolding wr_bytes_def l by (simp add: len_def)
  have len': "(if sz_sub SESSION_BUFSIZE (sb_datalen (sesbuf n)) > length (dt_data d) then length (dt_data d)
      else sz_sub SESSION_BUFSIZE (sb_datalen (sesbuf n))) = len"
    using st(2) by (simp add: len_def min_def)
  have "psd_copy ?m (dt_data d) = Inl Out_of_bounds"
    unfolding psd_copy_def m Let_def tftp_mode.case len' wr by simp
  then have "psd_loop ?m (tads ins) (dt_data d) 0 w = Inl Out_of_bounds"
    by (subst psd_loop.simps) simp
  then have "put_session_data ?m (tads ins) (dt_data d) w = Inl Out_of_bounds"
    using d(2) by (auto simp: put_session_data_def)
  then have "proc_store a ?m d ins si w = Inl Out_of_bounds" by (simp add: proc_store_def)
  then show ?thesis unfolding tftp_proc_data [OF sp d(1,3)] by simp
qed

text \<open>A download whose buffer of 8192 bytes has just been sent.\<close>

theorem data_in_download_overflows_witness:
  "tftp_proc (demo_tftp (demo_ses\<lparr>blknum := 16, sesbuf := empty_storage\<lparr>sb_pos := SESSION_BUFSIZE\<rparr>\<rparr>)) 3 ''10.0.0.9'' 1000
     (enc_data \<lparr>dt_blknum = 17, dt_data = ''x''\<rparr> @ []) 5 (v_si (demo_svc demo_idle)) (demo_world []) =
   Inl Out_of_bounds"
proof -
  let ?n = "demo_ses\<lparr>blknum := 16, sesbuf := empty_storage\<lparr>sb_pos := SESSION_BUFSIZE\<rparr>\<rparr>"
  have "ses_inv ?n"
    by (simp add: demo_ses_def empty_session_def empty_storage_def ses_inv_def is_cstring_def)
  then have "speaks (demo_tftp ?n) [0] 0 ?n (''10.0.0.9'', 1000) 4"
    using demo_tftp_wf [of ?n] by (simp add: speaks_def)
  from data_in_download_overflows [where d = "\<lparr>dt_blknum = 17, dt_data = ''x''\<rparr>" and sock = 3 and t = "[]"
      and si = "v_si (demo_svc demo_idle)" and w = "demo_world []", OF this]
  show ?thesis by (simp add: demo_ses_def empty_session_def empty_storage_def)
qed

end
