(* ===== verification/Tftp_Interleave.thy ===== *)
theory Tftp_Interleave
  imports Tftp_Upload
begin

text \<open>
  What a client can do to others: its datagrams leave their sessions and their open files as they
  are. And so a download while the server serves others: the datagrams of one client, which acknowledges each
  block, come in any order with datagrams of other clients, whatever these are. What the others do
  keeps the session, its descriptor, its stream and the file (\<open>svc_step\<close>); so the client is sent
  the same datagrams as it is when it is alone.
\<close>

section \<open>The session beside the others\<close>

text \<open>The open socket \<open>s\<close> is that of the session of \<open>from\<close> for the file \<open>f\<close>, and of no other.\<close>

definition beside :: "service \<Rightarrow> saddr \<Rightarrow> int \<Rightarrow> string \<Rightarrow> bool" where
  "beside v from s f \<longleftrightarrow> svc_inv v \<and> s \<noteq> IW_ERR \<and> map_of (socks (v_world v)) s \<noteq> None \<and>
     (\<forall>a n. sheap (v_ins v) a = Some n \<longrightarrow> clsock n = s \<longrightarrow> ses_key n = from \<and> filename n = f)"

lemma ses_view_node:
  assumes "ses_view ins ps k = Some m" and "tab_wf ins ps"
  obtains a n where "a \<in> set ps" "sheap ins a = Some n" "ses_key n = k" "m = strip n"
proof -
  from assms(1) obtain a where a: "a \<in> set ps" "ses_key (the (sheap ins a)) = k" "m = strip (the (sheap ins a))"
    by (auto simp: ses_view_def dest!: map_of_SomeD)
  obtain n where "sheap ins a = Some n" using tab_wfD(6) [OF assms(2) a(1)] by blast
  with a that show thesis by simp
qed

lemma beside_shielded:
  assumes b: "beside v from s f" and k: "k \<noteq> from" and wf: "tab_wf (v_ins v) ps"
  shows "shielded {s} (v_ins v) ps k (v_world v)"
proof -
  have "clsock m \<noteq> s" if m: "ses_view (v_ins v) ps k = Some m" for m
  proof -
    obtain a n where n: "sheap (v_ins v) a = Some n" "ses_key n = k" "m = strip n"
      by (rule ses_view_node [OF m wf])
    moreover have "clsock (strip n) = clsock n" by (simp add: strip_def)
    ultimately show ?thesis using b k unfolding beside_def by metis
  qed
  moreover have "s \<in> fst ` set (socks (v_world v))" "distinct (map fst (socks (v_world v)))"
    using b unfolding beside_def svc_inv_def by (simp_all add: map_of_eq_None_iff)
  ultimately show ?thesis by (simp add: shielded_def)
qed

lemma beside_step:
  assumes b: "beside v from s f" and st: "svc_step S k v v'"
  shows "beside v' from s f"
proof -
  have s: "s \<noteq> IW_ERR" "s \<in> fst ` set (socks (v_world v))" "map_of (socks (v_world v)) s \<noteq> None"
    using b unfolding beside_def by (simp_all add: map_of_eq_None_iff)
  have "ses_key m = from \<and> filename m = f" if m: "sheap (v_ins v') a = Some m" "clsock m = s" for a m
  proof -
    have "socks_kept (v_world v) (v_ins v) (v_ins v')" using st by (simp add: svc_step_def)
    then obtain n where "sheap (v_ins v) a = Some n" "clsock n = s" "ses_key n = ses_key m" "filename n = filename m"
      unfolding socks_kept_def using m s(1,2) by metis
    with b show ?thesis unfolding beside_def by metis
  qed
  moreover have "map_of (socks (v_world v')) s \<noteq> None" using st s(3) unfolding svc_step_def by fastforce
  moreover have "svc_inv v'" using st by (simp add: svc_step_def)
  ultimately show ?thesis using s(1) by (simp add: beside_def)
qed

lemma serve_other_step:
  assumes b: "beside v from s f" and k: "k \<noteq> from" and r: "serve_dgram v (fd, k, bs) = Inr v'"
  shows "svc_step {s} k v v'"
  using safely_InrD [OF serve_dgram_step [where S = "{s}", OF _ beside_shielded [OF b k]] r] b
  by (simp add: beside_def)

lemma serve_own_step:
  assumes b: "beside v from s f" and r: "serve_dgram v (fd, k, bs) = Inr v'"
  shows "svc_step {} k v v'"
  using safely_InrD [OF serve_dgram_step [where S = "{}", OF _ shielded_empty] r] b
  by (simp add: beside_def)

section \<open>Isolation\<close>

lemma svc_step_view:
  assumes "svc_step S k v v'" and "tab_wf (v_ins v) ps"
  shows "\<exists>ps'. tab_wf (v_ins v') ps' \<and> (\<forall>k'. k' \<noteq> k \<longrightarrow> ses_view (v_ins v') ps' k' = ses_view (v_ins v) ps k')"
  using assms unfolding svc_step_def by blast

lemma svc_step_socks: "\<lbrakk>svc_step S k v v'; map_of (socks (v_world v)) fd = Some x\<rbrakk> \<Longrightarrow> map_of (socks (v_world v')) fd = Some x"
  unfolding svc_step_def by blast

lemma shielded_own:
  assumes so: "socks_ok (v_ins v) (v_world v)" and d: "distinct (map fst (socks (v_world v)))"
    and wf: "tab_wf (v_ins v) ps" and n: "ses_view (v_ins v) ps k = Some n" "clsock n \<noteq> IW_ERR" and k: "k' \<noteq> k"
  shows "shielded {clsock n} (v_ins v) ps k' (v_world v)"
proof -
  obtain a n0 where a: "sheap (v_ins v) a = Some n0" "ses_key n0 = k" "n = strip n0"
    by (rule ses_view_node [OF n(1) wf])
  have cs: "clsock n = clsock n0" using a(3) by (simp add: strip_def)
  have "clsock m \<noteq> clsock n" if m: "ses_view (v_ins v) ps k' = Some m" for m
  proof
    assume e: "clsock m = clsock n"
    obtain b m0 where b: "sheap (v_ins v) b = Some m0" "ses_key m0 = k'" "m = strip m0"
      by (rule ses_view_node [OF m wf])
    then have "clsock m0 = clsock n0" using e cs by (simp add: strip_def)
    then have "b = a" using so a(1) b(1) n(2) cs unfolding socks_ok_def by metis
    with a b k show False by simp
  qed
  moreover have "map_of (socks (v_world v)) (clsock n) \<noteq> None" using so a(1) cs n(2) unfolding socks_ok_def by metis
  then have "clsock n \<in> fst ` set (socks (v_world v))" by (simp add: map_of_eq_None_iff)
  ultimately show ?thesis using d by (simp add: shielded_def)
qed

text \<open>C11: in any state the server can reach, whatever a client sends and whichever calls fail: the
  sessions of all other clients stay as they are, with their buffers, block numbers and counters,
  their sockets stay open and the files they have open stay open where they are; what is sent
  goes to this client. The table stays well formed.\<close>

theorem serve_dgram_isolates_clients:
  assumes "reachable v" and "serve_dgram v (fd, from, bs) = Inr v'"
  shows "\<exists>ps ps'. tab_wf (v_ins v) ps \<and> tab_wf (v_ins v') ps' \<and>
    (\<forall>k. k \<noteq> from \<longrightarrow> ses_view (v_ins v') ps' k = ses_view (v_ins v) ps k \<and>
       (\<forall>n f. ses_view (v_ins v) ps k = Some n \<longrightarrow> clsock n \<noteq> IW_ERR \<longrightarrow>
          map_of (socks (v_world v')) (clsock n) \<noteq> None \<and>
          entry_stream (tads (v_ins v')) (v_world v') (clsock n) f =
            entry_stream (tads (v_ins v)) (v_world v) (clsock n) f)) \<and>
    (\<exists>new. sent (v_world v') = sent (v_world v) @ new \<and> (\<forall>g \<in> set new. dg_to g = from))"
proof -
  note i = reachable_inv [OF assms(1)] and so = reachable_socks [OF assms(1)]
  obtain ps where wf: "tab_wf (v_ins v) ps" using i unfolding svc_inv_def by blast
  have d: "distinct (map fst (socks (v_world v)))" using i by (simp add: svc_inv_def)
  have st: "svc_step {} from v v'" by (rule safely_InrD [OF serve_dgram_step [OF i shielded_empty] assms(2)])
  obtain ps' where ps': "tab_wf (v_ins v') ps'" "\<forall>k. k \<noteq> from \<longrightarrow> ses_view (v_ins v') ps' k = ses_view (v_ins v) ps k"
    using svc_step_view [OF st wf] by blast
  have "map_of (socks (v_world v')) (clsock n) \<noteq> None \<and> entry_stream (tads (v_ins v')) (v_world v') (clsock n) f =
            entry_stream (tads (v_ins v)) (v_world v) (clsock n) f"
    if k: "k \<noteq> from" and n: "ses_view (v_ins v) ps k = Some n" "clsock n \<noteq> IW_ERR" for k n f
  proof -
    have "shielded {clsock n} (v_ins v) qs from (v_world v)" if "tab_wf (v_ins v) qs" for qs
    proof -
      have "qs = ps" by (rule dll_unique [OF tab_wfD(1) [OF that] tab_wfD(1) [OF wf]])
      then show ?thesis using shielded_own [OF so d wf n, of "from"] k by auto
    qed
    then have sn: "svc_step {clsock n} from v v'" by (rule safely_InrD [OF serve_dgram_step [OF i] assms(2)])
    obtain a n0 where "sheap (v_ins v) a = Some n0" "n = strip n0" using ses_view_node [OF n(1) wf] by metis
    then have "map_of (socks (v_world v)) (clsock n) \<noteq> None" using so n(2) unfolding socks_ok_def by (simp add: strip_def) blast
    with sn svc_step_socks [OF sn] show ?thesis by (auto simp: svc_step_def)
  qed
  moreover have "\<exists>new. sent (v_world v') = sent (v_world v) @ new \<and> (\<forall>g \<in> set new. dg_to g = from)"
    using st by (simp add: svc_step_def)
  ultimately show ?thesis using wf ps' by blast
qed

section \<open>The stream of the session\<close>

lemma sending_beside:
  assumes s: "sending (fsys w) n ads w out" and m: "strip m = strip n"
    and q: "q = canon w (joined (dspath ads) (filename n))" and g: "guarded w q c" "guarded w' q c"
    and ok: "ds_ok ads' w' qs" and d: "dspath ads' = dspath ads" and e: "same_env w w'"
    and st: "entry_stream ads' w' (clsock n) (filename n) = entry_stream ads w (clsock n) (filename n)"
  shows "sending (fsys w') m ads' w' out"
proof -
  let ?s = "clsock n" and ?f = "filename n"
  obtain w0 r where w0: "fsys w0 = fsys w" and sb: "sb_ok (sesbuf n)" "fopt_ok (tftpmode n) (sesbuf n)"
      and rd: "ds_reads w0 (dspath ads) ?s ?f (ads, w) r"
      and out: "out = sb_pend (tftpmode n) (sesbuf n) @ wire_of (tftpmode n) r"
    using s by (auto simp: sending_def ses_sends_def)
  obtain ps pos c0 where ff: "fault_free w0" and fs: "fstep None w0 w" and f: "is_cstring ?f"
      and rg: "reading ads w ps ?s ?f pos"
      and c0: "fsys w0 (canon w0 (joined (dspath ads) ?f)) = Some (Regular c0)" and r: "r = drop pos c0"
    using rd by (auto simp: ds_reads_def)
  have cw: "canon w0 = canon w" and ff': "fault_free w'"
    using fs e ff same_env_fault_free by (auto simp: fstep_def same_env_def fault_free_def)
  have "c0 = c" using c0 g(1) q w0 cw by (simp add: guarded_def)
  have cw': "canon w' = canon w" using e by (simp add: same_env_def)
  have okw: "ds_ok ads w ps" using rg by (simp add: reading_def)
  have "ds_stream ads' w' qs ?s ?f = ds_stream ads w ps ?s ?f"
    using st ds_stream_entry [OF ok] ds_stream_entry [OF okw] by simp
  then have "reading ads' w' qs ?s ?f pos"
    using rg ok d cw' by (simp add: reading_def)
  moreover have "fsys w' (canon w' (joined (dspath ads) ?f)) = Some (Regular c)"
    using g(2) q cw' by (simp add: guarded_def)
  ultimately have "ds_reads w' (dspath ads') ?s ?f (ads', w') r"
    using ff' f d r \<open>c0 = c\<close> by (auto simp: ds_reads_def)
  moreover have "x (strip m) = x (strip n)" for x :: "session \<Rightarrow> 'x" using m by simp
  note this [of clsock] this [of filename] this [of sesbuf] this [of tftpmode]
  then have "clsock m = ?s" "filename m = ?f" "sesbuf m = sesbuf n" "tftpmode m = tftpmode n"
    using m by (simp_all add: strip_def)
  ultimately show ?thesis using sb out unfolding sending_def ses_sends_def by (intro exI [of _ w']) auto
qed

text \<open>The download of the file \<open>f\<close>, whose path is \<open>q\<close> and contents \<open>c\<close>; nothing has it open for
  writing.\<close>

definition downloading ::
    "string \<Rightarrow> bytes \<Rightarrow> string \<Rightarrow> service \<Rightarrow> saddr \<Rightarrow> int \<Rightarrow> u16 \<Rightarrow> bytes option \<Rightarrow> bool" where
  "downloading q c f v from s b rest \<longleftrightarrow> beside v from s f \<and> guarded (v_world v) q c \<and>
     q = canon (v_world v) (joined (dspath (tads (v_ins v))) f) \<and> fetching (fsys (v_world v)) v from s b rest"

lemma svc_step_guarded: "\<lbrakk>svc_step S k v v'; guarded (v_world v) q c\<rbrakk> \<Longrightarrow> guarded (v_world v') q c"
  by (simp add: svc_step_def untouched_def)

lemma svc_step_path:
  "svc_step S k v v' \<Longrightarrow>
   canon (v_world v') (joined (dspath (tads (v_ins v'))) f) = canon (v_world v) (joined (dspath (tads (v_ins v))) f)"
  by (simp add: svc_step_def same_env_def)

lemma svc_step_session:
  assumes st: "svc_step S k v v'" and k: "k \<noteq> from" and wf: "tab_wf (v_ins v) ps" and a: "a \<in> set ps"
    and n: "sheap (v_ins v) a = Some n" "ses_key n = from"
  obtains ps' a' n' where "tab_wf (v_ins v') ps'" "a' \<in> set ps'" "sheap (v_ins v') a' = Some n'" "strip n' = strip n"
proof -
  obtain ps' where ps': "tab_wf (v_ins v') ps'"
      "\<forall>k'. k' \<noteq> k \<longrightarrow> ses_view (v_ins v') ps' k' = ses_view (v_ins v) ps k'"
    using svc_step_view [OF st wf] by blast
  have "ses_view (v_ins v') ps' from = Some (strip n)" using ps'(2) k ses_view_mem [OF wf a n(1)] n(2) by metis
  then show thesis using ses_view_node [OF _ ps'(1)] that ps'(1) by metis
qed

lemma fetching_beside:
  assumes d: "downloading q c f v from s b rest" and k: "k \<noteq> from" and st: "svc_step {s} k v v'"
  shows "fetching (fsys (v_world v')) v' from s b rest"
proof -
  let ?w = "v_world v" and ?w' = "v_world v'"
  from d have b: "beside v from s f" and g: "guarded ?w q c" "q = canon ?w (joined (dspath (tads (v_ins v))) f)"
    and "fetching (fsys ?w) v from s b rest" unfolding downloading_def by blast+
  then obtain ps a n where t: "talks v ps a n from s" and bn: "blknum n = b"
      and sd: "case rest of Some out \<Rightarrow> \<not> fin n \<and> sending (fsys ?w) n (tads (v_ins v)) ?w out
        | None \<Rightarrow> fin n \<and> ses_closed (fsys ?w) n (tads (v_ins v)) ?w"
    unfolding fetching_def by blast
  have n: "tab_wf (v_ins v) ps" "a \<in> set ps" "sheap (v_ins v) a = Some n" "ses_key n = from" "clsock n = s"
      "\<not> disabled n" "filename n = f"
    using t b by (auto simp: talks_def speaks_def ses_key_def beside_def)
  obtain ps' a' m where m: "tab_wf (v_ins v') ps'" "a' \<in> set ps'" "sheap (v_ins v') a' = Some m" "strip m = strip n"
    by (rule svc_step_session [OF st k n(1-4)])
  have x: "x (strip m) = x (strip n)" for x :: "session \<Rightarrow> 'x" using m(4) by simp
  have e: "clip m = clip n" "clport m = clport n" "clsock m = s" "blknum m = b" "fin m = fin n" "\<not> disabled m"
      "filename m = filename n"
    using x [of clip] x [of clport] x [of clsock] x [of blknum] x [of fin] x [of disabled] x [of filename] n(5,6) bn
    by (simp_all add: strip_def)
  have v': "svc_inv v'" "same_env ?w ?w'" "dspath (tads (v_ins v')) = dspath (tads (v_ins v))"
      "entry_stream (tads (v_ins v')) ?w' s f = entry_stream (tads (v_ins v)) ?w s f"
    using st by (simp_all add: svc_step_def)
  obtain qs where qs: "ds_ok (tads (v_ins v')) ?w' qs" using v'(1) unfolding svc_inv_def by blast
  have "calm v'"
    using t v'(1,2) same_env_fault_free by (auto simp: talks_def calm_def svc_inv_def)
  moreover have "map_of (socks ?w') s \<noteq> None" using beside_step [OF b st] by (simp add: beside_def)
  ultimately have t': "talks v' ps' a' m from s"
    using m e t by (simp add: talks_def speaks_def)
  have es: "entry_stream (tads (v_ins v')) ?w' (clsock n) (filename n) = entry_stream (tads (v_ins v)) ?w (clsock n) (filename n)"
    using v'(4) n(5,7) by simp
  have "case rest of Some out \<Rightarrow> \<not> fin m \<and> sending (fsys ?w') m (tads (v_ins v')) ?w' out
      | None \<Rightarrow> fin m \<and> ses_closed (fsys ?w') m (tads (v_ins v')) ?w'"
  proof (cases rest)
    case None
    then obtain ps0 where "ds_ok (tads (v_ins v)) ?w ps0" "ds_stream (tads (v_ins v)) ?w ps0 s f = None" "fin n"
      using sd n(5,7) by (auto simp: ses_closed_def)
    then have "ds_stream (tads (v_ins v')) ?w' qs s f = None" "fin m"
      using ds_stream_entry v'(4) qs e(5) by simp_all
    with None qs e(3,7) n(7) show ?thesis by (auto simp: ses_closed_def)
  next
    case (Some out)
    then have "sending (fsys ?w') m (tads (v_ins v')) ?w' out"
      using sending_beside [OF _ m(4) _ g(1) svc_step_guarded [OF st g(1)] qs v'(3,2) es] sd g(2) n(7) by simp
    with Some sd e(5) show ?thesis by simp
  qed
  with t' e(4) show ?thesis unfolding fetching_def by blast
qed

text \<open>The datagrams sent to the client.\<close>

definition to_client :: "saddr \<Rightarrow> world \<Rightarrow> dgram list" where
  "to_client from w = filter (\<lambda>g. dg_to g = from) (sent w)"

lemma to_client_other:
  assumes "svc_step S k v v'" and "k \<noteq> from"
  shows "to_client from (v_world v') = to_client from (v_world v)"
proof -
  obtain new where "sent (v_world v') = sent (v_world v) @ new" "\<forall>g \<in> set new. dg_to g = k"
    using assms(1) by (auto simp: svc_step_def)
  with assms(2) show ?thesis by (auto simp: to_client_def filter_empty_conv)
qed

lemma downloading_other:
  assumes d: "downloading q c f v from s b rest" and k: "k \<noteq> from" and r: "serve_dgram v (fd, k, bs) = Inr v'"
  shows "downloading q c f v' from s b rest" and "to_client from (v_world v') = to_client from (v_world v)"
proof -
  have b: "beside v from s f" using d by (simp add: downloading_def)
  have st: "svc_step {s} k v v'" by (rule serve_other_step [OF b k r])
  show "downloading q c f v' from s b rest"
    using d fetching_beside [OF d k st] beside_step [OF b st] svc_step_guarded [OF st] svc_step_path [OF st, of f]
    unfolding downloading_def by metis
  show "to_client from (v_world v') = to_client from (v_world v)" by (rule to_client_other [OF st k])
qed

section \<open>The blocks, one by one\<close>

lemma fetching_files: "fetching F v from s b rest \<Longrightarrow> fsys (v_world v) = F"
  by (auto simp: fetching_def sending_def ses_sends_def ds_reads_def ses_closed_def split: option.splits)

lemma downloading_own:
  assumes d: "downloading q c f v from s b rest" and r: "serve_dgram v (fd, k, bs) = Inr v'"
    and f: "fetching F v' from s b' rest'"
  shows "downloading q c f v' from s b' rest'"
proof -
  have b: "beside v from s f" using d by (simp add: downloading_def)
  have st: "svc_step {} k v v'" by (rule serve_own_step [OF b r])
  show ?thesis
    using d f fetching_files [OF f] beside_step [OF b st] svc_step_guarded [OF st] svc_step_path [OF st, of f]
    unfolding downloading_def by metis
qed

lemma to_client_own:
  "sent w' = sent w @ [\<lparr>dg_sock = s, dg_to = from, dg_bytes = m\<rparr>] \<Longrightarrow>
   to_client from w' = to_client from w @ [\<lparr>dg_sock = s, dg_to = from, dg_bytes = m\<rparr>]"
  by (simp add: to_client_def)

lemma downloading_ack:
  assumes d: "downloading q c f v from s b (Some out)" and ip: "length (fst from) < IPADDRLEN_MAX"
    and r: "serve_dgram v (fd, from, enc_ack \<lparr>ak_blknum = b\<rparr>) = Inr v'"
  shows "downloading q c f v' from s (b + 1) (after_block out)"
    and "to_client from (v_world v') = to_client from (v_world v) @
      [\<lparr>dg_sock = s, dg_to = from, dg_bytes = enc_data \<lparr>dt_blknum = b + 1, dt_data = take TFTP_DATALEN_MAX out\<rparr>\<rparr>]"
proof -
  have "fetching (fsys (v_world v)) v from s b (Some out)" using d by (simp add: downloading_def)
  from serve_ack [OF this ip, of fd] r have "fetching (fsys (v_world v)) v' from s (b + 1) (after_block out)"
    and st: "sent (v_world v') = sent (v_world v) @
      [\<lparr>dg_sock = s, dg_to = from, dg_bytes = enc_data \<lparr>dt_blknum = b + 1, dt_data = take TFTP_DATALEN_MAX out\<rparr>\<rparr>]"
    by auto
  then show "downloading q c f v' from s (b + 1) (after_block out)" by (intro downloading_own [OF d r])
  show "to_client from (v_world v') = to_client from (v_world v) @
      [\<lparr>dg_sock = s, dg_to = from, dg_bytes = enc_data \<lparr>dt_blknum = b + 1, dt_data = take TFTP_DATALEN_MAX out\<rparr>\<rparr>]"
    by (rule to_client_own [OF st])
qed

text \<open>When the transfer is over.\<close>

definition downloaded :: "string \<Rightarrow> bytes \<Rightarrow> string \<Rightarrow> service \<Rightarrow> saddr \<Rightarrow> int \<Rightarrow> bool" where
  "downloaded q c f v from s \<longleftrightarrow> beside v from s f \<and> guarded (v_world v) q c \<and> session_over v from"

lemma downloading_last_ack:
  assumes d: "downloading q c f v from s b None" and ip: "length (fst from) < IPADDRLEN_MAX"
    and r: "serve_dgram v (fd, from, enc_ack \<lparr>ak_blknum = b\<rparr>) = Inr v'"
  shows "downloaded q c f v' from s" and "to_client from (v_world v') = to_client from (v_world v)"
proof -
  have f: "fetching (fsys (v_world v)) v from s b None" and b: "beside v from s f"
    using d by (simp_all add: downloading_def)
  have st: "svc_step {} from v v'" by (rule serve_own_step [OF b r])
  have "session_over v' from" and "sent (v_world v') = sent (v_world v)"
    using serve_last_ack [OF f ip, of fd] r by (auto simp: session_over_def)
  then show "downloaded q c f v' from s" "to_client from (v_world v') = to_client from (v_world v)"
    using d beside_step [OF b st] svc_step_guarded [OF st] unfolding downloaded_def downloading_def
    by (blast, simp add: to_client_def)
qed

lemma session_over_other:
  assumes o: "session_over v from" and i: "svc_inv v" and st: "svc_step S k v v'" and k: "k \<noteq> from"
  shows "session_over v' from"
proof -
  obtain ps where wf: "tab_wf (v_ins v) ps" using i unfolding svc_inv_def by blast
  obtain a n where n: "a \<in> set ps" "sheap (v_ins v) a = Some n" "ses_key n = from" "disabled n"
    using o wf
    by (cases rule: get_session_cases [OF wf, where ip = "fst from" and port = "snd from"])
      (auto simp: session_over_def ses_key_def)
  obtain ps' a' m where m: "tab_wf (v_ins v') ps'" "a' \<in> set ps'" "sheap (v_ins v') a' = Some m" "strip m = strip n"
    by (rule svc_step_session [OF st k wf n(1-3)])
  have x: "x (strip m) = x (strip n)" for x :: "session \<Rightarrow> 'x" using m(4) by simp
  have "clip m = fst from" "clport m = snd from" "disabled m"
    using x [of clip] x [of clport] x [of disabled] n(3,4) by (auto simp: strip_def ses_key_def)
  then show ?thesis using get_session_found [OF m(1-3)] m(3) by (auto simp: session_over_def)
qed

lemma downloaded_other:
  assumes d: "downloaded q c f v from s" and k: "k \<noteq> from" and r: "serve_dgram v (fd, k, bs) = Inr v'"
  shows "downloaded q c f v' from s" and "to_client from (v_world v') = to_client from (v_world v)"
proof -
  have b: "beside v from s f" and o: "session_over v from" and i: "svc_inv v"
    using d by (simp_all add: downloaded_def beside_def)
  have st: "svc_step {s} k v v'" by (rule serve_other_step [OF b k r])
  show "downloaded q c f v' from s"
    using d beside_step [OF b st] svc_step_guarded [OF st] session_over_other [OF o i st k]
    unfolding downloaded_def by blast
  show "to_client from (v_world v') = to_client from (v_world v)" by (rule to_client_other [OF st k])
qed

section \<open>Datagrams of several clients\<close>

abbreviation from_client :: "saddr \<Rightarrow> arrival list \<Rightarrow> arrival list" where
  "from_client k ds \<equiv> filter (\<lambda>(_, from, _). from = k) ds"

lemma serve_all_others:
  assumes "downloaded q c f v from s" and "serve_all v ds = Inr v'" and "from_client from ds = []"
  shows "downloaded q c f v' from s \<and> to_client from (v_world v') = to_client from (v_world v)"
  using assms
proof (induction ds arbitrary: v)
  case (Cons d ds)
  obtain fd k bs where d: "d = (fd, k, bs)" by (cases d) auto
  obtain v1 where v1: "serve_dgram v (fd, k, bs) = Inr v1" "serve_all v1 ds = Inr v'"
    using Cons.prems(2) unfolding d by (auto simp: ebind_Inr_iff)
  have "k \<noteq> from" and o: "from_client from ds = []" using Cons.prems(3) by (auto simp: d split: if_splits)
  from downloaded_other [OF Cons.prems(1) this(1) v1(1)] Cons.IH [OF _ v1(2) o] show ?case by simp
qed simp

lemma serve_all_beside:
  assumes "downloading q c f v from s b (after_block out)" and "serve_all v ds = Inr v'"
    and "from_client from ds = ack_arrivals s from b (length out div TFTP_DATALEN_MAX + 1)"
    and ip: "length (fst from) < IPADDRLEN_MAX"
  shows "downloaded q c f v' from s \<and> to_client from (v_world v') = to_client from (v_world v) @
    data_dgrams s from (b + 1) (tl (blocks_of TFTP_DATALEN_MAX (length out div TFTP_DATALEN_MAX + 1) out))"
  using assms(1-3)
proof (induction ds arbitrary: v b out)
  case (Cons d ds)
  obtain fd k bs where d: "d = (fd, k, bs)" by (cases d) auto
  obtain v1 where v1: "serve_dgram v (fd, k, bs) = Inr v1" "serve_all v1 ds = Inr v'"
    using Cons.prems(2) unfolding d by (auto simp: ebind_Inr_iff)
  show ?case
  proof (cases "k = from")
    case False
    then have "from_client from ds = ack_arrivals s from b (length out div TFTP_DATALEN_MAX + 1)"
      using Cons.prems(3) by (simp add: d)
    from Cons.IH [OF _ v1(2) this] downloading_other [OF Cons.prems(1) False v1(1)] show ?thesis by simp
  next
    case True
    then have e: "bs = enc_ack \<lparr>ak_blknum = b\<rparr>"
      and tl: "from_client from ds = ack_arrivals s from (b + 1) (length out div TFTP_DATALEN_MAX)"
      using Cons.prems(3) by (simp_all add: d)
    note v1 = v1 [unfolded True e]
    show ?thesis
    proof (cases "TFTP_DATALEN_MAX \<le> length out")
      case False
      then have "downloading q c f v from s b None" and z: "length out div TFTP_DATALEN_MAX = 0"
        using Cons.prems(1) by (simp_all add: after_block_def)
      from downloading_last_ack [OF this(1) ip v1(1)] serve_all_others [OF _ v1(2)] tl z show ?thesis by simp
    next
      case True
      let ?o = "drop TFTP_DATALEN_MAX out"
      have k: "length out div TFTP_DATALEN_MAX = Suc (length ?o div TFTP_DATALEN_MAX)"
        using True by (simp add: le_div_geq)
      have "downloading q c f v from s b (Some ?o)" using Cons.prems(1) True by (simp add: after_block_def)
      from downloading_ack [OF this ip v1(1)] Cons.IH [OF _ v1(2), of "b + 1" ?o] tl k show ?thesis by simp
    qed
  qed
qed simp

section \<open>The download\<close>

lemma beside_start:
  assumes st: "svc_step {} k v v'" and o: "socks_ok (v_ins v) (v_world v)" and s: "map_of (socks (v_world v)) s = None"
    and ns: "new_sock from f s (v_ins v) (v_ins v')" and s': "map_of (socks (v_world v')) s \<noteq> None"
  shows "beside v' from s f"
proof -
  have "clsock n \<noteq> s" if "sheap (v_ins v) a = Some n" for a n
    using that o s ns unfolding socks_ok_def new_sock_def by metis
  then have "\<forall>a m. sheap (v_ins v') a = Some m \<longrightarrow> clsock m = s \<longrightarrow> ses_key m = from \<and> filename m = f"
    using ns unfolding new_sock_def by metis
  then show ?thesis using st ns s' by (simp add: beside_def svc_step_def new_sock_def)
qed

lemma download_starts:
  assumes q: "may_request v fd from r" and op: "rq_opcode r = OP_RRQ" and g: "guarded (v_world v) (file_of v r) c"
  defines "out \<equiv> wire_of (mode_of (rq_mode r)) c"
  shows "\<exists>v' s. serve_dgram v (fd, from, enc_req r) = Inr v' \<and> map_of (socks (v_world v)) s = None \<and>
    downloading (file_of v r) c (rq_filename r) v' from s 1 (after_block out) \<and>
    to_client from (v_world v') = to_client from (v_world v) @
      [\<lparr>dg_sock = s, dg_to = from, dg_bytes = enc_data \<lparr>dt_blknum = 1, dt_data = take TFTP_DATALEN_MAX out\<rparr>\<rparr>]"
proof -
  obtain ps qs where a: "calm v" "tab_wf (v_ins v) ps" "ses_view (v_ins v) ps from = None"
      "ds_ok (tads (v_ins v)) (v_world v) qs" "socks_ok (v_ins v) (v_world v)"
      "length (fst from) < IPADDRLEN_MAX" "req_wf r" "10 \<le> length (enc_req r)"
      "map_of (socks (v_world v)) fd \<noteq> None" "distinct (map fst (socks (v_world v)))"
    by (rule may_requestE [OF q])
  have c: "fsys (v_world v) (file_of v r) = Some (Regular c)" using g by (simp add: guarded_def)
  obtain v' s where v': "serve_dgram v (fd, from, enc_req r) = Inr v'"
      "fetching (fsys (v_world v)) v' from s 1 (after_block out)" "map_of (socks (v_world v)) s = None"
      "new_sock from (rq_filename r) s (v_ins v) (v_ins v')" "sent (v_world v') = sent (v_world v) @
      [\<lparr>dg_sock = s, dg_to = from, dg_bytes = enc_data \<lparr>dt_blknum = 1, dt_data = take TFTP_DATALEN_MAX out\<rparr>\<rparr>]"
    unfolding out_def using serve_rrq [OF a(1,2,3,6,4,5,7,8) op a(9,10) c] by blast
  have i: "svc_inv v" using q reachable_inv by (simp add: may_request_def)
  have st: "svc_step {} from v v'"
    using safely_InrD [OF serve_dgram_step [where S = "{}", OF i shielded_empty] v'(1)] .
  have "map_of (socks (v_world v')) s \<noteq> None"
    using v'(2) by (auto simp: fetching_def talks_def)
  then have "beside v' from s (rq_filename r)" by (rule beside_start [OF st a(5) v'(3,4)])
  then have "downloading (file_of v r) c (rq_filename r) v' from s 1 (after_block out)"
    using v'(2) svc_step_guarded [OF st g] svc_step_path [OF st, of "rq_filename r"] fetching_files [OF v'(2)]
    by (simp add: downloading_def)
  with v'(1,3) to_client_own [OF v'(5)] show ?thesis by blast
qed

text \<open>C3: a download while the server works for others. In any state the server can reach,
  without failing calls, a client without a session requests a file that nothing
  has open for writing and acknowledges each block; between its datagrams come any datagrams of
  any other clients, requests for the same file and uploads of other files among them. If the
  server gets through them, the client has been sent the blocks of the file, in order, each once,
  and nothing else; its session is over and the file is what it was.\<close>

theorem download_amid_others:
  assumes "may_request v fd from r" and "rq_opcode r = OP_RRQ" and "guarded (v_world v) (file_of v r) c"
  shows "\<exists>v1 s bss. serve_dgram v (fd, from, enc_req r) = Inr v1 \<and> map_of (socks (v_world v)) s = None \<and>
    concat bss = wire_of (mode_of (rq_mode r)) c \<and>
    (\<forall>i < length bss - 1. length (bss ! i) = TFTP_DATALEN_MAX) \<and> bss \<noteq> [] \<and> length (last bss) < TFTP_DATALEN_MAX \<and>
    (\<forall>ds v'. serve_all v1 ds = Inr v' \<longrightarrow> from_client from ds = ack_arrivals s from 1 (length bss) \<longrightarrow>
       to_client from (v_world v') = to_client from (v_world v) @ data_dgrams s from 1 bss \<and>
       session_over v' from \<and> fsys (v_world v') (file_of v r) = Some (Regular c))"
proof -
  let ?out = "wire_of (mode_of (rq_mode r)) c"
  let ?bss = "blocks_of TFTP_DATALEN_MAX (length ?out div TFTP_DATALEN_MAX + 1) ?out"
  obtain v1 s where v1: "serve_dgram v (fd, from, enc_req r) = Inr v1" "map_of (socks (v_world v)) s = None"
      "downloading (file_of v r) c (rq_filename r) v1 from s 1 (after_block ?out)"
      "to_client from (v_world v1) = to_client from (v_world v) @
      [\<lparr>dg_sock = s, dg_to = from, dg_bytes = enc_data \<lparr>dt_blknum = 1, dt_data = take TFTP_DATALEN_MAX ?out\<rparr>\<rparr>]"
    using download_starts [OF assms] by blast
  have ip: "length (fst from) < IPADDRLEN_MAX" using assms(1) by (simp add: may_request_def)
  have l: "length ?bss = length ?out div TFTP_DATALEN_MAX + 1" by (simp only: length_blocks_of)
  have "to_client from (v_world v') = to_client from (v_world v) @ data_dgrams s from 1 ?bss \<and>
       session_over v' from \<and> fsys (v_world v') (file_of v r) = Some (Regular c)"
    if "serve_all v1 ds = Inr v'" "from_client from ds = ack_arrivals s from 1 (length ?bss)" for ds v'
    using serve_all_beside [OF v1(3) that(1) that(2) [unfolded l] ip] v1(4)
    by (simp add: downloaded_def guarded_def)
  moreover have "concat ?bss = ?out" "length (last ?bss) < TFTP_DATALEN_MAX"
    "\<forall>i < length ?bss - 1. length (?bss ! i) = TFTP_DATALEN_MAX"
    using blocks_of_transfer [where n = TFTP_DATALEN_MAX and bs = ?out] by (simp_all del: blocks_of.simps)
  moreover have "?bss \<noteq> []" by simp
  ultimately show ?thesis using v1(1,2) by (intro exI [of _ v1] exI [of _ s] exI [of _ ?bss]) simp
qed

text \<open>Between the request and the acknowledgement a client without a session sends DATA, and is
  answered.\<close>

lemma serve_unknown_data:
  assumes v: "calm v" and wf: "tab_wf (v_ins v) ps" and new: "ses_view (v_ins v) ps k = None"
    and fd: "map_of (socks (v_world v)) fd \<noteq> None" and ip: "length (fst k) < IPADDRLEN_MAX"
    and bs: "length (put_be16 OP_DATA @ t) \<le> NWBUF_SIZE"
  shows "\<exists>v'. serve_dgram v (fd, k, put_be16 OP_DATA @ t) = Inr v'"
proof -
  let ?bs = "put_be16 OP_DATA @ t"
  let ?buf = "?bs @ drop (length ?bs) (v_rbuf v)"
  have c: "fault_free (v_world v)" "length (v_rbuf v) = NWBUF_SIZE" "length (si_msgbuf (v_si v)) = TFTP_MSGLEN_MAX"
    using v by (simp_all add: calm_def)
  have o: "ntohs_at ?buf 0 = Inr OP_DATA" unfolding append_assoc by (rule ntohs_hd)
  have new': "ses_view (v_ins v) ps (fst k, snd k) = None" using new by simp
  obtain si' where r: "tftp_proc (v_ins v) fd (fst k) (snd k) ?buf (length ?bs) (v_si v) (received v) =
      Inr (True, v_ins v, si', received v)" "si_ses si' = None" "says si' (reply_error TFTP_ERR_UNKNOWNID)"
    using tftp_proc_unknown [OF wf new' c(3) o] by blast
  let ?v = "v\<lparr>v_rbuf := ?buf, v_ins := v_ins v, v_si := si', v_world := received v\<rparr>"
  have "\<exists>w'. send_reply fd k ?v = Inr (?v\<lparr>v_world := w'\<rparr>) \<and>
    w' = (v_world ?v)\<lparr>tick := Suc (tick (v_world ?v)), sent := sent (v_world ?v) @
      [\<lparr>dg_sock = fd, dg_to = k, dg_bytes = reply_error TFTP_ERR_UNKNOWNID\<rparr>]\<rparr>"
    by (rule send_reply_says) (use r c fd in \<open>simp_all add: reply_socket_def\<close>)
  moreover have "serve_dgram v (fd, k, ?bs) = send_reply fd k ?v"
    unfolding serve_dgram_calls [OF c(1) ip bs c(2)] r(1) by simp
  ultimately show ?thesis by metis
qed

text \<open>The client 10.0.0.9 has requested the file \<open>f\<close>, then 10.0.0.8 sends DATA.\<close>

abbreviation demo_rrq :: tftpreq where
  "demo_rrq \<equiv> \<lparr>rq_opcode = OP_RRQ, rq_filename = ''f'', rq_mode = ''octet''\<rparr>"

lemma demo_two_clients:
  obtains v1 v2 s where
    "serve_dgram (demo_files [(''/d/f'', ''abc'')]) (3, (''10.0.0.9'', 1000), enc_req demo_rrq) = Inr v1"
    "serve_dgram v1 (3, (''10.0.0.8'', 7), put_be16 OP_DATA @ ''xy'') = Inr v2"
    "downloading ''/d/f'' ''abc'' ''f'' v1 (''10.0.0.9'', 1000) s 1 None"
    "downloading ''/d/f'' ''abc'' ''f'' v2 (''10.0.0.9'', 1000) s 1 None" "reachable v1"
proof -
  let ?k = "(''10.0.0.9'', 1000)" and ?v = "demo_files [(''/d/f'', ''abc'')]"
  have q: "may_request ?v 3 ?k demo_rrq" using demo_may_request [of _ OP_RRQ "''octet''"] by simp
  have m: "wire_of (mode_of ''octet'') x = x" for x by (simp add: mode_of_def is_netascii_def wire_of_def)
  have f: "canon (v_world ?v) (joined (dspath (tads (v_ins ?v))) ''f'') = ''/d/f''" by (simp add: demo_files_def)
  have g: "guarded (v_world ?v) (file_of ?v demo_rrq) ''abc''" by (simp add: guarded_def demo_files_def)
  obtain v1 s where v1: "serve_dgram ?v (3, ?k, enc_req demo_rrq) = Inr v1"
      "downloading ''/d/f'' ''abc'' ''f'' v1 ?k s 1 None"
    using download_starts [OF q _ g, unfolded tftpreq.select_convs m f, OF refl] by (auto simp: after_block_def)
  have r: "reachable ?v" using q by (simp add: may_request_def)
  have st: "svc_step {} ?k ?v v1"
    by (rule safely_InrD [OF serve_dgram_step [OF reachable_inv [OF r] shielded_empty] v1(1)])
  have wf: "tab_wf (v_ins ?v) []" and sk: "map_of (socks (v_world ?v)) 3 = Some (''10.0.0.1'', 69)"
    by (simp_all add: demo_files_def)
  obtain ps where "tab_wf (v_ins v1) ps" "\<forall>k'. k' \<noteq> ?k \<longrightarrow> ses_view (v_ins v1) ps k' = ses_view (v_ins ?v) [] k'"
    using svc_step_view [OF st wf] by blast
  then have ps: "tab_wf (v_ins v1) ps" "ses_view (v_ins v1) ps (''10.0.0.8'', 7) = None" by (simp_all add: ses_view_def)
  have "calm v1" using v1(2) by (auto simp: downloading_def fetching_def talks_def)
  then obtain v2 where v2: "serve_dgram v1 (3, (''10.0.0.8'', 7), put_be16 OP_DATA @ ''xy'') = Inr v2"
    using serve_unknown_data [OF _ ps, of 3 "''xy''"] svc_step_socks [OF st sk] by auto
  have "downloading ''/d/f'' ''abc'' ''f'' v2 ?k s 1 None" by (rule downloading_other(1) [OF v1(2) _ v2]) simp
  then show thesis using that v1 v2 reachable.dgram [OF r v1(1)] by blast
qed

theorem serve_dgram_isolates_clients_witness:
  "\<exists>v v' ps ps' n. serve_dgram v (3, (''10.0.0.8'', 7), put_be16 OP_DATA @ ''xy'') = Inr v' \<and>
    ses_view (v_ins v) ps (''10.0.0.9'', 1000) = Some n \<and> ses_view (v_ins v') ps' (''10.0.0.9'', 1000) = Some n"
proof -
  obtain v1 v2 s where v: "serve_dgram v1 (3, (''10.0.0.8'', 7), put_be16 OP_DATA @ ''xy'') = Inr v2"
      "downloading ''/d/f'' ''abc'' ''f'' v1 (''10.0.0.9'', 1000) s 1 None" "reachable v1"
    by (rule demo_two_clients)
  obtain ps ps' where p: "tab_wf (v_ins v1) ps"
      "\<forall>k. k \<noteq> (''10.0.0.8'', 7) \<longrightarrow> ses_view (v_ins v2) ps' k = ses_view (v_ins v1) ps k"
    using serve_dgram_isolates_clients [OF v(3,1)] by blast
  obtain qs a n where n: "tab_wf (v_ins v1) qs" "a \<in> set qs" "sheap (v_ins v1) a = Some n" "ses_key n = (''10.0.0.9'', 1000)"
    using v(2) by (auto simp: downloading_def fetching_def talks_def speaks_def ses_key_def)
  have "qs = ps" by (rule dll_unique [OF tab_wfD(1) [OF n(1)] tab_wfD(1) [OF p(1)]])
  then have "ses_view (v_ins v1) ps (''10.0.0.9'', 1000) = Some (strip n)" using ses_view_mem [OF n(1-3)] n(4) by simp
  moreover from this p(2) have "ses_view (v_ins v2) ps' (''10.0.0.9'', 1000) = Some (strip n)" by simp
  ultimately show ?thesis using v(1) by blast
qed

theorem download_amid_others_witness:
  "\<exists>v1 s v'. serve_dgram (demo_files [(''/d/f'', ''abc'')]) (3, (''10.0.0.9'', 1000), enc_req demo_rrq) = Inr v1 \<and>
    serve_all v1 [(3, (''10.0.0.8'', 7), put_be16 OP_DATA @ ''xy''),
        (s, (''10.0.0.9'', 1000), enc_ack \<lparr>ak_blknum = 1\<rparr>)] = Inr v' \<and>
    to_client (''10.0.0.9'', 1000) (v_world v') = [\<lparr>dg_sock = s, dg_to = (''10.0.0.9'', 1000),
      dg_bytes = enc_data \<lparr>dt_blknum = 1, dt_data = ''abc''\<rparr>\<rparr>]"
proof -
  let ?k = "(''10.0.0.9'', 1000)" and ?v = "demo_files [(''/d/f'', ''abc'')]"
  let ?d = "(3, (''10.0.0.8'', 7), put_be16 OP_DATA @ ''xy'')"
  have q: "may_request ?v 3 ?k demo_rrq" using demo_may_request [of _ OP_RRQ "''octet''"] by simp
  have m: "wire_of (mode_of ''octet'') x = x" for x by (simp add: mode_of_def is_netascii_def wire_of_def)
  have g: "guarded (v_world ?v) (file_of ?v demo_rrq) ''abc''" by (simp add: guarded_def demo_files_def)
  obtain v1 s bss where v1: "serve_dgram ?v (3, ?k, enc_req demo_rrq) = Inr v1" "concat bss = ''abc''"
      "\<forall>i < length bss - 1. length (bss ! i) = TFTP_DATALEN_MAX" "bss \<noteq> []"
      "\<And>ds v'. serve_all v1 ds = Inr v' \<Longrightarrow> from_client ?k ds = ack_arrivals s ?k 1 (length bss) \<Longrightarrow>
         to_client ?k (v_world v') = to_client ?k (v_world ?v) @ data_dgrams s ?k 1 bss"
    using download_amid_others [OF q _ g] unfolding tftpreq.select_convs m by blast
  have b: "bss = [''abc'']"
  proof -
    obtain b bs where b: "bss = b # bs" using v1(4) by (cases bss) auto
    have "bs = []"
    proof (rule ccontr)
      assume "bs \<noteq> []"
      then have "length b = TFTP_DATALEN_MAX" using v1(3) b by (auto dest: spec [of _ 0])
      moreover have "length b \<le> length (concat bss)" by (simp add: b)
      ultimately show False using v1(2) by simp
    qed
    with v1(2) b show ?thesis by simp
  qed
  obtain v2 s1 where v2: "serve_dgram v1 ?d = Inr v2" "downloading ''/d/f'' ''abc'' ''f'' v2 ?k s1 1 None"
    by (rule demo_two_clients) (use v1(1) in simp)
  obtain v' where "serve_dgram v2 (s, ?k, enc_ack \<lparr>ak_blknum = 1\<rparr>) = Inr v'"
    using serve_last_ack [of _ v2 ?k s1 1 s] v2(2) by (auto simp: downloading_def)
  then have "serve_all v1 [?d, (s, ?k, enc_ack \<lparr>ak_blknum = 1\<rparr>)] = Inr v'" using v2(1) by simp
  with v1(5) [OF this] b v1(1) show ?thesis by (auto simp: to_client_def demo_files_def)
qed

end
