(* ===== verification/Status.thy ===== *)
theory Status
  imports Iw_Prelude
begin

text \<open>
  The status messages of the four modules and how \<open>pmsg\<close> makes the text of one: the enumerations of
  status codes, the tables of formats, and \<open>vsnprintf\<close> for the conversions the formats
  use, \<open>%s\<close> and \<open>%d\<close>, and in a \<open>DEBUG\<close> build \<open>%u\<close> and \<open>%p\<close>. The entries under \<open>DEBUG\<close> are in
  the theory \<open>Debug_Output\<close>.
\<close>

section \<open>Formats\<close>

text \<open>What is passed: a string, an integer, or a pointer, given by the text \<open>%p\<close> makes of it, which
  the C library chooses.\<close>

datatype farg = Str string | Num int | Ptr string

fun show_nat :: "nat \<Rightarrow> string" where
  "show_nat n = (if n < 10 then [char_of (48 + n)] else show_nat (n div 10) @ [char_of (48 + n mod 10)])"

declare show_nat.simps [simp del]

definition show_int :: "int \<Rightarrow> string" where
  "show_int i = (if i < 0 then CHR ''-'' # show_nat (nat (- i)) else show_nat (nat i))"

text \<open>A conversion without a matching argument is undefined behaviour.\<close>

fun expand :: "string \<Rightarrow> farg list \<Rightarrow> fault + string" where
  "expand [] args = Inr []"
| "expand [c] args = Inr [c]"
| "expand (c # d # cs) args =
     (if c \<noteq> CHR 0x25 then ebind (expand (d # cs) args) (\<lambda>t. Inr (c # t))
      else if d = CHR ''s'' then
        (case args of Str s # args \<Rightarrow> ebind (expand cs args) (\<lambda>t. Inr (s @ t)) | _ \<Rightarrow> Inl Uninitialised)
      else if d = CHR ''d'' then
        (case args of Num i # args \<Rightarrow> ebind (expand cs args) (\<lambda>t. Inr (show_int i @ t)) | _ \<Rightarrow> Inl Uninitialised)
      else if d = CHR ''u'' then
        (case args of Num i # args \<Rightarrow> if i < 0 then Inl Uninitialised
                                      else ebind (expand cs args) (\<lambda>t. Inr (show_int i @ t))
         | _ \<Rightarrow> Inl Uninitialised)
      else if d = CHR ''p'' then
        (case args of Ptr s # args \<Rightarrow> ebind (expand cs args) (\<lambda>t. Inr (s @ t)) | _ \<Rightarrow> Inl Uninitialised)
      else ebind (expand (d # cs) args) (\<lambda>t. Inr (c # t)))"

text \<open>\<open>vsnprintf(buf + off, bufsize - off, fmt, args)\<close> for a buffer of \<open>bufsize\<close> bytes.\<close>

definition vsnprintf_at :: "bytes \<Rightarrow> nat \<Rightarrow> nat \<Rightarrow> string \<Rightarrow> farg list \<Rightarrow> fault + bytes" where
  "vsnprintf_at buf off bufsize fmt args =
     ebind (expand fmt args) (\<lambda>t. wr_bytes buf off (take (sz_sub bufsize off - 1) t @ [NUL]))"

section \<open>Tables\<close>

text \<open>A table is an array of codes and formats that ends with the code 0. The codes of an
  enumeration count up from its first one.\<close>

type_synonym status_tab = "(nat \<times> string) list"

abbreviation NEWLINE :: char where "NEWLINE \<equiv> CHR 0x0A"
abbreviation APOS :: char where "APOS \<equiv> CHR 0x27"

definition enum_code :: "nat \<Rightarrow> string list \<Rightarrow> string \<Rightarrow> nat" where
  "enum_code start names nm = start + length (takeWhile (\<lambda>x. x \<noteq> nm) names)"

definition status_tab :: "nat \<Rightarrow> string list \<Rightarrow> (string \<times> string) list \<Rightarrow> status_tab" where
  "status_tab start names es = map (\<lambda>(nm, m). (enum_code start names nm, m)) es @ [(0, [])]"

text \<open>\<open>while ((*pm).statcode > 0 && (*pm).statcode != statcode) pm++\<close>\<close>

fun find_status :: "status_tab \<Rightarrow> nat \<Rightarrow> fault + nat \<times> string" where
  "find_status [] code = Inl Out_of_bounds"
| "find_status ((c, m) # es) code = (if c > 0 \<and> c \<noteq> code then find_status es code else Inr (c, m))"

text \<open>The version is the one \<open>CMakeLists.txt\<close> passes.\<close>

definition PROGRAM_INFO :: string where
  "PROGRAM_INFO = ''iwtftpd'' @ '' v'' @ ''1.0''"

section \<open>\<open>logging.c\<close>\<close>

definition L_STATCODE :: "string list" where
  "L_STATCODE =
    [''E_FAIL_MALLOC'']"

definition iwlog_statmsgs :: status_tab where
  "iwlog_statmsgs = status_tab 1 L_STATCODE
    [(''E_FAIL_MALLOC'', ''error: failed memory allocation, %s'')]"

definition L_STATCODE_VERBOSE :: "string list" where
  "L_STATCODE_VERBOSE =
    [''EV_FAIL_CLOSE'', ''EV_FAIL_LOCALTIME'', ''EV_FAIL_OPEN'', ''EV_FAIL_STRFTIME'',
     ''EV_FAIL_WRITE'', ''EV_NULL_OBJ'']"

definition iwlog_statvmsgs :: status_tab where
  "iwlog_statvmsgs = status_tab 65 L_STATCODE_VERBOSE
    [(''EV_FAIL_CLOSE'', ''error: close: failed, 'fd=%d': %s''),
     (''EV_FAIL_LOCALTIME'', ''error: localtime_r: failed to convert: %s''),
     (''EV_FAIL_OPEN'', ''error: open: failed, '%s': %s''),
     (''EV_FAIL_STRFTIME'', ''error: strftime: failed to convert: %s''),
     (''EV_FAIL_WRITE'', ''error: write: failed write to log, fd=%d msglen=%d: %s''),
     (''EV_NULL_OBJ'', ''error: invalid object'')]"

section \<open>\<open>datastore.c\<close>\<close>

definition D_STATCODE :: "string list" where
  "D_STATCODE =
    [''E_DSPATH_INCORRECT'', ''E_FAIL_CHECKFILE'', ''E_FAIL_FREAD'', ''E_FAIL_FWRITE'',
     ''E_FAIL_MALLOC'', ''E_FILE_EXIST'', ''E_FILE_NOTEXIST'']"

definition iwds_statmsgs :: status_tab where
  "iwds_statmsgs = status_tab 1 D_STATCODE
    [(''E_DSPATH_INCORRECT'', ''error: datastore path '%s' is incorrect''),
     (''E_FAIL_CHECKFILE'', (''error: failed to check the file of datastore, '%s'' @ [APOS])),
     (''E_FAIL_FREAD'', (''error: failed to read from datastore, '%s'' @ [APOS])),
     (''E_FAIL_FWRITE'', (''error: failed to write to datastore, '%s'' @ [APOS])),
     (''E_FAIL_MALLOC'', ''error: failed memory allocation, %s''),
     (''E_FILE_EXIST'', ''error: '%s' already exists on datastore''),
     (''E_FILE_NOTEXIST'', ''error: '%s' does not exist on datastore'')]"

definition D_STATCODE_VERBOSE :: "string list" where
  "D_STATCODE_VERBOSE =
    [''EV_DSESSION_NOTFOUND'', ''EV_FAIL_ADD_DSESSION'', ''EV_FAIL_CREATE_DSESSION'',
     ''EV_FAIL_FCLOSE'', ''EV_FAIL_FOPEN'', ''EV_FAIL_JOIN_PATH'', ''EV_FAIL_REALPATH'',
     ''EV_NODSREQ'', ''EV_NULL_OBJ'']"

definition iwds_vmsgs :: "(string \<times> string) list" where
  "iwds_vmsgs =
    [(''EV_DSESSION_NOTFOUND'', (''error: datastore session not found, '%d', '%s'' @ [APOS])),
     (''EV_FAIL_ADD_DSESSION'', ''error: faild to add a datastore session''),
     (''EV_FAIL_CREATE_DSESSION'', (''error: could not create a new session of datastore, '%d', '%s'' @ [APOS])),
     (''EV_FAIL_FCLOSE'', ''error: fclose: failed, %s: %s''),
     (''EV_FAIL_FOPEN'', ''error: fopen: failed, '%s': %s''),
     (''EV_FAIL_JOIN_PATH'', (''error: failed to join path '%s' and '%s'' @ [APOS])),
     (''EV_FAIL_REALPATH'', ''error: realpath: failed to convert '%s': %s''),
     (''EV_NODSREQ'', ''error: request was not passed''),
     (''EV_NULL_OBJ'', ''error: invalid object'')]"

definition iwds_statvmsgs :: status_tab where
  "iwds_statvmsgs = status_tab 65 D_STATCODE_VERBOSE iwds_vmsgs"

section \<open>\<open>tftp.c\<close>\<close>

definition T_STATCODE :: "string list" where
  "T_STATCODE =
    [''E_DS_FAIL_READ'', ''E_DS_FAIL_WRITE'', ''E_DS_FAIL_CLOSE'', ''E_EVENT_NOTEXIST'',
     ''E_FAIL_ADDRCONVERT'', ''E_FAIL_CREATE_SOCKET'', ''E_FAIL_GET_IFADDRESS'', ''E_FAIL_LOADFILE'',
     ''E_FAIL_MAKEACK'', ''E_FAIL_MAKEERROR'', ''E_FAIL_MALLOC'', ''E_FAIL_RECV'', ''E_FAIL_RESEND'',
     ''E_FAIL_SAVEFILE'', ''E_FAIL_TFTP_PROC'', ''E_FAIL_UPDATE_EVENT'', ''E_IF_NOADDR'',
     ''E_IF_NOTFOUND'', ''E_SERVER_ERR'', ''I_FILE_EXIST'', ''I_FILE_NOTFOUND'',
     ''I_INVALID_BLKNUM'', ''I_INVALID_TFTPMSG'', ''I_TFTPACK_INCORRECT'', ''I_TFTPDATA_INCORRECT'',
     ''I_TFTPERROR_INCORRECT'', ''I_TFTPERROR_RECV'', ''I_TFTPREQ_GET'', ''I_TFTPREQ_INCORRECT'',
     ''I_TFTPREQ_PUT'', ''I_TFTPTRANS_FIN'']"

definition iwtftp_statmsgs :: status_tab where
  "iwtftp_statmsgs = status_tab 1 T_STATCODE
    [(''E_DS_FAIL_READ'', ''error: failed to read the data from datastore, %s''),
     (''E_DS_FAIL_WRITE'', ''error: failed to write the data to datastore, %s''),
     (''E_DS_FAIL_CLOSE'', ''error: failed to close the session on datastore, %s''),
     (''E_EVENT_NOTEXIST'', ''error: events nothing''),
     (''E_FAIL_ADDRCONVERT'', ''error: failed to convert ip address''),
     (''E_FAIL_CREATE_SOCKET'', ''error: failed to create socket, ipv%d, %s, %s''),
     (''E_FAIL_GET_IFADDRESS'', (''error: failed to get addresses of interface '%s'' @ [APOS])),
     (''E_FAIL_LOADFILE'', (''error: could not load the file, '%s'' @ [APOS])),
     (''E_FAIL_MAKEACK'', (''error: could not make TFTP ACK message, for '%s:%d'' @ [APOS])),
     (''E_FAIL_MAKEERROR'', (''error: could not make TFTP ERROR message, for '%s:%d'' @ [APOS])),
     (''E_FAIL_MALLOC'', ''error: failed memory allocation, %s''),
     (''E_FAIL_RECV'', ''error: failed to recv''),
     (''E_FAIL_RESEND'', (''error: failed to resend, to '%s:%d'' @ [APOS])),
     (''E_FAIL_SAVEFILE'', (''error: could not save the file, '%s'' @ [APOS])),
     (''E_FAIL_TFTP_PROC'', ''error: failed TFTP processing''),
     (''E_FAIL_UPDATE_EVENT'', ''error: error of updating events''),
     (''E_IF_NOADDR'', ''error: interface '%s' has no ipv%d address''),
     (''E_IF_NOTFOUND'', ''error: interface '%s' not found''),
     (''E_SERVER_ERR'', ''error: server error''),
     (''I_FILE_EXIST'', ''info: '%s' already exists''),
     (''I_FILE_NOTFOUND'', ''info: '%s' not found''),
     (''I_INVALID_BLKNUM'', (''info: invalid block number in TFTP %s message, from '%s:%d'' @ [APOS])),
     (''I_INVALID_TFTPMSG'', (''info: invalid TFTP %s message, from '%s:%d'' @ [APOS])),
     (''I_TFTPACK_INCORRECT'', (''info: incorrect TFTP ACK format, from '%s:%d'' @ [APOS])),
     (''I_TFTPDATA_INCORRECT'', (''info: incorrect TFTP DATA format, from '%s:%d'' @ [APOS])),
     (''I_TFTPERROR_INCORRECT'', (''info: incorrect TFTP ERROR format, from '%s:%d'' @ [APOS])),
     (''I_TFTPERROR_RECV'', (''info: received TFTP ERROR, code %d, %s, from '%s:%d'' @ [APOS])),
     (''I_TFTPREQ_GET'', (''info: get request '%s', by '%s:%d'' @ [APOS])),
     (''I_TFTPREQ_INCORRECT'', (''info: incorrect TFTP request format, from '%s:%d'' @ [APOS])),
     (''I_TFTPREQ_PUT'', (''info: put request '%s', by '%s:%d'' @ [APOS])),
     (''I_TFTPTRANS_FIN'', (''info: '%s' completed, with '%s:%d'' @ [APOS]))]"

definition T_STATCODE_VERBOSE :: "string list" where
  "T_STATCODE_VERBOSE =
    [''EV_BUF_TOOSHORT'', ''EV_ERRMSG_TOOLONG'', ''EV_FAIL_ADD_NEWSESSION'', ''EV_FAIL_BIND'',
     ''EV_FAIL_CREATE_SESSION'', ''EV_FAIL_EPOLL_CREATE'', ''EV_FAIL_EPOLL_CTL'',
     ''EV_FAIL_EPOLL_WAIT'', ''EV_FAIL_GETADDRINFO'', ''EV_FAIL_GETIFADDRS'',
     ''EV_FAIL_GETNAMEINFO'', ''EV_FAIL_GETSOCKNAME'', ''EV_FAIL_INET_NTOP'', ''EV_FAIL_RECVFROM'',
     ''EV_FAIL_SENDTO'', ''EV_FAIL_SETSOCKOPT'', ''EV_FAIL_SOCKET'', ''EV_NULL_OBJ'',
     ''EV_SESSION_NOTFOUND'', ''EV_FAIL_GET_SESBUF'', ''EV_FAIL_PUT_SESBUF'', ''IV_ACK_INCORRECT'',
     ''IV_DATA_INCORRECT'', ''IV_ERRMSG_INCORRECT'', ''IV_ERRORLEN_TOOSHORT'',
     ''IV_FILENAME_INCORRECT'', ''IV_MODE_INCORRECT'', ''IV_OPCODE_INCORRECT'',
     ''IV_REQLEN_TOOSHORT'', ''IV_UNKNOWN_MSG'']"

definition iwtftp_vmsgs :: "(string \<times> string) list" where
  "iwtftp_vmsgs =
    [(''EV_BUF_TOOSHORT'', ''error: buffer of %s has shortage''),
     (''EV_ERRMSG_TOOLONG'', ''error: TFTP error message is too long''),
     (''EV_FAIL_ADD_NEWSESSION'', (''error: failed to add the session, '%s:%d'' @ [APOS])),
     (''EV_FAIL_BIND'', ''error: bind: failed: %s''),
     (''EV_FAIL_CREATE_SESSION'', ''error: could not create a new session''),
     (''EV_FAIL_EPOLL_CREATE'', ''error: epoll_create: failed: %s''),
     (''EV_FAIL_EPOLL_CTL'', ''error: epoll_ctl: failed to %s event of '%s:%d': %s''),
     (''EV_FAIL_EPOLL_WAIT'', ''error: epoll_wait: failed: %s''),
     (''EV_FAIL_GETADDRINFO'', ''error: getaddrinfo: failed: %s''),
     (''EV_FAIL_GETIFADDRS'', ''error: getifaddrs: '%s': %s''),
     (''EV_FAIL_GETNAMEINFO'', ''error: getnameinfo: failed: %s''),
     (''EV_FAIL_GETSOCKNAME'', ''error: getsockname: failed: %s''),
     (''EV_FAIL_INET_NTOP'', ''error: inet_ntop: ipv%d '%s': %s''),
     (''EV_FAIL_RECVFROM'', ''error: recvfrom: failed: %s''),
     (''EV_FAIL_SENDTO'', ''error: sendto: failed to send to '%s:%d': %s''),
     (''EV_FAIL_SETSOCKOPT'', ''error: setsockopt: failed: %s''),
     (''EV_FAIL_SOCKET'', ''error: socket: failed to create a socket: %s''),
     (''EV_NULL_OBJ'', ''error: invalid object''),
     (''EV_SESSION_NOTFOUND'', (''error: session not found, '%s:%d'' @ [APOS])),
     (''EV_FAIL_GET_SESBUF'', (''error: failed to get the data from the session buffer, '%s:%d'' @ [APOS])),
     (''EV_FAIL_PUT_SESBUF'', (''error: failed to put the data to the session buffer, '%s:%d'' @ [APOS])),
     (''IV_ACK_INCORRECT'', ''info: ack filed is incorrect''),
     (''IV_DATA_INCORRECT'', ''info: data filed is too long''),
     (''IV_ERRMSG_INCORRECT'', ''info: errormsg filed is incorrect''),
     (''IV_ERRORLEN_TOOSHORT'', ''info: length of TFTP ERROR message is too short''),
     (''IV_FILENAME_INCORRECT'', ''info: filename field is incorrect''),
     (''IV_MODE_INCORRECT'', ''info: mode field is incorrect''),
     (''IV_OPCODE_INCORRECT'', ''info: opcode filed is incorrect''),
     (''IV_REQLEN_TOOSHORT'', ''info: length of TFTP request message is too short''),
     (''IV_UNKNOWN_MSG'', (''info: unknown message, from '%s:%d'' @ [APOS]))]"

definition iwtftp_statvmsgs :: status_tab where
  "iwtftp_statvmsgs = status_tab 65 T_STATCODE_VERBOSE iwtftp_vmsgs"

section \<open>\<open>iwtftpd.c\<close>\<close>

definition STATCODE :: "string list" where
  "STATCODE =
    [''E_DS_FAIL_INIT'', ''E_DS_FAIL_SETCHROOT'', ''E_FAIL_DAEMONIZE'', ''E_FAIL_EXEC_CHROOT'',
     ''E_FAIL_INIT_SIGNAL'', ''E_FAIL_MALLOC'', ''E_FAIL_SERVICE'', ''E_FAIL_SET_CREDENTIAL'',
     ''E_FATALERR'', ''E_LOG_FAIL_INIT'', ''E_LOG_MODERR'', ''E_OPTION_BAD'', ''E_TFTP_FAIL_INIT'',
     ''E_USER_UNKNOWN'', ''I_NOASROOT'', ''I_START_SERVER'', ''I_EXIT_SERVER'', ''I_SHOW_VER'']"

definition iwtftpd_statmsgs :: status_tab where
  "iwtftpd_statmsgs = status_tab 1 STATCODE
    [(''E_DS_FAIL_INIT'', ''error: iwds initialization failed''),
     (''E_DS_FAIL_SETCHROOT'', ''error: failed to set the root directory to datastore''),
     (''E_FAIL_DAEMONIZE'', ''error: could not start daemon''),
     (''E_FAIL_EXEC_CHROOT'', (''error: could not change the root directory to '%s'' @ [APOS])),
     (''E_FAIL_INIT_SIGNAL'', ''error: signal initialization failed''),
     (''E_FAIL_MALLOC'', ''error: failed memory allocation, %s''),
     (''E_FAIL_SERVICE'', ''error: failed to start the service''),
     (''E_FAIL_SET_CREDENTIAL'', (''error: could not change the credential to '%s'' @ [APOS])),
     (''E_FATALERR'', ''error: fatal error''),
     (''E_LOG_FAIL_INIT'', ''error: iwlog initialization failed''),
     (''E_LOG_MODERR'', ''error: iwlog module error''),
     (''E_OPTION_BAD'', ''error: bad option: '%s': %s''),
     (''E_TFTP_FAIL_INIT'', ''error: iwtftp initialization failed''),
     (''E_USER_UNKNOWN'', (''error: unknown user '%s'' @ [APOS])),
     (''I_NOASROOT'', ''info: must be run as root''),
     (''I_START_SERVER'', ''info: starting server''),
     (''I_EXIT_SERVER'', ''info: exiting server''),
     (''I_SHOW_VER'', PROGRAM_INFO)]"

definition STATCODE_VERBOSE :: "string list" where
  "STATCODE_VERBOSE =
    [''EV_FAIL_CHDIR'', ''EV_FAIL_CHROOT'', ''EV_FAIL_CREATE_SVCONF'', ''EV_FAIL_DUP2'',
     ''EV_FAIL_FORK'', ''EV_FAIL_INITGROUPS'', ''EV_FAIL_OPEN'', ''EV_FAIL_SETGID'',
     ''EV_FAIL_SETSID'', ''EV_FAIL_SETUID'', ''EV_FAIL_SIGACTION'']"

definition iwtftpd_statvmsgs :: status_tab where
  "iwtftpd_statvmsgs = status_tab 65 STATCODE_VERBOSE
    [(''EV_FAIL_CHDIR'', ''error: chdir: failed, '%s': %s''),
     (''EV_FAIL_CHROOT'', ''error: chroot: failed, '%s': %s''),
     (''EV_FAIL_CREATE_SVCONF'', ''error: could not create a configuration object''),
     (''EV_FAIL_DUP2'', ''error: dup2: failed to duplicate fd '%d': %s''),
     (''EV_FAIL_FORK'', ''error: fork: failed: %s''),
     (''EV_FAIL_INITGROUPS'', ''error: initgroups: failed, '%s': %s''),
     (''EV_FAIL_OPEN'', ''error: open: failed, '%s': %s''),
     (''EV_FAIL_SETGID'', ''error: setgid: failed, '%d': %s''),
     (''EV_FAIL_SETSID'', ''error: setsid: failed: %s''),
     (''EV_FAIL_SETUID'', ''error: setuid: failed, '%d': %s''),
     (''EV_FAIL_SIGACTION'', ''error: sigaction: failed to '%s' action: %s'')]"

section \<open>The text of a message\<close>

record status_mod =
  sm_msgs :: status_tab
  sm_vmsgs :: status_tab
  sm_prefix :: string

definition iwlog_status :: status_mod where
  "iwlog_status = \<lparr>sm_msgs = iwlog_statmsgs, sm_vmsgs = iwlog_statvmsgs, sm_prefix = ''[iwlog] ''\<rparr>"

definition iwds_status :: status_mod where
  "iwds_status = \<lparr>sm_msgs = iwds_statmsgs, sm_vmsgs = iwds_statvmsgs, sm_prefix = ''[iwds] ''\<rparr>"

definition iwtftp_status :: status_mod where
  "iwtftp_status = \<lparr>sm_msgs = iwtftp_statmsgs, sm_vmsgs = iwtftp_statvmsgs, sm_prefix = ''[iwtftp] ''\<rparr>"

definition iwtftpd_status :: status_mod where
  "iwtftpd_status = \<lparr>sm_msgs = iwtftpd_statmsgs, sm_vmsgs = iwtftpd_statvmsgs, sm_prefix = ''[main] ''\<rparr>"

abbreviation IW_LOGMSGLEN_MAX :: nat where "IW_LOGMSGLEN_MAX \<equiv> 256"

text \<open>The part all \<open>pmsg\<close> functions share, up to \<open>mlen = strlen(buf)\<close>; \<open>None\<close> when nothing is
  printed. \<open>buf\<close> is what the automatic buffer holds at the start.\<close>

definition pmsg_text :: "status_mod \<Rightarrow> bool \<Rightarrow> nat \<Rightarrow> farg list \<Rightarrow> bytes \<Rightarrow> fault + (bytes \<times> nat) option" where
  "pmsg_text m verbose statcode args buf =
     (if \<not> statcode < 64 \<and> \<not> verbose then Inr None
      else
       ebind (find_status (if statcode < 64 then sm_msgs m else sm_vmsgs m) statcode) (\<lambda>(c, msg).
       if c = 0 then Inr None
       else
        ebind (if statcode < 64 then vsnprintf_at buf 0 IW_LOGMSGLEN_MAX msg args
               else
                ebind (wr_bytes buf 0 (sm_prefix m @ [NUL])) (\<lambda>buf.
                vsnprintf_at buf (length (sm_prefix m)) IW_LOGMSGLEN_MAX msg args)) (\<lambda>buf.
        ebind (cstr_at buf 0) (\<lambda>s. Inr (Some (buf, length s))))))"

text \<open>The line for the standard error stream.\<close>

definition pmsg_line :: "bytes \<Rightarrow> nat \<Rightarrow> fault + string" where
  "pmsg_line buf mlen =
     ebind (if sz_sub IW_LOGMSGLEN_MAX mlen \<ge> 2
            then ebind (wr_byte buf mlen NEWLINE) (\<lambda>buf. wr_byte buf (mlen + 1) NUL)
            else wr_byte buf (mlen - 1) NEWLINE) (\<lambda>buf.
     cstr_at buf 0)"

section \<open>What the formats need\<close>

text \<open>The conversions of a format, and the arguments each takes.\<close>

datatype conv = C_s | C_d | C_u | C_p

fun conversions :: "string \<Rightarrow> conv list" where
  "conversions [] = []"
| "conversions [c] = []"
| "conversions (c # d # cs) =
     (if c \<noteq> CHR 0x25 then conversions (d # cs)
      else if d = CHR ''s'' then C_s # conversions cs
      else if d = CHR ''d'' then C_d # conversions cs
      else if d = CHR ''u'' then C_u # conversions cs
      else if d = CHR ''p'' then C_p # conversions cs
      else conversions (d # cs))"

fun takes :: "conv \<Rightarrow> farg \<Rightarrow> bool" where
  "takes C_s (Str s) = True"
| "takes C_d (Num i) = True"
| "takes C_u (Num i) = (0 \<le> i)"
| "takes C_p (Ptr s) = True"
| "takes c a = False"

fun_cases takes_sE: "takes C_s a" and takes_dE: "takes C_d a" and takes_uE: "takes C_u a" and takes_pE: "takes C_p a"

fun farg_cstring :: "farg \<Rightarrow> bool" where
  "farg_cstring (Str s) = is_cstring s"
| "farg_cstring (Num i) = True"
| "farg_cstring (Ptr s) = is_cstring s"

lemma show_nat_cstring: "is_cstring (show_nat n)"
proof (induction n rule: show_nat.induct)
  case (1 n)
  have "NUL \<noteq> char_of (48 + k)" if "k < 10" for k :: nat
  proof
    assume "NUL = char_of (48 + k)"
    then have "of_char (char_of (48 + k)) = (of_char NUL :: nat)" by (rule arg_cong [OF sym])
    with that show False by simp
  qed
  with 1 show ?case by (subst show_nat.simps) (auto simp: is_cstring_def)
qed

lemma show_int_cstring: "is_cstring (show_int i)"
  using show_nat_cstring by (auto simp: show_int_def is_cstring_def)

text \<open>A format is expanded when the arguments are of the kinds it asks for; without NUL in the
  arguments there is none in the text.\<close>

lemma expand_ok:
  "list_all2 takes (conversions fmt) args \<Longrightarrow> is_cstring fmt \<Longrightarrow> list_all farg_cstring args \<Longrightarrow>
   \<exists>t. expand fmt args = Inr t \<and> is_cstring t"
proof (induction fmt args rule: expand.induct)
  case (3 c d cs args)
  note IH = 3(1-6) and a = 3(7-9)
  have one: ?case
    if "c = CHR 0x25" and "conversions (c # d # cs) = k # conversions cs" and "list_all2 takes (k # conversions cs) args"
      and "\<And>x as. \<lbrakk>args = x # as; takes k x; farg_cstring x\<rbrakk> \<Longrightarrow>
        \<exists>s. is_cstring s \<and> expand (c # d # cs) args = ebind (expand cs as) (\<lambda>t. Inr (s @ t)) \<and>
          (list_all2 takes (conversions cs) as \<longrightarrow> is_cstring cs \<longrightarrow> list_all farg_cstring as \<longrightarrow>
             (\<exists>t. expand cs as = Inr t \<and> is_cstring t))" for k
  proof -
    from that(3) obtain x as where x: "args = x # as" "takes k x" "list_all2 takes (conversions cs) as"
      by (auto simp: list_all2_Cons1)
    with a(3) that(4) [of x as] a(2) show ?thesis by (fastforce simp: is_cstring_def)
  qed
  consider "c \<noteq> CHR 0x25" | "c = CHR 0x25" "d = CHR ''s''" | "c = CHR 0x25" "d = CHR ''d''"
    | "c = CHR 0x25" "d = CHR ''u''" | "c = CHR 0x25" "d = CHR ''p''"
    | "c = CHR 0x25" "d \<notin> {CHR ''s'', CHR ''d'', CHR ''u'', CHR ''p''}" by blast
  then show ?case
  proof cases
    case 1
    with IH(1) a show ?thesis by (auto simp: is_cstring_def)
  next
    case 2
    show ?thesis using a(1) 2 IH(2) by (intro one [of C_s]) (auto elim!: takes_sE)
  next
    case 3
    show ?thesis using a(1) 3 IH(3) show_int_cstring by (intro one [of C_d]) (auto elim!: takes_dE, blast)
  next
    case 4
    show ?thesis using a(1) 4 IH(4) show_int_cstring by (intro one [of C_u]) (auto elim!: takes_uE, blast)
  next
    case 5
    show ?thesis using a(1) 5 IH(5) by (intro one [of C_p]) (auto elim!: takes_pE)
  next
    case 6
    with IH(6) a show ?thesis by (auto simp: is_cstring_def)
  qed
qed (auto simp: is_cstring_def)

lemma vsnprintf_at_ok:
  assumes "expand fmt args = Inr t" and "off < n" and "length buf = n"
  shows "vsnprintf_at buf off n fmt args =
    Inr (take off buf @ take (n - off - 1) t @ NUL # drop (off + length (take (n - off - 1) t) + 1) buf)"
  using assms by (simp add: vsnprintf_at_def)

text \<open>\<open>pmsg_text\<close> leaves the tx, cut off at 255 bytes.\<close>

lemma pmsg_text_ok:
  assumes buf: "length buf = IW_LOGMSGLEN_MAX" and v: "code < 64 \<or> verbose"
    and f: "find_status (if code < 64 then sm_msgs m else sm_vmsgs m) code = Inr (code, fmt)" "0 < code"
    and e: "expand fmt args = Inr t" "is_cstring t" and p: "is_cstring (sm_prefix m)" "length (sm_prefix m) < 64"
  defines "tx \<equiv> take 255 ((if code < 64 then [] else sm_prefix m) @ t)"
  shows "\<exists>rest. pmsg_text m verbose code args buf = Inr (Some (tx @ NUL # rest, length tx)) \<and>
    length (tx @ NUL # rest) = IW_LOGMSGLEN_MAX \<and> is_cstring tx"
proof -
  have c: "is_cstring tx" using e(2) p(1) by (auto simp: tx_def is_cstring_def dest: in_set_takeD)
  have ct: "cstr_at (tx @ NUL # rest) 0 = Inr tx" for rest
    using cstr_at_append [of tx 0 "[]" rest] c by simp
  let ?pre = "if code < 64 then [] else sm_prefix m"
  let ?x = "ebind (if code < 64 then vsnprintf_at buf 0 IW_LOGMSGLEN_MAX fmt args
               else ebind (wr_bytes buf 0 (sm_prefix m @ [NUL])) (\<lambda>buf.
                vsnprintf_at buf (length (sm_prefix m)) IW_LOGMSGLEN_MAX fmt args))
       (\<lambda>buf. ebind (cstr_at buf 0) (\<lambda>s. Inr (Some (buf, length s))))"
  have pt: "pmsg_text m verbose code args buf = ?x"
    using v f by (auto simp: pmsg_text_def)
  obtain rest where r: "(if code < 64 then vsnprintf_at buf 0 IW_LOGMSGLEN_MAX fmt args
               else ebind (wr_bytes buf 0 (sm_prefix m @ [NUL])) (\<lambda>buf.
                vsnprintf_at buf (length (sm_prefix m)) IW_LOGMSGLEN_MAX fmt args)) = Inr (tx @ NUL # rest)"
      "length (tx @ NUL # rest) = IW_LOGMSGLEN_MAX"
  proof (cases "code < 64")
    case True
    then show thesis using that vsnprintf_at_ok [OF e(1) _ buf, of 0] buf by (auto simp: tx_def min_def)
  next
    case False
    let ?p = "sm_prefix m" and ?buf = "sm_prefix m @ NUL # drop (Suc (length (sm_prefix m))) buf"
    have w: "wr_bytes buf 0 (?p @ [NUL]) = Inr ?buf" using buf p(2) by simp
    have lb: "length ?buf = IW_LOGMSGLEN_MAX" using buf p(2) by simp
    have "take 255 (?p @ t) = ?p @ take (IW_LOGMSGLEN_MAX - length ?p - 1) t" using p(2) by simp
    with False that vsnprintf_at_ok [OF e(1) _ lb, of "length ?p"] w p(2) lb show thesis
      by (auto simp: tx_def min_def)
  qed
  then have "?x = Inr (Some (tx @ NUL # rest, length tx))" using ct by simp
  with r(2) c show ?thesis unfolding pt by blast
qed

lemma pmsg_line_ok:
  assumes "length (tx @ NUL # rest) = IW_LOGMSGLEN_MAX" and "is_cstring tx"
  shows "pmsg_line (tx @ NUL # rest) (length tx) = Inr (take 254 tx @ [NEWLINE])"
proof (cases "length tx \<le> 254")
  case True
  then obtain r rest' where r: "rest = r # rest'" using assms(1) by (cases rest) auto
  have "(tx @ NUL # rest)[length tx := NEWLINE, Suc (length tx) := NUL] = tx @ NEWLINE # NUL # rest'"
    by (simp add: r list_update_append)
  moreover have "cstr_at ((tx @ [NEWLINE]) @ NUL # rest') 0 = Inr (tx @ [NEWLINE])"
    using cstr_at_append [of "tx @ [NEWLINE]" 0 "[]" rest'] assms(2) by (simp add: is_cstring_def)
  moreover have "2 \<le> IW_LOGMSGLEN_MAX - length tx" using True by simp
  ultimately show ?thesis using True r assms(1) by (simp add: pmsg_line_def)
next
  case False
  moreover have a: "length tx + length rest = 255" using assms(1) by simp
  ultimately have "length tx = 255" by linarith
  with a have l: "length tx = 255" "rest = []" by simp_all
  then obtain t c where t: "tx = t @ [c]" "length t = 254" by (cases tx rule: rev_cases) auto
  have "(tx @ [NUL])[254 := NEWLINE] = (t @ [NEWLINE]) @ NUL # []" by (simp add: t list_update_append)
  moreover have "cstr_at ((t @ [NEWLINE]) @ NUL # []) 0 = Inr (t @ [NEWLINE])"
    using cstr_at_append [of "t @ [NEWLINE]" 0 "[]" "[]"] assms(2) by (simp add: is_cstring_def t)
  ultimately show ?thesis using l t by (simp add: pmsg_line_def)
qed

section \<open>The tables\<close>

text \<open>\<open>tab_covers\<close>: every code of the enumeration is found in the table, and the enumeration stays
  on its side of 64, which is how \<open>pmsg\<close> chooses the table.\<close>

definition tab_covers :: "nat \<Rightarrow> string list \<Rightarrow> status_tab \<Rightarrow> bool" where
  "tab_covers start names tab \<longleftrightarrow> distinct names \<and>
     (start < 64 \<longrightarrow> start + length names \<le> 64) \<and>
     list_all (\<lambda>nm. case find_status tab (enum_code start names nm) of
       Inl _ \<Rightarrow> False | Inr (c, m) \<Rightarrow> c = enum_code start names nm \<and> 0 < c) names"

lemma enum_code_nth: "\<lbrakk>distinct names; i < length names\<rbrakk> \<Longrightarrow> enum_code start names (names ! i) = start + i"
proof -
  assume "distinct names" "i < length names"
  moreover from this have "takeWhile (\<lambda>x. x \<noteq> names ! i) names = take i names"
    by (intro takeWhile_eq_take_P_nth) (auto simp: nth_eq_iff_index_eq)
  ultimately show ?thesis by (simp add: enum_code_def)
qed

lemma enum_code_inj:
  "\<lbrakk>distinct names; x \<in> set names; y \<in> set names; enum_code start names x = enum_code start names y\<rbrakk> \<Longrightarrow> x = y"
  by (auto simp: in_set_conv_nth enum_code_nth)

lemma enum_code_less: "nm \<in> set names \<longleftrightarrow> enum_code start names nm < start + length names"
  by (induction names) (auto simp: enum_code_def)

lemma enum_code_eq:
  assumes "distinct names" and "x \<in> set names"
  shows "enum_code start names x = enum_code start names y \<longleftrightarrow> x = y"
  using assms enum_code_inj enum_code_less by metis

text \<open>Looking up the code of a name in a table is looking up the name in the list of entries.\<close>

lemma find_status_map:
  assumes "distinct names" and "set (map fst es) \<subseteq> set names" and "0 < start"
  shows "find_status (status_tab start names es) (enum_code start names nm) =
    (case map_of es nm of None \<Rightarrow> Inr (0, []) | Some m \<Rightarrow> Inr (enum_code start names nm, m))"
  using assms(2)
proof (induction es)
  case (Cons e es)
  have p: "0 < enum_code start names x" for x using assms(3) by (simp add: enum_code_def)
  have "enum_code start names (fst e) = enum_code start names nm \<longleftrightarrow> fst e = nm"
    using enum_code_eq [OF assms(1)] Cons.prems by simp
  with Cons p show ?case by (cases e) (auto simp: status_tab_def)
qed (simp add: status_tab_def)

lemma find_status_tab:
  assumes "distinct names" and "set (map fst es) \<subseteq> set names" and "nm \<in> set (map fst es)" and "0 < start"
  shows "\<exists>m. find_status (status_tab start names es) (enum_code start names nm) = Inr (enum_code start names nm, m)"
proof -
  obtain m where "map_of es nm = Some m" using assms(3) by (fastforce dest: weak_map_of_SomeI)
  then show ?thesis using find_status_map [OF assms(1,2,4)] by simp
qed

lemma status_tab_covers:
  assumes "distinct names" and "list_all (\<lambda>e. fst e \<in> set names) es" and "list_all (\<lambda>nm. nm \<in> set (map fst es)) names"
    and "0 < start" and "start < 64 \<longrightarrow> start + length names \<le> 64"
  shows "tab_covers start names (status_tab start names es)"
proof -
  have "case find_status (status_tab start names es) (enum_code start names nm) of
       Inl _ \<Rightarrow> False | Inr (c, m) \<Rightarrow> c = enum_code start names nm \<and> 0 < c" if "nm \<in> set names" for nm
    using find_status_tab [OF assms(1) _ _ assms(4), of es nm] assms(2,3,4) that
    by (fastforce simp: list_all_iff enum_code_def)
  then show ?thesis using assms(1,5) by (simp add: tab_covers_def list_all_iff)
qed

lemma status_tab_covers_names:
  assumes "distinct names" and "map fst es = names" and "0 < start" and "start < 64 \<longrightarrow> start + length names \<le> 64"
  shows "tab_covers start names (status_tab start names es)"
  using status_tab_covers [of names es start] assms by (auto simp: list_all_iff)

text \<open>Each of the eight message tables has an entry for every status code of its
  enumeration, below 64 in the tables of the messages that are always printed and above in the
  verbose ones; so \<open>pmsg\<close> drops no message of the program for want of an entry.\<close>

lemma status_tables_complete:
  "tab_covers 1 L_STATCODE iwlog_statmsgs \<and> tab_covers 65 L_STATCODE_VERBOSE iwlog_statvmsgs \<and>
   tab_covers 1 D_STATCODE iwds_statmsgs \<and> tab_covers 65 D_STATCODE_VERBOSE iwds_statvmsgs \<and>
   tab_covers 1 T_STATCODE iwtftp_statmsgs \<and> tab_covers 65 T_STATCODE_VERBOSE iwtftp_statvmsgs \<and>
   tab_covers 1 STATCODE iwtftpd_statmsgs \<and> tab_covers 65 STATCODE_VERBOSE iwtftpd_statvmsgs"
  unfolding iwlog_statmsgs_def iwlog_statvmsgs_def iwds_statmsgs_def iwds_statvmsgs_def iwtftp_statmsgs_def
    iwtftp_statvmsgs_def iwtftpd_statmsgs_def iwtftpd_statvmsgs_def
  by (intro conjI; rule status_tab_covers; code_simp)

end
