(* ===== verification/Logging.thy ===== *)
theory Logging
  imports Status Posix
begin

text \<open>
  \<open>logging.c\<close>: the log object, the log file and its line buffer, and the \<open>pmsg\<close> functions of all
  modules. The process has a table of descriptors (sockets, which \<open>world\<close> keeps, are not in
  it), the log file and what was written to the terminal. \<open>errtext\<close> is what \<open>strerror\<close>
  delivers, \<open>garbage\<close> what memory holds that was never written, and \<open>stamp\<close> what
  \<open>strftime\<close> makes of the time for the format \<open>%Y-%m-%d %T\<close>.
\<close>

section \<open>The process and its descriptors\<close>

abbreviation TIMESTRLEN_MAX :: nat where "TIMESTRLEN_MAX \<equiv> 24"
abbreviation LOGMSGBUF_SIZE :: nat where "LOGMSGBUF_SIZE \<equiv> 280"

definition LOGFILEPATH :: string where "LOGFILEPATH = ''/var/log/iwftpd.log''"

record iwlog =
  lg_verbose :: bool
  lg_fd :: int
  lg_msglen :: nat
  lg_msgbuf :: bytes

text \<open>The pointer \<open>alog\<close>: \<open>iwlog_exit\<close> frees the object and leaves the pointer as it is.\<close>

datatype logptr = No_log | Log iwlog | Freed_log

datatype fdobj = Log_file | Null_dev | Terminal

record process =
  alog :: logptr
  logready :: bool
  fds :: "(int \<times> fdobj) list"
  logfile :: bytes
  terminal :: bytes
  errtext :: string
  garbage :: "nat \<Rightarrow> char"
  os :: world

definition junk :: "nat \<Rightarrow> process \<Rightarrow> bytes" where
  "junk n p = map (garbage p) [0..<n]"

definition proc_call :: "process \<Rightarrow> bool \<times> process" where
  "proc_call p = (let (ok, w) = sys_call (os p) in (ok, p\<lparr>os := w\<rparr>))"

text \<open>\<open>open\<close> takes the least free descriptor.\<close>

definition sys_open :: "fdobj \<Rightarrow> process \<Rightarrow> int \<times> process" where
  "sys_open x p =
     (let (ok, p) = proc_call p; fd = pick_fd (length (fds p)) (map fst (fds p)) 0 in
      if \<not> ok then (-1, p) else (fd, p\<lparr>fds := (fd, x) # fds p\<rparr>))"

definition close_fd :: "int \<Rightarrow> process \<Rightarrow> process" where
  "close_fd fd p = p\<lparr>fds := filter (\<lambda>(f, _). f \<noteq> fd) (fds p)\<rparr>"

text \<open>Output to a descriptor.\<close>

definition put_fd :: "int \<Rightarrow> bytes \<Rightarrow> process \<Rightarrow> process" where
  "put_fd fd bs p =
     (case map_of (fds p) fd of
        Some Log_file \<Rightarrow> p\<lparr>logfile := logfile p @ bs\<rparr>
      | Some Terminal \<Rightarrow> p\<lparr>terminal := terminal p @ bs\<rparr>
      | _ \<Rightarrow> p)"

definition put_stderr :: "bytes \<Rightarrow> process \<Rightarrow> process" where
  "put_stderr bs p = put_fd 2 bs p"

section \<open>\<open>pmsg\<close> of the log module\<close>

definition log_pmsg :: "nat \<Rightarrow> farg list \<Rightarrow> process \<Rightarrow> fault + process" where
  "log_pmsg statcode args p =
     ebind (if statcode < 64 then Inr False
            else (case alog p of No_log \<Rightarrow> Inl Null_deref | Log l \<Rightarrow> Inr (lg_verbose l)
                  | Freed_log \<Rightarrow> Inl (Use_after_free 0))) (\<lambda>verbose.
     ebind (pmsg_text iwlog_status verbose statcode args (junk IW_LOGMSGLEN_MAX p)) (\<lambda>r.
     case r of None \<Rightarrow> Inr p
     | Some (buf, mlen) \<Rightarrow> ebind (pmsg_line buf mlen) (\<lambda>s. Inr (put_stderr s p))))"

definition log_code :: "string \<Rightarrow> nat" where
  "log_code nm = enum_code 65 L_STATCODE_VERBOSE nm"

section \<open>The interface\<close>

definition iwlog_init :: "bool \<Rightarrow> process \<Rightarrow> fault + int \<times> process" where
  "iwlog_init verbose p =
     (let (fd, p) = sys_open Log_file p in
      if fd = -1 then
        ebind (log_pmsg (log_code ''EV_FAIL_OPEN'') [Str LOGFILEPATH, Str (errtext p)] p) (\<lambda>p. Inr (IW_ERR, p))
      else
       (let (ok, p) = proc_call p in
        if \<not> ok then
          ebind (log_pmsg (enum_code 1 L_STATCODE ''E_FAIL_MALLOC'') [Str ''iwlog_init''] p) (\<lambda>p.
          Inr (IW_ERR, if fd > 0 then close_fd fd p else p))
        else
          Inr (IW_OK, p\<lparr>alog := Log \<lparr>lg_verbose = verbose, lg_fd = fd, lg_msglen = 0,
            lg_msgbuf = junk LOGMSGBUF_SIZE p\<rparr>\<rparr>)))"

text \<open>\<open>strncpy(buf + off, src, n)\<close>\<close>

definition strncpy_at :: "bytes \<Rightarrow> nat \<Rightarrow> bytes \<Rightarrow> nat \<Rightarrow> fault + bytes" where
  "strncpy_at buf off src n =
     (let s = takeWhile (\<lambda>c. c \<noteq> NUL) (take n src) in
      if length s = length src \<and> length s < n then Inl Out_of_bounds
      else wr_bytes buf off (s @ replicate (n - length s) NUL))"

text \<open>The loop that puts a blank for the NUL after the time, at most \<open>k\<close> steps.\<close>

fun time_end :: "nat \<Rightarrow> bytes \<Rightarrow> nat \<Rightarrow> fault + bytes \<times> nat" where
  "time_end 0 buf pb = Inr (buf, pb)"
| "time_end (Suc k) buf pb =
     ebind (rd_byte buf pb) (\<lambda>c.
     if c = NUL then ebind (wr_byte buf pb (CHR '' '')) (\<lambda>buf. Inr (buf, Suc pb))
     else time_end k buf (Suc pb))"

text \<open>The part of \<open>iwlog_print_msg\<close> that makes the line in \<open>alog->msgbuf\<close>, from \<open>timebuf\<close> and the
  message; the result is the buffer and its \<open>strlen\<close>.\<close>

definition make_line :: "bytes \<Rightarrow> bytes \<Rightarrow> bytes \<Rightarrow> nat \<Rightarrow> fault + bytes \<times> nat" where
  "make_line msgbuf timebuf msg msglen =
     ebind (strncpy_at msgbuf 0 timebuf LOGMSGBUF_SIZE) (\<lambda>buf.
     ebind (time_end (LOGMSGBUF_SIZE - 1) buf 0) (\<lambda>(buf, pb).
     ebind (wr_byte buf pb NUL) (\<lambda>buf.
     let timelen = pb in
     ebind (if timelen + msglen < LOGMSGBUF_SIZE - 2 then strncpy_at buf pb msg msglen
            else strncpy_at buf pb msg (sz_sub LOGMSGBUF_SIZE (timelen + 2))) (\<lambda>buf.
     ebind (cstr_at buf 0) (\<lambda>s.
     ebind (wr_byte buf (length s) NEWLINE) (\<lambda>buf.
     ebind (cstr_at buf 0) (\<lambda>s.
     ebind (wr_byte buf (length s + 1) NUL) (\<lambda>buf.
     ebind (cstr_at buf 0) (\<lambda>s. Inr (buf, length s))))))))))"

text \<open>The contents of \<open>timebuf\<close>: the stamp or the replacement the code copies in.\<close>

definition time_text :: "string \<Rightarrow> process \<Rightarrow> fault + string \<times> process" where
  "time_text stamp p =
     (let (ok, p) = proc_call p in
      if \<not> ok then
        ebind (log_pmsg (log_code ''EV_FAIL_LOCALTIME'') [Str (errtext p)] p) (\<lambda>p. Inr (''- DATETIME ERROR -'', p))
      else if stamp = [] \<or> length stamp \<ge> TIMESTRLEN_MAX then
        ebind (log_pmsg (log_code ''EV_FAIL_STRFTIME'') [Str (errtext p)] p) (\<lambda>p. Inr (''- TIMEFORM ERROR -'', p))
      else Inr (stamp, p))"

definition iwlog_print_msg :: "bytes \<Rightarrow> nat \<Rightarrow> string \<Rightarrow> process \<Rightarrow> fault + process" where
  "iwlog_print_msg msg msglen stamp p =
     (case alog p of
        No_log \<Rightarrow> log_pmsg (log_code ''EV_NULL_OBJ'') [] p
      | Freed_log \<Rightarrow> Inl (Use_after_free 0)
      | Log l \<Rightarrow>
         ebind (time_text stamp p) (\<lambda>(tm, p).
         ebind (make_line (lg_msgbuf l) (tm @ [NUL]) msg msglen) (\<lambda>(buf, n).
         let p = p\<lparr>alog := Log (l\<lparr>lg_msgbuf := buf, lg_msglen := n\<rparr>)\<rparr>; (ok, p) = proc_call p in
         ebind (rd_bytes buf 0 n) (\<lambda>out.
         if ok \<and> map_of (fds p) (lg_fd l) \<noteq> None then Inr (put_fd (lg_fd l) out p)
         else
           ebind (log_pmsg (log_code ''EV_FAIL_WRITE'') [Num (lg_fd l), Num (int n), Str (errtext p)] p) (\<lambda>p.
           Inr (put_stderr (''[log fallback]: '' @ out) p))))))"

definition iwlog_getfd :: "process \<Rightarrow> fault + int \<times> process" where
  "iwlog_getfd p =
     (case alog p of
        No_log \<Rightarrow> ebind (log_pmsg (log_code ''EV_NULL_OBJ'') [] p) (\<lambda>p. Inr (IW_ERR, p))
      | Freed_log \<Rightarrow> Inl (Use_after_free 0)
      | Log l \<Rightarrow> Inr (lg_fd l, p))"

definition iwlog_exit :: "process \<Rightarrow> fault + process" where
  "iwlog_exit p =
     (case alog p of
        No_log \<Rightarrow> Inr p
      | Freed_log \<Rightarrow> Inl (Use_after_free 0)
      | Log l \<Rightarrow>
         ebind (if lg_fd l \<ge> 0 then
                 (let (ok, p) = proc_call p; p = close_fd (lg_fd l) p in
                  if \<not> ok then log_pmsg (log_code ''EV_FAIL_CLOSE'') [Num (lg_fd l), Str (errtext p)] p else Inr p)
                else Inr p) (\<lambda>p.
         Inr (p\<lparr>alog := Freed_log\<rparr>)))"

definition iwlog_is_verbose :: "process \<Rightarrow> fault + bool" where
  "iwlog_is_verbose p =
     (case alog p of No_log \<Rightarrow> Inr False | Freed_log \<Rightarrow> Inl (Use_after_free 0) | Log l \<Rightarrow> Inr (lg_verbose l))"

section \<open>\<open>pmsg\<close> of the other modules\<close>

text \<open>The three functions are the same but for their tables and prefix. \<open>logready\<close> is
  \<open>g_iw_logready\<close>.\<close>

definition mod_pmsg :: "status_mod \<Rightarrow> nat \<Rightarrow> farg list \<Rightarrow> string \<Rightarrow> process \<Rightarrow> fault + process" where
  "mod_pmsg m statcode args stamp p =
     ebind (if statcode < 64 then Inr False else iwlog_is_verbose p) (\<lambda>verbose.
     ebind (pmsg_text m verbose statcode args (junk IW_LOGMSGLEN_MAX p)) (\<lambda>r.
     case r of None \<Rightarrow> Inr p
     | Some (buf, mlen) \<Rightarrow>
         if logready p then iwlog_print_msg buf mlen stamp p
         else ebind (pmsg_line buf mlen) (\<lambda>s. Inr (put_stderr s p))))"

definition iwtftp_pmsg :: "nat \<Rightarrow> farg list \<Rightarrow> string \<Rightarrow> process \<Rightarrow> fault + process" where
  "iwtftp_pmsg = mod_pmsg iwtftp_status"

definition iwds_pmsg :: "nat \<Rightarrow> farg list \<Rightarrow> string \<Rightarrow> process \<Rightarrow> fault + process" where
  "iwds_pmsg = mod_pmsg iwds_status"

definition main_pmsg :: "nat \<Rightarrow> farg list \<Rightarrow> string \<Rightarrow> process \<Rightarrow> fault + process" where
  "main_pmsg = mod_pmsg iwtftpd_status"

section \<open>The line buffer\<close>

lemma strncpy_at_ok:
  assumes "is_cstring s" and "src = s @ NUL # rest" and "off + n \<le> length buf"
  shows "strncpy_at buf off src n =
    Inr (take off buf @ take n s @ replicate (n - length s) NUL @ drop (off + n) buf)"
proof -
  have c: "is_cstring (take n s)" using assms(1) by (auto simp: is_cstring_def dest: in_set_takeD)
  have "takeWhile (\<lambda>c. c \<noteq> NUL) (take n src) = take n s"
  proof (cases "n \<le> length s")
    case True
    then show ?thesis using c by (auto simp: assms(2) is_cstring_def takeWhile_eq_all_conv)
  next
    case False
    then have "take n src = s @ NUL # take (n - length s - 1) rest"
      by (cases "n - length s") (auto simp: assms(2))
    with False show ?thesis using takeWhile_cstring [OF assms(1)] by simp
  qed
  moreover have "\<not> (length (take n s) = length src \<and> length (take n s) < n)" by (simp add: assms(2) min_def)
  moreover have "n - length (take n s) = n - length s" "min (length s) n + (n - length s) = n" by (simp_all add: min_def)
  ultimately show ?thesis using assms(3) by (simp add: strncpy_at_def Let_def)
qed

lemma time_end_ok:
  "\<lbrakk>is_cstring t; length t < k\<rbrakk> \<Longrightarrow>
   time_end k (pre @ t @ NUL # r) (length pre) = Inr (pre @ t @ CHR '' '' # r, Suc (length pre + length t))"
proof (induction k arbitrary: pre t)
  case (Suc k)
  show ?case
  proof (cases t)
    case Nil
    then show ?thesis by (simp add: list_update_append)
  next
    case (Cons c cs)
    with Suc.prems have "time_end k ((pre @ [c]) @ cs @ NUL # r) (length (pre @ [c])) =
        Inr ((pre @ [c]) @ cs @ CHR '' '' # r, Suc (length (pre @ [c]) + length cs))"
      by (intro Suc.IH) (auto simp: is_cstring_def)
    with Cons Suc.prems show ?thesis by (auto simp: is_cstring_def)
  qed
qed simp

lemma cstr_at_front: "is_cstring s \<Longrightarrow> cstr_at (s @ NUL # t) 0 = Inr s"
  using cstr_at_append [of s 0 "[]" t] by simp

text \<open>From the copied message on: the newline and the NUL behind it.\<close>

lemma finish_line:
  assumes "is_cstring x" and "length x < LOGMSGBUF_SIZE - 1"
  defines "buf \<equiv> x @ replicate (LOGMSGBUF_SIZE - length x) NUL"
  shows "ebind (cstr_at buf 0) (\<lambda>s. ebind (wr_byte buf (length s) NEWLINE) (\<lambda>buf.
      ebind (cstr_at buf 0) (\<lambda>s. ebind (wr_byte buf (length s + 1) NUL) (\<lambda>buf.
      ebind (cstr_at buf 0) (\<lambda>s. Inr (buf, length s)))))) =
    (if length x + 2 < LOGMSGBUF_SIZE
     then Inr (x @ NEWLINE # replicate (LOGMSGBUF_SIZE - 1 - length x) NUL, Suc (length x))
     else Inl Out_of_bounds)"
proof -
  obtain k where k: "LOGMSGBUF_SIZE - length x = Suc (Suc k)"
    by (rule that [of "278 - length x"]) (use assms(2) in simp)
  have b: "buf = x @ NUL # NUL # replicate k NUL" by (simp add: buf_def k)
  let ?y = "x @ [NEWLINE]" and ?buf = "x @ NEWLINE # NUL # replicate k NUL"
  have y: "is_cstring ?y" using assms(1) by (simp add: is_cstring_def)
  have c1: "cstr_at buf 0 = Inr x" unfolding b by (rule cstr_at_front [OF assms(1)])
  have c2: "cstr_at ?buf 0 = Inr ?y" using cstr_at_front [OF y, of "replicate k NUL"] by simp
  have w1: "wr_byte buf (length x) NEWLINE = Inr ?buf" unfolding b by (simp add: list_update_append)
  have lb: "length ?buf = LOGMSGBUF_SIZE" using k assms(2) by simp
  have w2: "wr_byte ?buf (length ?y + 1) NUL = (if length x + 2 < LOGMSGBUF_SIZE then Inr ?buf else Inl Out_of_bounds)"
  proof (cases "length x + 2 < LOGMSGBUF_SIZE")
    case True
    then obtain j where "k = Suc j" using k by (cases k) auto
    with True lb show ?thesis by (simp add: list_update_append)
  next
    case False
    with lb show ?thesis by (simp add: wr_byte_def)
  qed
  have rp: "NUL # replicate k NUL = replicate (LOGMSGBUF_SIZE - 1 - length x) NUL"
  proof -
    have "LOGMSGBUF_SIZE - 1 - length x = Suc k" using k by simp
    then show ?thesis by simp
  qed
  show ?thesis
    unfolding c1 ebind_simps w1 c2 w2 using c2 rp by simp
qed

lemma make_line_ok:
  assumes buf: "length msgbuf = LOGMSGBUF_SIZE" and tm: "is_cstring tm" "length tm < TIMESTRLEN_MAX"
    and s: "is_cstring s" and msg: "msg = s @ NUL # rest"
  shows "make_line msgbuf (tm @ [NUL]) msg (length s) =
    (if length tm + length s \<le> 276
     then Inr (tm @ CHR '' '' # s @ NEWLINE # replicate (LOGMSGBUF_SIZE - (length tm + length s + 2)) NUL,
       length tm + length s + 2)
     else Inl Out_of_bounds)"
proof -
  let ?t = "tm @ [CHR '' '']"
  define n where "n = (if Suc (length tm) + length s < LOGMSGBUF_SIZE - 2 then length s
     else sz_sub LOGMSGBUF_SIZE (Suc (length tm) + 2))"
  let ?x = "?t @ take n s"
  have n: "n = min (length s) (277 - length tm)" "n \<le> length s"
    using tm(2) by (auto simp: n_def)
  have l: "length ?x = length tm + 1 + n" using n by simp
  have s1: "strncpy_at msgbuf 0 (tm @ [NUL]) LOGMSGBUF_SIZE = Inr (tm @ replicate (LOGMSGBUF_SIZE - length tm) NUL)"
    using strncpy_at_ok [OF tm(1) refl, of 0 LOGMSGBUF_SIZE msgbuf "[]"] buf tm(2) by simp
  have r1: "replicate (LOGMSGBUF_SIZE - length tm) NUL = NUL # replicate (279 - length tm) NUL"
    using tm(2) by (simp flip: replicate_Suc add: Suc_diff_le)
  have s2: "time_end (LOGMSGBUF_SIZE - 1) (tm @ replicate (LOGMSGBUF_SIZE - length tm) NUL) 0 =
      Inr (?t @ replicate (279 - length tm) NUL, Suc (length tm))"
    using time_end_ok [OF tm(1), of "LOGMSGBUF_SIZE - 1" "[]"] tm(2) unfolding r1 by simp
  have s3: "wr_byte (?t @ replicate (279 - length tm) NUL) (Suc (length tm)) NUL = Inr (?t @ replicate (279 - length tm) NUL)"
  proof -
    have "replicate (279 - length tm) NUL = NUL # replicate (278 - length tm) NUL"
      using tm(2) by (simp flip: replicate_Suc add: Suc_diff_le)
    then show ?thesis using tm(2) by (simp add: list_update_append)
  qed
  have s4: "strncpy_at (?t @ replicate (279 - length tm) NUL) (Suc (length tm)) msg n =
      Inr (?x @ replicate (LOGMSGBUF_SIZE - length ?x) NUL)"
  proof -
    have le: "Suc (length tm) + n \<le> length (?t @ replicate (279 - length tm) NUL)" using n tm(2) by simp
    have "n - length s = 0" using n(2) by simp
    then show ?thesis using strncpy_at_ok [OF s msg le] l tm(2) by simp
  qed
  have if4: "(if Suc (length tm) + length s < LOGMSGBUF_SIZE - 2 then strncpy_at b (Suc (length tm)) msg (length s)
            else strncpy_at b (Suc (length tm)) msg (sz_sub LOGMSGBUF_SIZE (Suc (length tm) + 2))) =
      strncpy_at b (Suc (length tm)) msg n" for b
    by (simp add: n_def)
  have cx: "is_cstring ?x" using tm(1) s by (auto simp: is_cstring_def dest: in_set_takeD)
  have lx: "length ?x < LOGMSGBUF_SIZE - 1" using l n tm(2) by simp
  have "make_line msgbuf (tm @ [NUL]) msg (length s) = (if length ?x + 2 < LOGMSGBUF_SIZE
     then Inr (?x @ NEWLINE # replicate (LOGMSGBUF_SIZE - 1 - length ?x) NUL, Suc (length ?x))
     else Inl Out_of_bounds)"
    unfolding make_line_def s1 ebind_simps s2 prod.case s3 Let_def if4 s4 by (rule finish_line [OF cx lx])
  moreover have "length ?x + 2 < LOGMSGBUF_SIZE \<longleftrightarrow> length tm + length s \<le> 276" using l n tm(2) by auto
  moreover have "take n s = s" if "length tm + length s \<le> 276" using n that by simp
  ultimately show ?thesis by auto
qed

section \<open>Log lines\<close>

lemma log_code_eval:
  "log_code ''EV_FAIL_CLOSE'' = 65" "log_code ''EV_FAIL_LOCALTIME'' = 66" "log_code ''EV_FAIL_OPEN'' = 67"
  "log_code ''EV_FAIL_STRFTIME'' = 68" "log_code ''EV_FAIL_WRITE'' = 69" "log_code ''EV_NULL_OBJ'' = 70"
  "enum_code 1 L_STATCODE ''E_FAIL_MALLOC'' = 1"
  by code_simp+

lemma iwlog_find:
  "find_status iwlog_statvmsgs 65 = Inr (65, ''error: close: failed, 'fd=%d': %s'')"
  "find_status iwlog_statvmsgs 66 = Inr (66, ''error: localtime_r: failed to convert: %s'')"
  "find_status iwlog_statvmsgs 68 = Inr (68, ''error: strftime: failed to convert: %s'')"
  "find_status iwlog_statvmsgs 69 = Inr (69, ''error: write: failed write to log, fd=%d msglen=%d: %s'')"
  "find_status iwlog_statvmsgs 70 = Inr (70, ''error: invalid object'')"
  "find_status iwlog_statmsgs 1 = Inr (1, ''error: failed memory allocation, %s'')"
  by code_simp+

lemma length_junk [simp]: "length (junk n p) = n"
  by (simp add: junk_def)

lemma put_fd_same [simp]:
  "alog (put_fd fd bs p) = alog p" "fds (put_fd fd bs p) = fds p" "os (put_fd fd bs p) = os p"
  "errtext (put_fd fd bs p) = errtext p" "logready (put_fd fd bs p) = logready p"
  by (simp_all add: put_fd_def split: option.split fdobj.split)

lemma put_stderr_same [simp]:
  "alog (put_stderr bs p) = alog p" "fds (put_stderr bs p) = fds p" "os (put_stderr bs p) = os p"
  "errtext (put_stderr bs p) = errtext p" "logready (put_stderr bs p) = logready p"
  by (simp_all add: put_stderr_def)

text \<open>A message of the log module itself only reaches the standard error stream.\<close>

lemma log_pmsg_ok:
  assumes v: "code < 64 \<or> (\<exists>l. alog p = Log l)"
    and f: "find_status (if code < 64 then iwlog_statmsgs else iwlog_statvmsgs) code = Inr (code, fmt)" "0 < code"
    and a: "list_all2 takes (conversions fmt) args" "is_cstring fmt" "list_all farg_cstring args"
  shows "\<exists>bs. log_pmsg code args p = Inr (put_stderr bs p) \<or> log_pmsg code args p = Inr p"
proof -
  obtain t where t: "expand fmt args = Inr t" "is_cstring t" using expand_ok [OF a] by blast
  have pr: "is_cstring (sm_prefix iwlog_status)" "length (sm_prefix iwlog_status) < 64"
    by (simp_all add: iwlog_status_def is_cstring_def)
  obtain verbose where vb: "(if code < 64 then Inr False
            else (case alog p of No_log \<Rightarrow> Inl Null_deref | Log l \<Rightarrow> Inr (lg_verbose l)
                  | Freed_log \<Rightarrow> Inl (Use_after_free 0))) = (Inr verbose :: fault + bool)"
    using v by (cases "code < 64") auto
  show ?thesis
  proof (cases "code < 64 \<or> verbose")
    case False
    then have "pmsg_text iwlog_status verbose code args (junk IW_LOGMSGLEN_MAX p) = Inr None"
      by (simp add: pmsg_text_def)
    with vb show ?thesis by (simp add: log_pmsg_def)
  next
    case True
    have f': "find_status (if code < 64 then sm_msgs iwlog_status else sm_vmsgs iwlog_status) code = Inr (code, fmt)"
      using f(1) by (simp add: iwlog_status_def split: if_splits)
    obtain tx rest where tx: "pmsg_text iwlog_status verbose code args (junk IW_LOGMSGLEN_MAX p) =
        Inr (Some (tx @ NUL # rest, length tx))" "length (tx @ NUL # rest) = IW_LOGMSGLEN_MAX" "is_cstring tx"
      using pmsg_text_ok [OF length_junk [where p = p] True f' f(2) t pr] by blast
    show ?thesis using vb tx(1) pmsg_line_ok [OF tx(2,3)] by (auto simp: log_pmsg_def)
  qed
qed

text \<open>The log is usable: the object is there, with its buffer, when \<open>g_iw_logready\<close> says so.\<close>

definition log_ok :: "process \<Rightarrow> bool" where
  "log_ok p \<longleftrightarrow> (case alog p of Log l \<Rightarrow> length (lg_msgbuf l) = LOGMSGBUF_SIZE
     | No_log \<Rightarrow> \<not> logready p | Freed_log \<Rightarrow> False) \<and> is_cstring (errtext p)"

lemma log_ok_same: "\<lbrakk>log_ok p; alog p' = alog p; logready p' = logready p; errtext p' = errtext p\<rbrakk> \<Longrightarrow> log_ok p'"
  by (auto simp: log_ok_def split: logptr.splits)

lemma proc_call_simps:
  "proc_call p = (outcome (os p) (tick (os p)) = 0, p\<lparr>os := (os p)\<lparr>tick := Suc (tick (os p))\<rparr>\<rparr>)"
  by (simp add: proc_call_def sys_call_def draw_def)

text \<open>What a call of \<open>pmsg\<close> leaves: all but the outputs and the line buffer.\<close>

definition logged :: "process \<Rightarrow> process \<Rightarrow> bool" where
  "logged p p' \<longleftrightarrow> (log_ok p \<longrightarrow> log_ok p') \<and> fds p' = fds p \<and> errtext p' = errtext p \<and> logready p' = logready p \<and>
     (alog p' = alog p \<or> (\<exists>l buf n. alog p = Log l \<and> alog p' = Log (l\<lparr>lg_msgbuf := buf, lg_msglen := n\<rparr>)))"

lemma log_pmsg_log:
  assumes "alog p = Log l"
    and "find_status iwlog_statvmsgs code = Inr (code, fmt)" "64 \<le> code"
    and "list_all2 takes (conversions fmt) args" "is_cstring fmt" "list_all farg_cstring args"
  obtains p' where "log_pmsg code args p = Inr p'" "alog p' = alog p" "fds p' = fds p" "errtext p' = errtext p"
    "logready p' = logready p" "os p' = os p"
proof -
  have f: "find_status (if code < 64 then iwlog_statmsgs else iwlog_statvmsgs) code = Inr (code, fmt)" "0 < code"
    using assms(2,3) by simp_all
  have "code < 64 \<or> (\<exists>l. alog p = Log l)" using assms(1) by blast
  from log_pmsg_ok [OF this f assms(4-6)] that show thesis by auto
qed

lemma time_text_ok:
  assumes l: "alog p = Log l" and e: "is_cstring (errtext p)" and st: "is_cstring stamp" "length stamp \<le> 21"
  obtains tm p' where "time_text stamp p = Inr (tm, p')" "is_cstring tm" "length tm \<le> 21"
    "alog p' = alog p" "fds p' = fds p" "errtext p' = errtext p" "logready p' = logready p"
    "fault_free (os p) \<and> stamp \<noteq> [] \<longrightarrow> tm = stamp \<and> p' = p\<lparr>os := (os p)\<lparr>tick := Suc (tick (os p))\<rparr>\<rparr>"
proof -
  let ?p = "p\<lparr>os := (os p)\<lparr>tick := Suc (tick (os p))\<rparr>\<rparr>"
  have l': "alog ?p = Log l" using l by simp
  have e': "list_all farg_cstring [Str (errtext p)]" using e by simp
  note f = iwlog_find [unfolded log_code_eval]
  obtain p1 where p1: "log_pmsg 66 [Str (errtext p)] ?p = Inr p1" "alog p1 = alog ?p" "fds p1 = fds ?p"
      "errtext p1 = errtext ?p" "logready p1 = logready ?p"
    using log_pmsg_log [OF l' iwlog_find(2), of "[Str (errtext p)]"] e' by (auto simp: is_cstring_def)
  obtain p2 where p2: "log_pmsg 68 [Str (errtext p)] ?p = Inr p2" "alog p2 = alog ?p" "fds p2 = fds ?p"
      "errtext p2 = errtext ?p" "logready p2 = logready ?p"
    using log_pmsg_log [OF l' iwlog_find(3), of "[Str (errtext p)]"] e' by (auto simp: is_cstring_def)
  consider "outcome (os p) (tick (os p)) \<noteq> 0" | "outcome (os p) (tick (os p)) = 0" "stamp = []"
    | "outcome (os p) (tick (os p)) = 0" "stamp \<noteq> []" by blast
  then show thesis
  proof cases
    case 1
    then have "\<not> fault_free (os p)" by (auto simp: fault_free_def)
    with 1 show thesis
      using that [of "''- DATETIME ERROR -''" p1] p1
      by (simp add: time_text_def proc_call_simps log_code_eval is_cstring_def)
  next
    case 2
    then show thesis
      using that [of "''- TIMEFORM ERROR -''" p2] p2
      by (simp add: time_text_def proc_call_simps log_code_eval is_cstring_def)
  next
    case 3
    then show thesis
      using that [of stamp ?p] st by (simp add: time_text_def proc_call_simps)
  qed
qed

lemma iwlog_print_msg_safe:
  assumes ok: "log_ok p" and l: "alog p = Log l" and st: "is_cstring stamp" "length stamp \<le> 21"
    and s: "is_cstring s" "length s \<le> 255"
  shows "\<exists>p'. iwlog_print_msg (s @ NUL # rest) (length s) stamp p = Inr p' \<and> logged p p' \<and>
    (fault_free (os p) \<and> stamp \<noteq> [] \<and> map_of (fds p) (lg_fd l) = Some Log_file \<longrightarrow>
      logfile p' = logfile p @ stamp @ CHR '' '' # s @ [NEWLINE])"
proof -
  have b: "length (lg_msgbuf l) = LOGMSGBUF_SIZE" and e: "is_cstring (errtext p)" using ok l by (simp_all add: log_ok_def)
  obtain tm p1 where tm: "time_text stamp p = Inr (tm, p1)" "is_cstring tm" "length tm \<le> 21"
    "alog p1 = alog p" "fds p1 = fds p" "errtext p1 = errtext p" "logready p1 = logready p"
    "fault_free (os p) \<and> stamp \<noteq> [] \<longrightarrow> tm = stamp \<and> p1 = p\<lparr>os := (os p)\<lparr>tick := Suc (tick (os p))\<rparr>\<rparr>"
    using time_text_ok [OF l e st] by blast
  let ?line = "tm @ CHR '' '' # s @ [NEWLINE]"
  define buf where "buf = tm @ CHR '' '' # s @ NEWLINE # replicate (LOGMSGBUF_SIZE - (length tm + length s + 2)) NUL"
  define n where "n = length tm + length s + 2"
  have ml: "make_line (lg_msgbuf l) (tm @ [NUL]) (s @ NUL # rest) (length s) = Inr (buf, n)"
    using make_line_ok [OF b tm(2) _ s(1) refl] tm(3) s(2) by (simp add: buf_def n_def)
  have lb: "length buf = LOGMSGBUF_SIZE" using tm(3) s(2) by (simp add: buf_def)
  have out: "rd_bytes buf 0 n = Inr ?line"
    using lb tm(3) s(2) by (simp add: n_def) (simp add: buf_def)
  let ?p2 = "p1\<lparr>alog := Log (l\<lparr>lg_msgbuf := buf, lg_msglen := n\<rparr>), os := (os p1)\<lparr>tick := Suc (tick (os p1))\<rparr>\<rparr>"
  have l2: "alog ?p2 = Log (l\<lparr>lg_msgbuf := buf, lg_msglen := n\<rparr>)" by simp
  obtain p3 where p3: "log_pmsg 69 [Num (lg_fd l), Num (int n), Str (errtext ?p2)] ?p2 = Inr p3" "alog p3 = alog ?p2"
      "fds p3 = fds ?p2" "errtext p3 = errtext ?p2" "logready p3 = logready ?p2"
    using log_pmsg_log [OF l2 iwlog_find(4), of "[Num (lg_fd l), Num (int n), Str (errtext ?p2)]"] e tm(6)
    by (auto simp: is_cstring_def)
  define p4 where "p4 = (if outcome (os p1) (tick (os p1)) = 0 \<and> map_of (fds p1) (lg_fd l) \<noteq> None
    then put_fd (lg_fd l) ?line ?p2 else put_stderr (''[log fallback]: '' @ ?line) p3)"
  have r: "iwlog_print_msg (s @ NUL # rest) (length s) stamp p = Inr p4"
    using l tm(1) ml out p3(1) by (simp add: iwlog_print_msg_def Let_def proc_call_simps log_code_eval p4_def)
  have p4: "alog p4 = alog ?p2" "fds p4 = fds p" "errtext p4 = errtext p" "logready p4 = logready p"
    using p3 tm(4-7) by (simp_all add: p4_def)
  have "logged p p4"
    using p4 ok l lb unfolding logged_def by (auto simp: log_ok_def)
  moreover have "logfile p4 = logfile p @ stamp @ CHR '' '' # s @ [NEWLINE]"
    if "fault_free (os p)" "stamp \<noteq> []" "map_of (fds p) (lg_fd l) = Some Log_file"
    using that tm(8) by (simp add: p4_def put_fd_def fault_free_def)
  ultimately show ?thesis using r by blast
qed

section \<open>The messages of the other modules\<close>

lemma find_status_in: "find_status tab c = Inr (k, m) \<Longrightarrow> (k, m) \<in> set tab"
  by (induction tab c rule: find_status.induct) (auto split: if_splits)

abbreviation client_modules :: "status_mod set" where
  "client_modules \<equiv> {iwtftp_status, iwds_status, iwtftpd_status}"

lemma formats_cstring:
  assumes "m \<in> client_modules" and "find_status (if code < 64 then sm_msgs m else sm_vmsgs m) code = Inr (k, fmt)"
  shows "is_cstring fmt"
proof -
  have "list_all (\<lambda>m. list_all (\<lambda>e. is_cstring (snd e)) (sm_msgs m @ sm_vmsgs m)) [iwtftp_status, iwds_status, iwtftpd_status]"
    by code_simp
  with assms(1) have "\<forall>e \<in> set (sm_msgs m @ sm_vmsgs m). is_cstring (snd e)" by (auto simp: list_all_iff)
  with find_status_in [OF assms(2)] show ?thesis by (auto split: if_splits dest!: bspec)
qed

lemma module_prefix: "m \<in> client_modules \<Longrightarrow> is_cstring (sm_prefix m) \<and> length (sm_prefix m) < 64"
  by (auto simp: iwtftp_status_def iwds_status_def iwtftpd_status_def is_cstring_def)

text \<open>\<open>fits m code fmt args t\<close>: the table of the module has the format \<open>fmt\<close> for the code, the
  arguments are of the kinds it asks for, and \<open>t\<close> is the text it gives.\<close>

definition fits :: "status_mod \<Rightarrow> nat \<Rightarrow> farg list \<Rightarrow> string \<Rightarrow> bool" where
  "fits m code args t \<longleftrightarrow> 0 < code \<and> list_all farg_cstring args \<and>
     (case find_status (if code < 64 then sm_msgs m else sm_vmsgs m) code of Inl _ \<Rightarrow> False
      | Inr (k, fmt) \<Rightarrow> k = code \<and> list_all2 takes (conversions fmt) args \<and> expand fmt args = Inr t)"

definition msg_text :: "status_mod \<Rightarrow> nat \<Rightarrow> string \<Rightarrow> string" where
  "msg_text m code t = take 255 ((if code < 64 then [] else sm_prefix m) @ t)"

lemma fits_text:
  assumes m: "m \<in> client_modules" and f: "fits m code args t" and v: "code < 64 \<or> verbose"
  obtains rest where "pmsg_text m verbose code args (junk IW_LOGMSGLEN_MAX p) =
      Inr (Some (msg_text m code t @ NUL # rest, length (msg_text m code t)))"
    "length (msg_text m code t @ NUL # rest) = IW_LOGMSGLEN_MAX" "is_cstring (msg_text m code t)"
    "length (msg_text m code t) \<le> 255"
proof -
  obtain fmt where fmt: "find_status (if code < 64 then sm_msgs m else sm_vmsgs m) code = Inr (code, fmt)"
      "list_all2 takes (conversions fmt) args" "expand fmt args = Inr t" "0 < code" "list_all farg_cstring args"
    using f by (auto simp: fits_def split: sum.splits)
  obtain t' where "expand fmt args = Inr t'" "is_cstring t'"
    using expand_ok [OF fmt(2) formats_cstring [OF m fmt(1)] fmt(5)] by blast
  with fmt(3) have t: "is_cstring t" by simp
  have "length (msg_text m code t) \<le> 255" by (simp add: msg_text_def)
  with that show thesis
    using pmsg_text_ok [OF length_junk [where p = p] v fmt(1,4,3) t] module_prefix [OF m]
    unfolding msg_text_def by blast
qed

lemma silent_text: "\<not> code < 64 \<Longrightarrow> pmsg_text m False code args buf = Inr None"
  by (simp add: pmsg_text_def)

text \<open>Before the log is ready, messages go to the standard error stream, and verbose ones nowhere.\<close>

lemma mod_pmsg_unready:
  assumes m: "m \<in> client_modules" and f: "fits m code args t" and l: "alog p = No_log" "\<not> logready p"
  shows "mod_pmsg m code args stamp p =
    Inr (if code < 64 then put_stderr (take 254 t @ [NEWLINE]) p else p)"
proof (cases "code < 64")
  case True
  obtain rest where r: "pmsg_text m False code args (junk IW_LOGMSGLEN_MAX p) =
      Inr (Some (msg_text m code t @ NUL # rest, length (msg_text m code t)))"
    "length (msg_text m code t @ NUL # rest) = IW_LOGMSGLEN_MAX" "is_cstring (msg_text m code t)"
    using fits_text [OF m f disjI1 [OF True]] by blast
  have "take 254 (msg_text m code t) = take 254 t" using True by (simp add: msg_text_def min_def)
  with True l r(1) pmsg_line_ok [OF r(2,3)] show ?thesis by (simp add: mod_pmsg_def)
next
  case False
  with l silent_text [OF False] show ?thesis by (simp add: mod_pmsg_def iwlog_is_verbose_def)
qed

text \<open>Once the log is ready, they go to the log.\<close>

lemma mod_pmsg_ready:
  assumes "m \<in> client_modules" and "fits m code args t"
    and "log_ok p" and "logready p" and "alog p = Log l"
    and "is_cstring stamp" and "length stamp \<le> 21"
  shows "\<exists>p'. mod_pmsg m code args stamp p = Inr p' \<and> logged p p' \<and>
    (code < 64 \<or> lg_verbose l \<longrightarrow> fault_free (os p) \<longrightarrow> stamp \<noteq> [] \<longrightarrow> map_of (fds p) (lg_fd l) = Some Log_file \<longrightarrow>
       logfile p' = logfile p @ stamp @ CHR '' '' # msg_text m code t @ [NEWLINE]) \<and>
    (\<not> (code < 64 \<or> lg_verbose l) \<longrightarrow> p' = p)"
proof (cases "code < 64 \<or> lg_verbose l")
  case True
  let ?v = "code \<ge> 64 \<and> lg_verbose l"
  have v: "(if code < 64 then Inr False else iwlog_is_verbose p) = (Inr ?v :: fault + bool)" and v': "code < 64 \<or> ?v"
    using True assms(5) by (auto simp: iwlog_is_verbose_def)
  obtain rest where r: "pmsg_text m ?v code args (junk IW_LOGMSGLEN_MAX p) =
      Inr (Some (msg_text m code t @ NUL # rest, length (msg_text m code t)))"
    "is_cstring (msg_text m code t)" "length (msg_text m code t) \<le> 255"
    using fits_text [OF assms(1,2) v'] by blast
  have "mod_pmsg m code args stamp p = iwlog_print_msg (msg_text m code t @ NUL # rest) (length (msg_text m code t)) stamp p"
    unfolding mod_pmsg_def v ebind_simps r(1) using assms(4) by simp
  then show ?thesis using iwlog_print_msg_safe [OF assms(3,5,6,7) r(2,3)] True by auto
next
  case False
  have "logged p p" by (simp add: logged_def)
  with False assms(5) silent_text [of code m args] show ?thesis
    by (simp add: mod_pmsg_def iwlog_is_verbose_def)
qed


text \<open>A process as \<open>main\<close> starts with it, and one with an open log.\<close>

definition start_world :: world where
  "start_world = \<lparr>outcome = (\<lambda>_. 0), tick = 0, clock = 0, canon = (\<lambda>s. s), fsys = (\<lambda>_. None),
     streams = (\<lambda>_. None), nstreams = 0, socks = [], epoll = [], sent = []\<rparr>"

definition start_process :: process where
  "start_process = \<lparr>alog = No_log, logready = False,
     fds = [(0, Terminal), (1, Terminal), (2, Terminal)], logfile = [], terminal = [],
     errtext = ''failed'', garbage = (\<lambda>_. NUL), os = start_world\<rparr>"

definition log_obj :: iwlog where
  "log_obj = \<lparr>lg_verbose = False, lg_fd = 3, lg_msglen = 0, lg_msgbuf = replicate LOGMSGBUF_SIZE NUL\<rparr>"

definition logging_process :: process where
  "logging_process = start_process\<lparr>alog := Log log_obj, logready := True,
     fds := (3, Log_file) # fds start_process\<rparr>"

lemma demo_fits: "fits iwtftpd_status 17 [] ''info: exiting server''"
  unfolding fits_def by code_simp


section \<open>Bounds and errors of the interface\<close>

text \<open>C35: \<open>iwlog_print_msg\<close> builds its line inside the 280 bytes of \<open>alog->msgbuf\<close> exactly when the
  stamp and the message have at most 276 bytes: the cut of longer messages leaves
  one byte too few, for the NUL behind the newline. The callers pass at most 255
  bytes and a stamp of 19, so the overflow is out of their reach.\<close>

theorem iwlog_print_msg_bounds:
  assumes "alog p = Log l" and "length (lg_msgbuf l) = LOGMSGBUF_SIZE" and "is_cstring (errtext p)"
    and "fault_free (os p)" and "is_cstring stamp" and "stamp \<noteq> []" and "length stamp < TIMESTRLEN_MAX"
    and "is_cstring s"
  shows "defined (iwlog_print_msg (s @ NUL # rest) (length s) stamp p) \<longleftrightarrow> length stamp + length s \<le> 276"
proof -
  let ?p = "p\<lparr>os := (os p)\<lparr>tick := Suc (tick (os p))\<rparr>\<rparr>"
  have t: "time_text stamp p = Inr (stamp, ?p)"
    using assms(4,6,7) by (simp add: time_text_def proc_call_simps fault_free_def)
  note ml = make_line_ok [OF assms(2,5,7,8) refl, of rest]
  show ?thesis
  proof (cases "length stamp + length s \<le> 276")
    case False
    then show ?thesis using assms(1) ml by (simp add: iwlog_print_msg_def t defined_def)
  next
    case True
    define buf where "buf = stamp @ CHR '' '' # s @ NEWLINE # replicate (LOGMSGBUF_SIZE - (length stamp + length s + 2)) NUL"
    define n where "n = length stamp + length s + 2"
    have lb: "n \<le> length buf" using True by (simp add: buf_def n_def)
    have m: "make_line (lg_msgbuf l) (stamp @ [NUL]) (s @ NUL # rest) (length s) = Inr (buf, n)"
      using True ml by (simp add: buf_def n_def)
    let ?l = "l\<lparr>lg_msgbuf := buf, lg_msglen := n\<rparr>"
    let ?p2 = "?p\<lparr>alog := Log ?l, os := (os ?p)\<lparr>tick := Suc (tick (os ?p))\<rparr>\<rparr>"
    have l2: "alog ?p2 = Log ?l" by simp
    obtain p3 where p3: "log_pmsg 69 [Num (lg_fd l), Num (int n), Str (errtext ?p2)] ?p2 = Inr p3"
      using log_pmsg_log [OF l2 iwlog_find(4), of "[Num (lg_fd l), Num (int n), Str (errtext ?p2)]"] assms(3)
      by (auto simp: is_cstring_def)
    show ?thesis
      using assms(1) True m lb p3 by (simp add: iwlog_print_msg_def t Let_def proc_call_simps log_code_eval defined_def)
  qed
qed

theorem iwlog_print_msg_bounds_witness:
  "\<not> defined (iwlog_print_msg (replicate 260 CHR ''x'' @ [NUL]) 260 ''2012-01-01 00:00:00'' logging_process)"
proof -
  have "alog logging_process = Log log_obj" "length (lg_msgbuf log_obj) = LOGMSGBUF_SIZE" "is_cstring (errtext logging_process)"
    "fault_free (os logging_process)"
    by (simp_all add: logging_process_def log_obj_def start_process_def start_world_def fault_free_def is_cstring_def)
  from iwlog_print_msg_bounds [OF this, of "''2012-01-01 00:00:00''" "replicate 260 CHR ''x''" "[]"]
  show ?thesis by (simp add: is_cstring_def)
qed

text \<open>C36: when the log file cannot be opened, \<open>iwlog_init\<close> does not return \<open>IW_ERR\<close> as its caller
  expects: its own verbose message reads \<open>alog->fverbose\<close> while \<open>alog\<close> is still null. When
  the open succeeds, it returns; with memory at hand the result is a usable, open log,
  without memory an error and no log.\<close>

theorem iwlog_init_outcomes:
  assumes "alog p = No_log" and "is_cstring (errtext p)"
  defines "fd \<equiv> pick_fd (length (fds p)) (map fst (fds p)) 0"
    and "ok n \<equiv> outcome (os p) (tick (os p) + n) = 0"
  shows "(\<not> ok 0 \<longrightarrow> iwlog_init verbose p = Inl Null_deref) \<and>
    (ok 0 \<and> \<not> ok 1 \<longrightarrow> (\<exists>p'. iwlog_init verbose p = Inr (IW_ERR, p') \<and> alog p' = No_log)) \<and>
    (ok 0 \<and> ok 1 \<longrightarrow> (\<exists>p' l. iwlog_init verbose p = Inr (IW_OK, p') \<and> alog p' = Log l \<and> log_ok p' \<and>
       lg_verbose l = verbose \<and> lg_fd l = fd \<and> fds p' = (fd, Log_file) # fds p \<and> logready p' = logready p))"
proof -
  have nn: "fd \<noteq> -1" using pick_fd_ge [of 0 "length (fds p)" "map fst (fds p)"] unfolding fd_def by linarith
  have c: "log_code ''EV_FAIL_OPEN'' = 67" by (rule log_code_eval)
  have f: "find_status (if (1::nat) < 64 then iwlog_statmsgs else iwlog_statvmsgs) 1 = Inr (1, ''error: failed memory allocation, %s'')"
    using iwlog_find(6) by simp
  have e: "enum_code (Suc 0) L_STATCODE ''E_FAIL_MALLOC'' = 1" using log_code_eval(7) by simp
  let ?p = "p\<lparr>fds := (fd, Log_file) # fds p, os := (os p)\<lparr>tick := Suc (Suc (tick (os p)))\<rparr>\<rparr>"
  obtain p' where p': "log_pmsg 1 [Str ''iwlog_init''] ?p = Inr p'" "alog p' = alog p"
    using log_pmsg_ok [OF _ f, of ?p "[Str ''iwlog_init'']"] by (auto simp: is_cstring_def)
  have "iwlog_init verbose p = Inl Null_deref" if "\<not> ok 0"
    using that assms(1) by (simp add: iwlog_init_def sys_open_def proc_call_simps c log_pmsg_def ok_def)
  moreover have "\<exists>p'. iwlog_init verbose p = Inr (IW_ERR, p') \<and> alog p' = No_log" if "ok 0" "\<not> ok 1"
    using that assms(1) nn p'
    by (auto simp: iwlog_init_def sys_open_def proc_call_simps e ok_def Let_def close_fd_def simp flip: fd_def)
  moreover have "\<exists>p' l. iwlog_init verbose p = Inr (IW_OK, p') \<and> alog p' = Log l \<and> log_ok p' \<and>
       lg_verbose l = verbose \<and> lg_fd l = fd \<and> fds p' = (fd, Log_file) # fds p \<and> logready p' = logready p" if "ok 0" "ok 1"
    using that assms(2) nn
    by (auto simp: iwlog_init_def sys_open_def proc_call_simps ok_def Let_def log_ok_def simp flip: fd_def)
  ultimately show ?thesis by blast
qed

theorem iwlog_init_outcomes_witness:
  "\<exists>p' l. iwlog_init True start_process = Inr (IW_OK, p') \<and> alog p' = Log l \<and> lg_fd l = 3 \<and> log_ok p'"
proof -
  have "alog start_process = No_log" "is_cstring (errtext start_process)" by (simp_all add: start_process_def is_cstring_def)
  from iwlog_init_outcomes [OF this, of True] show ?thesis
    by (auto simp: start_process_def start_world_def)
qed

end
