(* ===== verification/Debug_Tables.thy ===== *)
theory Debug_Tables
  imports Status
begin

text \<open>
  What a \<open>DEBUG\<close> build adds to the status messages of \<open>tftp.c\<close> and \<open>datastore.c\<close>: the enumerators that
  follow the verbose ones and the entries that follow those of the verbose tables.
\<close>

section \<open>\<open>tftp.c\<close>\<close>

definition T_STATCODE_DEBUG :: "string list" where
  "T_STATCODE_DEBUG =
    [''DBG_ADD_EVENT'', ''DBG_ADD_INITEVENT'', ''DBG_ADD_SESSION'', ''DBG_CHECK_FILE'',
     ''DBG_CLEANUP_SESSION'', ''DBG_CLOSE_DATA'', ''DBG_CREATE_SOCKET'', ''DBG_DEL_ALLSESSION'',
     ''DBG_DEL_EVENT'', ''DBG_DEL_SESSION'', ''DBG_DS_IOLEN'', ''DBG_DS_LOAD'', ''DBG_DS_REQ'',
     ''DBG_DS_SAVE'', ''DBG_DS_SETREQ'', ''DBG_MAKE_TFTPACK'', ''DBG_MAKE_TFTPDATA'',
     ''DBG_MAKE_TFTPERROR'', ''DBG_OPCODE'', ''DBG_PARSE_TFTPACK'', ''DBG_PARSE_TFTPDATA'',
     ''DBG_PARSE_TFTPERROR'', ''DBG_PARSE_TFTPREQ'', ''DBG_PREPARE_RESEND'', ''DBG_RECV'',
     ''DBG_REMAIN_SESSION'', ''DBG_RESEND_SESSION'', ''DBG_RETRIEVE_SESSION'', ''DBG_SEND'',
     ''DBG_SENDINFO'', ''DBG_SEND_SESSION'', ''DBG_SESSION_ALL'', ''DBG_SESSION_EMPTY'',
     ''DBG_SESSION_ONE'', ''DBG_SET_DISABLE'', ''DBG_SET_FIN'', ''DBG_SOCKET'', ''DBG_START_EVLOOP'',
     ''DBG_START_TFTP'', ''DBG_TFTPACK'', ''DBG_TFTPDATA'', ''DBG_TFTPERROR'', ''DBG_TFTPREQ'',
     ''DBG_TFTP_PROC'', ''DBG_UPDATE_EVENT'', ''DBG_UPDATE_RETRY'', ''DBG_GET_SESBUF_DATA'',
     ''DBG_PUT_SESBUF_DATA'', ''DBG_SESBUF_IOLEN'', ''DBG_SESBUF'', ''DBG_SESBUF_EMPTY'',
     ''DBG_SESBUF_FULLORFIN'']"

definition iwtftp_dbgmsgs :: "(string \<times> string) list" where
  "iwtftp_dbgmsgs =
    [(''DBG_ADD_EVENT'', ''DBG: added a event to epoll, clip=%s, clport=%d''),
     (''DBG_ADD_INITEVENT'', ''DBG: epoll event initialization''),
     (''DBG_ADD_SESSION'', ''DBG: add a new session''),
     (''DBG_CHECK_FILE'', ''DBG: check the file in the datastore''),
     (''DBG_CLEANUP_SESSION'', ''DBG: clean up sessions''),
     (''DBG_CLOSE_DATA'', ''DBG: closing the file on datastore''),
     (''DBG_CREATE_SOCKET'', ''DBG: create a new socket''),
     (''DBG_DEL_ALLSESSION'', ''DBG: deleting all sessions''),
     (''DBG_DEL_EVENT'', ''DBG: deleted a event to epoll, clip=%s, clport=%d''),
     (''DBG_DEL_SESSION'', ''DBG: delete a session''),
     (''DBG_DS_IOLEN'', ''DBG: DS: I/O: datalen=%d completed''),
     (''DBG_DS_LOAD'', ''DBG: DS: loading data''),
     (''DBG_DS_REQ'', ''DBG: DS: REQ: dsid=%d, dfile=%s, dbuf=%s, dlen=%d, derr=%d''),
     (''DBG_DS_SAVE'', ''DBG: DS: saving data''),
     (''DBG_DS_SETREQ'', ''DBG: DS: setting a request ticket of the datastore''),
     (''DBG_MAKE_TFTPACK'', ''DBG: making a TFTP ACK message''),
     (''DBG_MAKE_TFTPDATA'', ''DBG: making a TFTP DATA message''),
     (''DBG_MAKE_TFTPERROR'', ''DBG: making a TFTP ERROR message''),
     (''DBG_OPCODE'', ''DBG: opcode=%s''),
     (''DBG_PARSE_TFTPACK'', ''DBG: parsing a TFTP ACK message''),
     (''DBG_PARSE_TFTPDATA'', ''DBG: parsing a TFTP DATA message''),
     (''DBG_PARSE_TFTPERROR'', ''DBG: parsing a TFTP ERROR message''),
     (''DBG_PARSE_TFTPREQ'', ''DBG: parsing a TFTP request message''),
     (''DBG_PREPARE_RESEND'', ''DBG: setting sendinfo and updating retry count of the session''),
     (''DBG_RECV'', ''DBG: received: rlen=%d, sock=%d, clip=%s, clport=%d''),
     (''DBG_REMAIN_SESSION'', ''DBG: remains of session''),
     (''DBG_RESEND_SESSION'', ''DBG: resend sessions''),
     (''DBG_RETRIEVE_SESSION'', ''DBG: retrieving the session, clip=%s, clport=%d''),
     (''DBG_SEND'', ''DBG: sent: msglen=%d, sock=%d, clip=%s, clport=%d''),
     (''DBG_SENDINFO'', ''DBG: SENDINFO: sendsock=%d, msglen=%d''),
     (''DBG_SEND_SESSION'', ''DBG: send a TFTP message to the client''),
     (''DBG_SESSION_ALL'', ''DBG: SES %d: '%s:%d', clsock=%d, regev=%d, file=%s, blk=%d, fin=%d, lastmlen=%u, time=%d, retry=%d, dis=%d''),
     (''DBG_SESSION_EMPTY'', ''DBG: session is empty''),
     (''DBG_SESSION_ONE'', ''DBG: SES: '%s:%d', clsock=%d, regev=%d, file=%s, blk=%d, fin=%d, lastmlen=%u, time=%d, retry=%d, dis=%d''),
     (''DBG_SET_DISABLE'', ''DBG: disabled this session''),
     (''DBG_SET_FIN'', ''DBG: finished this session''),
     (''DBG_SOCKET'', ''DBG: socket=%d, ip=%s, port=%s''),
     (''DBG_START_EVLOOP'', ''DBG: event loop start''),
     (''DBG_START_TFTP'', ''DBG: starting TFTP service''),
     (''DBG_TFTPACK'', ''DBG: TFTPACK: msglen=%d: op=%d, blk=%d''),
     (''DBG_TFTPDATA'', ''DBG: TFTPDATA: msglen=%d: op=%d, blk=%d, data=%s''),
     (''DBG_TFTPERROR'', ''DBG: TFTPERROR: msglen=%d, op=%d, ecode=%d, emsg=%s, emsglen=%d''),
     (''DBG_TFTPREQ'', ''DBG: TFTPREQ: msglen=%d: op=%d, file=%s, mode=%s''),
     (''DBG_TFTP_PROC'', ''DBG: TFTP processing''),
     (''DBG_UPDATE_EVENT'', ''DBG: updating epoll events''),
     (''DBG_UPDATE_RETRY'', ''DBG: updating retry count of the session''),
     (''DBG_GET_SESBUF_DATA'', ''DBG: reading from the session buffer''),
     (''DBG_PUT_SESBUF_DATA'', ''DBG: writing to the session buffer''),
     (''DBG_SESBUF_IOLEN'', ''DBG: SESBUF: I/O len=%d''),
     (''DBG_SESBUF'', ''DBG: SESBUF: mode=%d, datalen=%d''),
     (''DBG_SESBUF_EMPTY'', ''DBG: SESBUF: session buffer is empty''),
     (''DBG_SESBUF_FULLORFIN'', ''DBG: SESBUF: session buffer is full, or received the final data'')]"

definition iwtftp_dbg_statvmsgs :: status_tab where
  "iwtftp_dbg_statvmsgs = status_tab 65 (T_STATCODE_VERBOSE @ T_STATCODE_DEBUG) (iwtftp_vmsgs @ iwtftp_dbgmsgs)"

definition iwtftp_dbg_status :: status_mod where
  "iwtftp_dbg_status = iwtftp_status\<lparr>sm_vmsgs := iwtftp_dbg_statvmsgs\<rparr>"

section \<open>\<open>datastore.c\<close>\<close>

definition D_STATCODE_DEBUG :: "string list" where
  "D_STATCODE_DEBUG =
    [''DBG_READ_END'', ''DBG_READ'', ''DBG_FREAD'', ''DBG_FWRITE'', ''DBG_WRITE_END'',
     ''DBG_RETRIEVE_DSESSION'', ''DBG_DSREQ'', ''DBG_WRITE'', ''DBG_SET_CHROOT'',
     ''DBG_CLEANUP_DSESSION'', ''DBG_DSPATH'', ''DBG_GET_DSPATH'', ''DBG_CHECK_DSPATH'',
     ''DBG_FILE_EXIST'', ''DBG_FILE_NOTEXIST'', ''DBG_CHECK_FILE'', ''DBG_FSTAT'', ''DBG_FOPEN'',
     ''DBG_ADD_DSESSION'', ''DBG_FCLOSE'', ''DBG_DEL_DSESSION'', ''DBG_REMAIN_DSESSION'',
     ''DBG_DSESSION_EMPTY'', ''DBG_DSESSION'', ''DBG_DSESSION_ALL'', ''DBG_CLOSE_DSESSION'']"

definition iwds_dbgmsgs :: "(string \<times> string) list" where
  "iwds_dbgmsgs =
    [(''DBG_READ_END'', ''DBG: end of reading''),
     (''DBG_READ'', ''DBG: reading from the filesystem''),
     (''DBG_FREAD'', ''DBG: read: datalen=%d, fp=%p, file=%s''),
     (''DBG_FWRITE'', ''DBG: wrote: datalen=%d, fp=%p, file=%s''),
     (''DBG_WRITE_END'', ''DBG: end of writing''),
     (''DBG_RETRIEVE_DSESSION'', ''DBG: retrieving the dsession, id=%d, file=%s''),
     (''DBG_DSREQ'', ''DBG: dsreq: dsid=%d, dfile=%s, dbuf=%s, dlen=%d, derr=%d''),
     (''DBG_WRITE'', ''DBG: writing to the filesystem''),
     (''DBG_SET_CHROOT'', ''DBG: setting a chroot flag''),
     (''DBG_CLEANUP_DSESSION'', ''DBG: clean up all dsession''),
     (''DBG_DSPATH'', ''DBG: datastore path, dspath=%s, fchroot=%d''),
     (''DBG_GET_DSPATH'', ''DBG: get the path of datastore''),
     (''DBG_CHECK_DSPATH'', ''DBG: checking the path of datastore in the filesystem''),
     (''DBG_FILE_EXIST'', ''DBG: file exist''),
     (''DBG_FILE_NOTEXIST'', ''DBG: file does not exist''),
     (''DBG_CHECK_FILE'', ''DBG: checking a file in the filesystem''),
     (''DBG_FSTAT'', ''DBG: get status, path=%s''),
     (''DBG_FOPEN'', ''DBG: open the file, path=%s, mode=%s''),
     (''DBG_ADD_DSESSION'', ''DBG: add a new dsession''),
     (''DBG_FCLOSE'', ''DBG: closing the file, fp=%p, file=%s''),
     (''DBG_DEL_DSESSION'', ''DBG: delete a dsession''),
     (''DBG_REMAIN_DSESSION'', ''DBG: remains of dsession''),
     (''DBG_DSESSION_EMPTY'', ''DBG: dsession is empty''),
     (''DBG_DSESSION'', ''DBG: DSESSION: clid=%d, fp=%p, file=%s, derr=%d''),
     (''DBG_DSESSION_ALL'', ''DBG: DSESSION %d: clid=%d, fp=%p, file=%s, derr=%d''),
     (''DBG_CLOSE_DSESSION'', ''DBG: closing the dsession'')]"

definition iwds_dbg_statvmsgs :: status_tab where
  "iwds_dbg_statvmsgs = status_tab 65 (D_STATCODE_VERBOSE @ D_STATCODE_DEBUG) (iwds_vmsgs @ iwds_dbgmsgs)"

definition iwds_dbg_status :: status_mod where
  "iwds_dbg_status = iwds_status\<lparr>sm_vmsgs := iwds_dbg_statvmsgs\<rparr>"

section \<open>The tables\<close>

text \<open>The tables of a \<open>DEBUG\<close> build have an entry for every code too, and the codes of the other
  build keep their values and formats.\<close>

lemma enum_code_append: "nm \<in> set xs \<Longrightarrow> enum_code k (xs @ ys) nm = enum_code k xs nm"
proof -
  assume "nm \<in> set xs"
  then obtain us vs where "xs = us @ nm # vs" "nm \<notin> set us" by (blast dest: split_list_first)
  then show ?thesis by (auto simp: enum_code_def takeWhile_append)
qed

lemma tftp_debug_names: "map fst iwtftp_dbgmsgs = T_STATCODE_DEBUG" "map fst iwtftp_vmsgs = T_STATCODE_VERBOSE"
  by (simp_all add: iwtftp_dbgmsgs_def T_STATCODE_DEBUG_def iwtftp_vmsgs_def T_STATCODE_VERBOSE_def)

lemma ds_debug_names: "map fst iwds_dbgmsgs = D_STATCODE_DEBUG" "map fst iwds_vmsgs = D_STATCODE_VERBOSE"
  by (simp_all add: iwds_dbgmsgs_def D_STATCODE_DEBUG_def iwds_vmsgs_def D_STATCODE_VERBOSE_def)

lemma T_DEBUG_distinct: "distinct T_STATCODE_DEBUG"
  by code_simp

lemma D_DEBUG_distinct: "distinct D_STATCODE_DEBUG"
  by code_simp

lemma VERBOSE_distinct: "distinct T_STATCODE_VERBOSE" "distinct D_STATCODE_VERBOSE"
  by code_simp+

lemma disjoint_by_hd: "list_all (\<lambda>x. hd x \<noteq> c) xs \<Longrightarrow> list_all (\<lambda>x. hd x = c) ys \<Longrightarrow> set xs \<inter> set ys = {}"
  by (auto simp: list_all_iff)

lemma VERBOSE_DEBUG_disjoint:
  "set T_STATCODE_VERBOSE \<inter> set T_STATCODE_DEBUG = {}" "set D_STATCODE_VERBOSE \<inter> set D_STATCODE_DEBUG = {}"
  by (rule disjoint_by_hd [of "CHR ''D''"]; code_simp)+

lemmas debug_distinct = T_DEBUG_distinct D_DEBUG_distinct VERBOSE_distinct VERBOSE_DEBUG_disjoint

lemma debug_tables_complete:
  "tab_covers 65 (T_STATCODE_VERBOSE @ T_STATCODE_DEBUG) iwtftp_dbg_statvmsgs \<and>
   tab_covers 65 (D_STATCODE_VERBOSE @ D_STATCODE_DEBUG) iwds_dbg_statvmsgs"
  unfolding iwtftp_dbg_statvmsgs_def iwds_dbg_statvmsgs_def
  by (simp add: status_tab_covers_names tftp_debug_names ds_debug_names debug_distinct)

end
