(* ===== verification/Status_Calls.thy ===== *)
theory Status_Calls
  imports Debug_Tables
begin

text \<open>
  The calls of \<open>pmsg\<close> in the four modules, and those a \<open>DEBUG\<close> build adds: the line, the status code
  and what the arguments are in C, compared with the conversions of the format the code
  selects. One table per group of functions, in the order of the source.
\<close>

section \<open>Calls\<close>

text \<open>What an argument is: \<open>char *\<close>, a type that is passed as \<open>int\<close>, \<open>unsigned\<close>, another pointer,
  \<open>size_t\<close> or \<open>ssize_t\<close>.\<close>

datatype argkind = A_str | A_int | A_uint | A_ptr | A_size

text \<open>The module whose \<open>pmsg\<close> is called, also in a \<open>DEBUG\<close> build.\<close>

datatype source = M_log | M_ds | M_tftp | M_main | M_ds_dbg | M_tftp_dbg

type_synonym call = "nat \<times> string \<times> argkind list"

subsection \<open>\<open>tftp.c\<close>\<close>

definition init_calls :: "call list" where
  "init_calls =
    [(190, ''E_FAIL_MALLOC'', [A_str]),
     (197, ''EV_NULL_OBJ'', []),
     (205, ''E_FAIL_GET_IFADDRESS'', [A_str]),
     (211, ''E_IF_NOADDR'', [A_str, A_int]),
     (217, ''E_IF_NOADDR'', [A_str, A_int]),
     (231, ''E_FAIL_CREATE_SOCKET'', [A_int, A_str, A_str]),
     (243, ''E_FAIL_CREATE_SOCKET'', [A_int, A_str, A_str])]"

definition service_calls :: "call list" where
  "service_calls =
    [(314, ''EV_NULL_OBJ'', []),
     (319, ''EV_FAIL_EPOLL_CREATE'', [A_str]),
     (334, ''EV_FAIL_EPOLL_CTL'', [A_str, A_str, A_str, A_str]),
     (341, ''E_EVENT_NOTEXIST'', []),
     (352, ''EV_FAIL_EPOLL_WAIT'', [A_str]),
     (363, ''EV_FAIL_RECVFROM'', [A_str]),
     (370, ''EV_FAIL_GETNAMEINFO'', [A_str]),
     (371, ''E_FAIL_ADDRCONVERT'', []),
     (376, ''EV_BUF_TOOSHORT'', [A_str]),
     (377, ''E_FAIL_ADDRCONVERT'', []),
     (387, ''E_FAIL_TFTP_PROC'', []),
     (402, ''EV_FAIL_SENDTO'', [A_str, A_int, A_str]),
     (406, ''I_TFTPTRANS_FIN'', [A_str, A_str, A_int]),
     (415, ''E_FAIL_UPDATE_EVENT'', [])]"

definition socket_calls :: "call list" where
  "socket_calls =
    [(524, ''EV_FAIL_GETIFADDRS'', [A_str, A_str]),
     (536, ''E_IF_NOTFOUND'', [A_str]),
     (548, ''EV_FAIL_INET_NTOP'', [A_int, A_str, A_str]),
     (558, ''EV_FAIL_INET_NTOP'', [A_int, A_str, A_str]),
     (597, ''EV_FAIL_GETADDRINFO'', [A_str]),
     (602, ''EV_FAIL_SOCKET'', [A_str]),
     (608, ''EV_FAIL_SETSOCKOPT'', [A_str]),
     (613, ''EV_FAIL_BIND'', [A_str]),
     (645, ''EV_FAIL_EPOLL_CTL'', [A_str, A_str, A_int, A_str]),
     (656, ''EV_FAIL_EPOLL_CTL'', [A_str, A_str, A_int, A_str])]"

definition proc_calls :: "call list" where
  "proc_calls =
    [(715, ''I_TFTPREQ_INCORRECT'', [A_str, A_int]),
     (720, ''I_TFTPREQ_GET'', [A_str, A_str, A_int]),
     (720, ''I_TFTPREQ_PUT'', [A_str, A_str, A_int]),
     (726, ''I_FILE_EXIST'', [A_str]),
     (734, ''I_FILE_NOTFOUND'', [A_str]),
     (743, ''EV_FAIL_ADD_NEWSESSION'', [A_str, A_int]),
     (744, ''E_SERVER_ERR'', []),
     (762, ''E_FAIL_MAKEACK'', [A_str, A_int]),
     (778, ''I_TFTPDATA_INCORRECT'', [A_str, A_int]),
     (796, ''EV_FAIL_PUT_SESBUF'', [A_str, A_int]),
     (808, ''E_FAIL_MAKEACK'', [A_str, A_int]),
     (815, ''I_INVALID_BLKNUM'', [A_str, A_str, A_int]),
     (829, ''I_TFTPACK_INCORRECT'', [A_str, A_int]),
     (853, ''I_INVALID_BLKNUM'', [A_str, A_str, A_int]),
     (860, ''I_INVALID_TFTPMSG'', [A_str, A_str, A_int]),
     (865, ''I_TFTPERROR_INCORRECT'', [A_str, A_int]),
     (868, ''I_TFTPERROR_RECV'', [A_int, A_str, A_str, A_int]),
     (877, ''IV_UNKNOWN_MSG'', [A_str, A_int]),
     (911, ''E_FAIL_MAKEERROR'', [A_str, A_int])]"

definition session_calls :: "call list" where
  "session_calls =
    [(951, ''EV_FAIL_GETSOCKNAME'', [A_str]),
     (952, ''E_FAIL_RESEND'', [A_str, A_int]),
     (966, ''EV_FAIL_SENDTO'', [A_str, A_int, A_str]),
     (967, ''E_FAIL_RESEND'', [A_str, A_int]),
     (992, ''EV_FAIL_CREATE_SESSION'', []),
     (1011, ''EV_FAIL_GETSOCKNAME'', [A_str]),
     (1016, ''EV_FAIL_GETNAMEINFO'', [A_str]),
     (1022, ''E_FAIL_CREATE_SOCKET'', [A_int, A_str, A_str]),
     (1040, ''E_FAIL_MALLOC'', [A_str]),
     (1048, ''E_FAIL_MALLOC'', [A_str]),
     (1093, ''EV_SESSION_NOTFOUND'', [A_str, A_int])]"

definition parse_calls :: "call list" where
  "parse_calls =
    [(1181, ''IV_REQLEN_TOOSHORT'', []),
     (1188, ''IV_OPCODE_INCORRECT'', []),
     (1201, ''IV_FILENAME_INCORRECT'', []),
     (1220, ''IV_MODE_INCORRECT'', []),
     (1238, ''IV_DATA_INCORRECT'', []),
     (1253, ''IV_OPCODE_INCORRECT'', []),
     (1271, ''IV_ACK_INCORRECT'', []),
     (1278, ''IV_OPCODE_INCORRECT'', []),
     (1300, ''IV_ERRORLEN_TOOSHORT'', []),
     (1307, ''IV_OPCODE_INCORRECT'', []),
     (1321, ''IV_ERRMSG_INCORRECT'', [])]"

definition make_calls :: "call list" where
  "make_calls =
    [(1344, ''EV_BUF_TOOSHORT'', [A_str]),
     (1359, ''EV_FAIL_GET_SESBUF'', [A_str, A_int]),
     (1394, ''EV_BUF_TOOSHORT'', [A_str]),
     (1442, ''EV_ERRMSG_TOOLONG'', [])]"

definition buffer_calls :: "call list" where
  "buffer_calls =
    [(1472, ''E_FAIL_LOADFILE'', [A_str]),
     (1560, ''E_FAIL_SAVEFILE'', [A_str])]"

definition storage_calls :: "call list" where
  "storage_calls =
    [(1678, ''E_DS_FAIL_READ'', [A_str]),
     (1714, ''E_DS_FAIL_WRITE'', [A_str]),
     (1746, ''E_DS_FAIL_CLOSE'', [A_str])]"

subsection \<open>\<open>datastore.c\<close>\<close>

definition iwds_calls :: "call list" where
  "iwds_calls =
    [(116, ''EV_FAIL_REALPATH'', [A_str, A_str]),
     (117, ''E_DSPATH_INCORRECT'', [A_str]),
     (123, ''E_DSPATH_INCORRECT'', [A_str]),
     (128, ''E_FAIL_MALLOC'', [A_str]),
     (153, ''EV_NULL_OBJ'', []),
     (159, ''EV_NODSREQ'', []),
     (168, ''E_FAIL_CHECKFILE'', [A_str]),
     (172, ''E_FILE_NOTEXIST'', [A_str]),
     (181, ''EV_FAIL_CREATE_DSESSION'', [A_int, A_str]),
     (191, ''E_FAIL_FREAD'', [A_str]),
     (221, ''EV_NULL_OBJ'', []),
     (227, ''EV_NODSREQ'', []),
     (238, ''E_FAIL_CHECKFILE'', [A_str]),
     (242, ''E_FILE_EXIST'', [A_str]),
     (248, ''EV_FAIL_CREATE_DSESSION'', [A_int, A_str]),
     (268, ''E_FAIL_FWRITE'', [A_str]),
     (294, ''EV_NULL_OBJ'', []),
     (300, ''EV_NODSREQ'', []),
     (310, ''EV_DSESSION_NOTFOUND'', [A_int, A_str]),
     (329, ''EV_NULL_OBJ'', []),
     (346, ''EV_NULL_OBJ'', []),
     (379, ''EV_FAIL_FCLOSE'', [A_str]),
     (398, ''EV_NULL_OBJ'', [])]"

definition dsession_calls :: "call list" where
  "dsession_calls =
    [(503, ''E_FAIL_MALLOC'', [A_str]),
     (509, ''EV_FAIL_JOIN_PATH'', [A_str, A_str]),
     (564, ''E_FAIL_MALLOC'', [A_str]),
     (569, ''EV_FAIL_JOIN_PATH'', [A_str, A_str]),
     (576, ''EV_FAIL_FOPEN'', [A_str, A_str]),
     (581, ''EV_FAIL_ADD_DSESSION'', []),
     (588, ''E_FAIL_MALLOC'', [A_str]),
     (614, ''E_FAIL_MALLOC'', [A_str]),
     (639, ''EV_DSESSION_NOTFOUND'', [A_int, A_str]),
     (663, ''EV_FAIL_FCLOSE'', [A_str])]"

subsection \<open>\<open>iwtftpd.c\<close>\<close>

definition main_calls :: "call list" where
  "main_calls =
    [(93, ''EV_FAIL_CREATE_SVCONF'', []),
     (108, ''I_NOASROOT'', []),
     (114, ''E_FAIL_INIT_SIGNAL'', []),
     (119, ''E_FAIL_INIT_SIGNAL'', []),
     (126, ''E_LOG_FAIL_INIT'', []),
     (134, ''E_LOG_MODERR'', []),
     (140, ''E_FAIL_DAEMONIZE'', []),
     (147, ''E_DS_FAIL_INIT'', []),
     (154, ''E_TFTP_FAIL_INIT'', []),
     (162, ''E_USER_UNKNOWN'', [A_str]),
     (168, ''E_FAIL_EXEC_CHROOT'', [A_str]),
     (174, ''E_DS_FAIL_SETCHROOT'', []),
     (180, ''E_FAIL_SET_CREDENTIAL'', [A_str]),
     (186, ''I_START_SERVER'', []),
     (188, ''E_FAIL_SERVICE'', []),
     (193, ''I_EXIT_SERVER'', []),
     (201, ''I_SHOW_VER'', []),
     (207, ''E_FATALERR'', [])]"

definition config_calls :: "call list" where
  "config_calls =
    [(279, ''E_FAIL_MALLOC'', [A_str]),
     (339, ''E_OPTION_BAD'', [A_str, A_str]),
     (344, ''E_OPTION_BAD'', [A_str, A_str]),
     (354, ''E_OPTION_BAD'', [A_str, A_str])]"

definition daemon_calls :: "call list" where
  "daemon_calls =
    [(383, ''EV_FAIL_SIGACTION'', [A_str, A_str]),
     (392, ''EV_FAIL_SIGACTION'', [A_str, A_str]),
     (420, ''EV_FAIL_FORK'', [A_str]),
     (430, ''EV_FAIL_OPEN'', [A_str, A_str]),
     (442, ''EV_FAIL_DUP2'', [A_int, A_str]),
     (451, ''EV_FAIL_SETSID'', [A_str]),
     (466, ''EV_FAIL_CHROOT'', [A_str, A_str]),
     (471, ''EV_FAIL_CHDIR'', [A_str, A_str]),
     (487, ''EV_FAIL_SETGID'', [A_int, A_str]),
     (492, ''EV_FAIL_INITGROUPS'', [A_str, A_str]),
     (497, ''EV_FAIL_SETUID'', [A_int, A_str])]"

subsection \<open>\<open>logging.c\<close>\<close>

definition iwlog_calls :: "call list" where
  "iwlog_calls =
    [(66, ''EV_FAIL_OPEN'', [A_str, A_str]),
     (71, ''E_FAIL_MALLOC'', [A_str]),
     (99, ''EV_NULL_OBJ'', []),
     (106, ''EV_FAIL_LOCALTIME'', [A_str]),
     (111, ''EV_FAIL_STRFTIME'', [A_str]),
     (141, ''EV_FAIL_WRITE'', [A_int, A_size, A_str]),
     (151, ''EV_NULL_OBJ'', []),
     (171, ''EV_FAIL_CLOSE'', [A_int, A_str])]"

definition pmsg_calls :: "(source \<times> call) list" where
  "pmsg_calls = map (Pair M_tftp) (init_calls @ service_calls @ socket_calls @ proc_calls @ session_calls @
       parse_calls @ make_calls @ buffer_calls @ storage_calls) @
     map (Pair M_ds) (iwds_calls @ dsession_calls) @
     map (Pair M_main) (main_calls @ config_calls @ daemon_calls) @ map (Pair M_log) iwlog_calls"

section \<open>The calls of a \<open>DEBUG\<close> build\<close>

text \<open>They are written with macros: \<open>DBG_PRINT\<close> prints a code without arguments, the others pass their
  arguments on. The macros that call a function are not listed, but the calls in these functions.\<close>

definition tftp_dbg_macros :: "(string \<times> string \<times> argkind list) list" where
  "tftp_dbg_macros =
    [(''DBG_SH_ADDEVENT'', ''DBG_ADD_EVENT'', [A_str, A_int]),
     (''DBG_SH_DELEVENT'', ''DBG_DEL_EVENT'', [A_str, A_int]),
     (''DBG_SH_DSIOLEN'', ''DBG_DS_IOLEN'', [A_size]),
     (''DBG_SH_DSREQ'', ''DBG_DS_REQ'', [A_int, A_str, A_str, A_size, A_int]),
     (''DBG_SH_QUERY'', ''DBG_RETRIEVE_SESSION'', [A_str, A_int]),
     (''DBG_SH_RECV'', ''DBG_RECV'', [A_size, A_int, A_str, A_int]),
     (''DBG_SH_SEND'', ''DBG_SEND'', [A_size, A_int, A_str, A_int]),
     (''DBG_SH_SENDINFO'', ''DBG_SENDINFO'', [A_int, A_size]),
     (''DBG_SH_SOCKET'', ''DBG_SOCKET'', [A_int, A_str, A_str]),
     (''DBG_SH_SESBUF_IOLEN'', ''DBG_SESBUF_IOLEN'', [A_size]),
     (''DBG_SH_SESBUF'', ''DBG_SESBUF'', [A_int, A_size])]"

definition ds_dbg_macros :: "(string \<times> string \<times> argkind list) list" where
  "ds_dbg_macros =
    [(''DBG_CLOSE_FILE'', ''DBG_FCLOSE'', [A_ptr, A_str]),
     (''DBG_OPEN_FILE'', ''DBG_FOPEN'', [A_str, A_str]),
     (''DBG_STAT_FILE'', ''DBG_FSTAT'', [A_str]),
     (''DBG_SH_DSPATH'', ''DBG_DSPATH'', [A_str, A_int]),
     (''DBG_SH_DSREQ'', ''DBG_DSREQ'', [A_int, A_str, A_str, A_size, A_int]),
     (''DBG_SH_QUERY'', ''DBG_RETRIEVE_DSESSION'', [A_int, A_str]),
     (''DBG_SH_READ'', ''DBG_FREAD'', [A_size, A_ptr, A_str]),
     (''DBG_SH_WRITE'', ''DBG_FWRITE'', [A_size, A_ptr, A_str])]"

datatype dbg_use = Print string | Macro string

fun macro_call :: "(string \<times> string \<times> argkind list) list \<Rightarrow> nat \<times> dbg_use \<Rightarrow> call" where
  "macro_call ms (line, Print nm) = (line, nm, [])"
| "macro_call ms (line, Macro m) = (case map_of ms m of Some (nm, kinds) \<Rightarrow> (line, nm, kinds) | None \<Rightarrow> (line, m, []))"

subsection \<open>\<open>tftp.c\<close>\<close>

definition service_dbg :: "(nat \<times> dbg_use) list" where
  "service_dbg =
    [(311, Print ''DBG_START_TFTP''), (325, Print ''DBG_ADD_INITEVENT''),
     (345, Print ''DBG_START_EVLOOP''), (383, Macro ''DBG_SH_RECV''), (394, Macro ''DBG_SH_SENDINFO''),
     (409, Macro ''DBG_SH_SEND'')]"

definition socket_dbg :: "(nat \<times> dbg_use) list" where
  "socket_dbg =
    [(581, Print ''DBG_CREATE_SOCKET''), (619, Macro ''DBG_SH_SOCKET''),
     (632, Print ''DBG_UPDATE_EVENT''), (650, Macro ''DBG_SH_ADDEVENT''),
     (661, Macro ''DBG_SH_DELEVENT'')]"

definition proc_dbg :: "(nat \<times> dbg_use) list" where
  "proc_dbg =
    [(681, Print ''DBG_TFTP_PROC''), (701, Macro ''DBG_SH_QUERY''), (722, Print ''DBG_CHECK_FILE''),
     (789, Print ''DBG_SET_FIN''), (794, Print ''DBG_PUT_SESBUF_DATA''),
     (840, Print ''DBG_SET_DISABLE''), (871, Print ''DBG_SET_DISABLE''),
     (888, Print ''DBG_PREPARE_RESEND''), (896, Print ''DBG_SET_DISABLE'')]"

definition session_dbg :: "(nat \<times> dbg_use) list" where
  "session_dbg =
    [(926, Print ''DBG_RESEND_SESSION''), (956, Print ''DBG_UPDATE_RETRY''),
     (962, Print ''DBG_SEND_SESSION''), (971, Macro ''DBG_SH_SEND''), (984, Print ''DBG_ADD_SESSION''),
     (1089, Print ''DBG_DEL_SESSION''), (1123, Print ''DBG_DEL_ALLSESSION''),
     (1146, Print ''DBG_CLEANUP_SESSION''), (1165, Print ''DBG_REMAIN_SESSION'')]"

definition parse_dbg :: "(nat \<times> dbg_use) list" where
  "parse_dbg =
    [(1175, Print ''DBG_PARSE_TFTPREQ''), (1235, Print ''DBG_PARSE_TFTPDATA''),
     (1268, Print ''DBG_PARSE_TFTPACK''), (1295, Print ''DBG_PARSE_TFTPERROR'')]"

definition make_dbg :: "(nat \<times> dbg_use) list" where
  "make_dbg =
    [(1338, Print ''DBG_MAKE_TFTPDATA''), (1357, Print ''DBG_GET_SESBUF_DATA''),
     (1365, Print ''DBG_SET_FIN''), (1389, Print ''DBG_MAKE_TFTPACK''),
     (1425, Print ''DBG_MAKE_TFTPERROR'')]"

definition buffer_dbg :: "(nat \<times> dbg_use) list" where
  "buffer_dbg =
    [(1470, Print ''DBG_SESBUF_EMPTY''), (1482, Macro ''DBG_SH_SESBUF''),
     (1494, Macro ''DBG_SH_SESBUF_IOLEN''), (1495, Macro ''DBG_SH_SESBUF''),
     (1529, Macro ''DBG_SH_SESBUF''), (1544, Macro ''DBG_SH_SESBUF_IOLEN''),
     (1545, Macro ''DBG_SH_SESBUF''), (1558, Print ''DBG_SESBUF_FULLORFIN'')]"

definition storage_dbg :: "(nat \<times> dbg_use) list" where
  "storage_dbg =
    [(1663, Print ''DBG_DS_LOAD''), (1666, Print ''DBG_DS_SETREQ''), (1674, Macro ''DBG_SH_DSREQ''),
     (1682, Macro ''DBG_SH_DSIOLEN''), (1683, Macro ''DBG_SH_DSREQ''), (1698, Print ''DBG_DS_SAVE''),
     (1702, Print ''DBG_DS_SETREQ''), (1710, Macro ''DBG_SH_DSREQ''), (1718, Macro ''DBG_SH_DSIOLEN''),
     (1719, Macro ''DBG_SH_DSREQ''), (1735, Print ''DBG_CLOSE_DATA'')]"

definition show_dbg_calls :: "call list" where
  "show_dbg_calls =
    [(1759, ''DBG_SESSION_EMPTY'', []),
     (1764, ''DBG_SESSION_ONE'', [A_str, A_int, A_int, A_int, A_str, A_int, A_int, A_size, A_int, A_int, A_int]),
     (1777, ''DBG_SESSION_EMPTY'', []),
     (1783, ''DBG_SESSION_ALL'', [A_int, A_str, A_int, A_int, A_int, A_str, A_int, A_int, A_size, A_int, A_int, A_int]),
     (1793, ''DBG_OPCODE'', [A_str]),
     (1807, ''DBG_TFTPREQ'', [A_size, A_int, A_str, A_str]),
     (1811, ''DBG_TFTPDATA'', [A_size, A_int, A_int, A_str]),
     (1815, ''DBG_TFTPACK'', [A_size, A_int, A_int]),
     (1819, ''DBG_TFTPERROR'', [A_size, A_int, A_int, A_str, A_size])]"

subsection \<open>\<open>datastore.c\<close>\<close>

definition iwds_dbg :: "(nat \<times> dbg_use) list" where
  "iwds_dbg =
    [(147, Print ''DBG_READ''), (164, Macro ''DBG_SH_DSREQ''), (177, Macro ''DBG_SH_QUERY''),
     (197, Print ''DBG_READ_END''), (202, Macro ''DBG_SH_READ''), (215, Print ''DBG_WRITE''),
     (232, Macro ''DBG_SH_DSREQ''), (233, Macro ''DBG_SH_QUERY''), (257, Print ''DBG_WRITE_END''),
     (263, Macro ''DBG_SH_DSREQ''), (275, Macro ''DBG_SH_WRITE''), (289, Print ''DBG_CLOSE_DSESSION''),
     (305, Macro ''DBG_SH_QUERY''), (343, Print ''DBG_SET_CHROOT''), (354, Macro ''DBG_SH_DSPATH''),
     (365, Print ''DBG_CLEANUP_DSESSION''), (376, Macro ''DBG_CLOSE_FILE''),
     (395, Print ''DBG_GET_DSPATH''), (402, Macro ''DBG_SH_DSPATH'')]"

definition dsession_dbg :: "(nat \<times> dbg_use) list" where
  "dsession_dbg =
    [(481, Print ''DBG_CHECK_DSPATH''), (484, Macro ''DBG_STAT_FILE''),
     (496, Print ''DBG_CHECK_FILE''), (513, Macro ''DBG_STAT_FILE''),
     (518, Print ''DBG_FILE_NOTEXIST''), (555, Print ''DBG_ADD_DSESSION''),
     (573, Macro ''DBG_OPEN_FILE''), (635, Print ''DBG_DEL_DSESSION''),
     (661, Macro ''DBG_CLOSE_FILE''), (669, Print ''DBG_REMAIN_DSESSION'')]"

definition show_ds_dbg_calls :: "call list" where
  "show_ds_dbg_calls =
    [(684, ''DBG_DSESSION_EMPTY'', []), (687, ''DBG_DSESSION'', [A_int, A_ptr, A_str, A_int]),
     (698, ''DBG_DSESSION_EMPTY'', []), (702, ''DBG_DSESSION_ALL'', [A_int, A_int, A_ptr, A_str, A_int])]"

definition tftp_dbg_calls :: "call list" where
  "tftp_dbg_calls = map (macro_call tftp_dbg_macros) (service_dbg @ socket_dbg @ proc_dbg @ session_dbg @ parse_dbg @
     make_dbg @ buffer_dbg @ storage_dbg) @ show_dbg_calls"

definition ds_dbg_calls :: "call list" where
  "ds_dbg_calls = map (macro_call ds_dbg_macros) (iwds_dbg @ dsession_dbg) @ show_ds_dbg_calls"

definition dbg_calls :: "(source \<times> call) list" where
  "dbg_calls = map (Pair M_tftp_dbg) tftp_dbg_calls @ map (Pair M_ds_dbg) ds_dbg_calls"

section \<open>What the formats ask for\<close>

fun status_of :: "source \<Rightarrow> status_mod" where
  "status_of M_log = iwlog_status"
| "status_of M_ds = iwds_status"
| "status_of M_tftp = iwtftp_status"
| "status_of M_main = iwtftpd_status"
| "status_of M_ds_dbg = iwds_dbg_status"
| "status_of M_tftp_dbg = iwtftp_dbg_status"

fun codes_of :: "source \<Rightarrow> string list \<times> string list" where
  "codes_of M_log = (L_STATCODE, L_STATCODE_VERBOSE)"
| "codes_of M_ds = (D_STATCODE, D_STATCODE_VERBOSE)"
| "codes_of M_tftp = (T_STATCODE, T_STATCODE_VERBOSE)"
| "codes_of M_main = (STATCODE, STATCODE_VERBOSE)"
| "codes_of M_ds_dbg = (D_STATCODE, D_STATCODE_VERBOSE @ D_STATCODE_DEBUG)"
| "codes_of M_tftp_dbg = (T_STATCODE, T_STATCODE_VERBOSE @ T_STATCODE_DEBUG)"

text \<open>The value of the name of a status code.\<close>

definition call_code :: "source \<Rightarrow> string \<Rightarrow> nat" where
  "call_code md nm = (case codes_of md of (cs, vs) \<Rightarrow>
     if nm \<in> set cs then enum_code 1 cs nm else enum_code 65 vs nm)"

fun kind_of_conv :: "conv \<Rightarrow> argkind" where
  "kind_of_conv C_s = A_str"
| "kind_of_conv C_d = A_int"
| "kind_of_conv C_u = A_uint"
| "kind_of_conv C_p = A_ptr"

text \<open>The call, in a module with these codes and tables, does not pass what the format asks for.\<close>

definition misfit :: "string list \<Rightarrow> string list \<Rightarrow> status_tab \<Rightarrow> status_tab \<Rightarrow> call \<Rightarrow> bool" where
  "misfit cs vs tab vtab c = (case c of (line, nm, kinds) \<Rightarrow>
     let verbose = (nm \<notin> set cs); code = (if verbose then enum_code 65 vs nm else enum_code 1 cs nm) in
     case find_status (if verbose then vtab else tab) code of
       Inl e \<Rightarrow> True
     | Inr (code', fmt) \<Rightarrow> code' = 0 \<or> \<not> is_cstring fmt \<or> map kind_of_conv (conversions fmt) \<noteq> kinds)"

fun arg_kind :: "farg \<Rightarrow> argkind" where
  "arg_kind (Str s) = A_str"
| "arg_kind (Num i) = A_int"
| "arg_kind (Ptr s) = A_ptr"

lemma arg_kind_takes: "map arg_kind args = map kind_of_conv cs \<Longrightarrow> list_all2 takes cs args"
proof (induction args arbitrary: cs)
  case (Cons a args)
  then obtain c cs' where c: "cs = c # cs'" "arg_kind a = kind_of_conv c" "map arg_kind args = map kind_of_conv cs'"
    by (cases cs) auto
  then have "takes c a" by (cases a; cases c) auto
  with c Cons.IH show ?case by simp
qed simp

lemma arg_kind_not_size: "arg_kind a \<noteq> A_size"
  by (cases a) auto

text \<open>The calls that do not fit their formats, in all modules.\<close>

definition misfits :: "(source \<times> call) list" where
  "misfits = [(M_tftp, 334, ''EV_FAIL_EPOLL_CTL'', [A_str, A_str, A_str, A_str]),
     (M_ds, 379, ''EV_FAIL_FCLOSE'', [A_str]), (M_ds, 663, ''EV_FAIL_FCLOSE'', [A_str]),
     (M_log, 141, ''EV_FAIL_WRITE'', [A_int, A_size, A_str])]"

fun misfit_of :: "source \<times> call \<Rightarrow> bool" where
  "misfit_of (md, c) = misfit (fst (codes_of md)) (snd (codes_of md)) (sm_msgs (status_of md)) (sm_vmsgs (status_of md)) c"

lemma init_fit: "filter (misfit T_STATCODE T_STATCODE_VERBOSE iwtftp_statmsgs iwtftp_statvmsgs) init_calls = []"
  by code_simp

lemma service_fit: "filter (misfit T_STATCODE T_STATCODE_VERBOSE iwtftp_statmsgs iwtftp_statvmsgs) service_calls = [(334, ''EV_FAIL_EPOLL_CTL'', [A_str, A_str, A_str, A_str])]"
  by code_simp

lemma socket_fit: "filter (misfit T_STATCODE T_STATCODE_VERBOSE iwtftp_statmsgs iwtftp_statvmsgs) socket_calls = []"
  by code_simp

lemma proc_fit: "filter (misfit T_STATCODE T_STATCODE_VERBOSE iwtftp_statmsgs iwtftp_statvmsgs) proc_calls = []"
  by code_simp

lemma session_fit: "filter (misfit T_STATCODE T_STATCODE_VERBOSE iwtftp_statmsgs iwtftp_statvmsgs) session_calls = []"
  by code_simp

lemma parse_fit: "filter (misfit T_STATCODE T_STATCODE_VERBOSE iwtftp_statmsgs iwtftp_statvmsgs) parse_calls = []"
  by code_simp

lemma make_fit: "filter (misfit T_STATCODE T_STATCODE_VERBOSE iwtftp_statmsgs iwtftp_statvmsgs) make_calls = []"
  by code_simp

lemma buffer_fit: "filter (misfit T_STATCODE T_STATCODE_VERBOSE iwtftp_statmsgs iwtftp_statvmsgs) buffer_calls = []"
  by code_simp

lemma storage_fit: "filter (misfit T_STATCODE T_STATCODE_VERBOSE iwtftp_statmsgs iwtftp_statvmsgs) storage_calls = []"
  by code_simp

lemma iwds_fit: "filter (misfit D_STATCODE D_STATCODE_VERBOSE iwds_statmsgs iwds_statvmsgs) iwds_calls = [(379, ''EV_FAIL_FCLOSE'', [A_str])]"
  by code_simp

lemma dsession_fit: "filter (misfit D_STATCODE D_STATCODE_VERBOSE iwds_statmsgs iwds_statvmsgs) dsession_calls = [(663, ''EV_FAIL_FCLOSE'', [A_str])]"
  by code_simp

lemma main_fit: "filter (misfit STATCODE STATCODE_VERBOSE iwtftpd_statmsgs iwtftpd_statvmsgs) main_calls = []"
  by code_simp

lemma config_fit: "filter (misfit STATCODE STATCODE_VERBOSE iwtftpd_statmsgs iwtftpd_statvmsgs) config_calls = []"
  by code_simp

lemma daemon_fit: "filter (misfit STATCODE STATCODE_VERBOSE iwtftpd_statmsgs iwtftpd_statvmsgs) daemon_calls = []"
  by code_simp

lemma iwlog_fit: "filter (misfit L_STATCODE L_STATCODE_VERBOSE iwlog_statmsgs iwlog_statvmsgs) iwlog_calls = [(141, ''EV_FAIL_WRITE'', [A_int, A_size, A_str])]"
  by code_simp

lemmas group_fit = init_fit service_fit socket_fit proc_fit session_fit parse_fit make_fit buffer_fit storage_fit iwds_fit dsession_fit main_fit config_fit daemon_fit iwlog_fit

lemma calls_misfit: "filter misfit_of pmsg_calls = misfits"
proof -
  have m: "misfit_of \<circ> Pair M_tftp = misfit T_STATCODE T_STATCODE_VERBOSE iwtftp_statmsgs iwtftp_statvmsgs" "misfit_of \<circ> Pair M_ds = misfit D_STATCODE D_STATCODE_VERBOSE iwds_statmsgs iwds_statvmsgs" "misfit_of \<circ> Pair M_main = misfit STATCODE STATCODE_VERBOSE iwtftpd_statmsgs iwtftpd_statvmsgs"
    "misfit_of \<circ> Pair M_log = misfit L_STATCODE L_STATCODE_VERBOSE iwlog_statmsgs iwlog_statvmsgs"
    by (simp_all add: fun_eq_iff iwtftp_status_def iwds_status_def iwtftpd_status_def iwlog_status_def)
  show ?thesis by (simp add: pmsg_calls_def filter_map m group_fit misfits_def)
qed

text \<open>The calls of a \<open>DEBUG\<close> build have verbose codes only, and their formats are looked up by name. Those
  that do not fit pass a size for an \<open>int\<close> or an \<open>unsigned\<close>.\<close>

definition vfit :: "(string \<times> string) list \<Rightarrow> call \<Rightarrow> bool" where
  "vfit es c = (case c of (line, nm, kinds) \<Rightarrow>
     case map_of es nm of None \<Rightarrow> False
     | Some fmt \<Rightarrow> is_cstring fmt \<and> map kind_of_conv (conversions fmt) = kinds)"

definition dbg_fit :: "(string \<times> string) list \<Rightarrow> call \<Rightarrow> bool" where
  "dbg_fit es c = (hd (fst (snd c)) = CHR ''D'' \<and> vfit es c = (A_size \<notin> set (snd (snd c))))"

lemma misfit_vfit:
  assumes "distinct vs" and "map fst es = vs" and "fst (snd c) \<notin> set cs"
  shows "misfit cs vs tab (status_tab 65 vs es) c \<longleftrightarrow> \<not> vfit es c"
proof -
  obtain line nm kinds where c: "c = (line, nm, kinds)" by (cases c) auto
  have "set (map fst es) \<subseteq> set vs" using assms(2) by simp
  from find_status_map [OF assms(1) this, of 65 nm] show ?thesis
    using assms(3) by (auto simp: c misfit_def vfit_def enum_code_def split: option.splits)
qed

lemma no_debug_code: "list_all (\<lambda>x. hd x \<noteq> CHR ''D'') T_STATCODE" "list_all (\<lambda>x. hd x \<noteq> CHR ''D'') D_STATCODE"
  by code_simp+

lemma misfit_dbg_fit:
  assumes "distinct vs" and "map fst es = vs" and "list_all (\<lambda>x. hd x \<noteq> CHR ''D'') cs"
    and "list_all (dbg_fit es) calls" and "c \<in> set calls" and "misfit cs vs tab (status_tab 65 vs es) c"
  shows "A_size \<in> set (snd (snd c))"
proof -
  have d: "dbg_fit es c" using assms(4,5) by (simp add: list_all_iff)
  then have "fst (snd c) \<notin> set cs" using assms(3) by (auto simp: dbg_fit_def list_all_iff)
  then have "\<not> vfit es c" using misfit_vfit [OF assms(1,2)] assms(6) by blast
  with d show ?thesis by (simp add: dbg_fit_def)
qed

lemma service_dbg_fit: "list_all (dbg_fit (iwtftp_vmsgs @ iwtftp_dbgmsgs)) (map (macro_call tftp_dbg_macros) service_dbg)"
  by code_simp

lemma socket_dbg_fit: "list_all (dbg_fit (iwtftp_vmsgs @ iwtftp_dbgmsgs)) (map (macro_call tftp_dbg_macros) socket_dbg)"
  by code_simp

lemma proc_dbg_fit: "list_all (dbg_fit (iwtftp_vmsgs @ iwtftp_dbgmsgs)) (map (macro_call tftp_dbg_macros) proc_dbg)"
  by code_simp

lemma session_dbg_fit: "list_all (dbg_fit (iwtftp_vmsgs @ iwtftp_dbgmsgs)) (map (macro_call tftp_dbg_macros) session_dbg)"
  by code_simp

lemma parse_dbg_fit: "list_all (dbg_fit (iwtftp_vmsgs @ iwtftp_dbgmsgs)) (map (macro_call tftp_dbg_macros) parse_dbg)"
  by code_simp

lemma make_dbg_fit: "list_all (dbg_fit (iwtftp_vmsgs @ iwtftp_dbgmsgs)) (map (macro_call tftp_dbg_macros) make_dbg)"
  by code_simp

lemma buffer_dbg_fit: "list_all (dbg_fit (iwtftp_vmsgs @ iwtftp_dbgmsgs)) (map (macro_call tftp_dbg_macros) buffer_dbg)"
  by code_simp

lemma storage_dbg_fit: "list_all (dbg_fit (iwtftp_vmsgs @ iwtftp_dbgmsgs)) (map (macro_call tftp_dbg_macros) storage_dbg)"
  by code_simp

lemma show_dbg_fit: "list_all (dbg_fit (iwtftp_vmsgs @ iwtftp_dbgmsgs)) show_dbg_calls"
  by code_simp

lemma iwds_dbg_fit: "list_all (dbg_fit (iwds_vmsgs @ iwds_dbgmsgs)) (map (macro_call ds_dbg_macros) iwds_dbg)"
  by code_simp

lemma dsession_dbg_fit: "list_all (dbg_fit (iwds_vmsgs @ iwds_dbgmsgs)) (map (macro_call ds_dbg_macros) dsession_dbg)"
  by code_simp

lemma show_ds_dbg_fit: "list_all (dbg_fit (iwds_vmsgs @ iwds_dbgmsgs)) show_ds_dbg_calls"
  by code_simp

lemma tftp_dbg_calls_fit: "list_all (dbg_fit (iwtftp_vmsgs @ iwtftp_dbgmsgs)) tftp_dbg_calls"
  using service_dbg_fit socket_dbg_fit proc_dbg_fit session_dbg_fit parse_dbg_fit make_dbg_fit buffer_dbg_fit
    storage_dbg_fit show_dbg_fit by (simp add: tftp_dbg_calls_def)

lemma ds_dbg_calls_fit: "list_all (dbg_fit (iwds_vmsgs @ iwds_dbgmsgs)) ds_dbg_calls"
  using iwds_dbg_fit dsession_dbg_fit show_ds_dbg_fit by (simp add: ds_dbg_calls_def)

lemma dbg_calls_misfit:
  assumes "(md, line, nm, kinds) \<in> set dbg_calls" and "misfit_of (md, line, nm, kinds)"
  shows "A_size \<in> set kinds"
proof -
  consider (tftp) "md = M_tftp_dbg" "(line, nm, kinds) \<in> set tftp_dbg_calls"
    | (ds) "md = M_ds_dbg" "(line, nm, kinds) \<in> set ds_dbg_calls"
    using assms(1) by (auto simp: dbg_calls_def)
  then show ?thesis
  proof cases
    case tftp
    have d: "distinct (T_STATCODE_VERBOSE @ T_STATCODE_DEBUG)" using debug_distinct by simp
    have "map fst (iwtftp_vmsgs @ iwtftp_dbgmsgs) = T_STATCODE_VERBOSE @ T_STATCODE_DEBUG" by (simp add: tftp_debug_names)
    from misfit_dbg_fit [OF d this no_debug_code(1) tftp_dbg_calls_fit tftp(2)] assms(2) tftp(1)
    show ?thesis by (simp add: iwtftp_dbg_status_def iwtftp_dbg_statvmsgs_def)
  next
    case ds
    have d: "distinct (D_STATCODE_VERBOSE @ D_STATCODE_DEBUG)" using debug_distinct by simp
    have "map fst (iwds_vmsgs @ iwds_dbgmsgs) = D_STATCODE_VERBOSE @ D_STATCODE_DEBUG" by (simp add: ds_debug_names)
    from misfit_dbg_fit [OF d this no_debug_code(2) ds_dbg_calls_fit ds(2)] assms(2) ds(1)
    show ?thesis by (simp add: iwds_dbg_status_def iwds_dbg_statvmsgs_def)
  qed
qed

lemma call_code_cases:
  "call_code md nm = (if nm \<in> set (fst (codes_of md)) then enum_code 1 (fst (codes_of md)) nm
     else enum_code 65 (snd (codes_of md)) nm)"
  by (simp add: call_code_def case_prod_beta)

lemma call_code_range: "call_code md nm < 64 \<longleftrightarrow> nm \<in> set (fst (codes_of md))" "0 < call_code md nm"
proof -
  have "length (fst (codes_of md)) \<le> 63" by (cases md; simp) (code_simp+)
  with enum_code_less [of nm "fst (codes_of md)" 1, THEN iffD1]
  show "call_code md nm < 64 \<longleftrightarrow> nm \<in> set (fst (codes_of md))" by (auto simp: call_code_cases) (simp add: enum_code_def)
  show "0 < call_code md nm" by (simp add: call_code_cases enum_code_def)
qed

text \<open>A call that is no misfit selects a format whose conversions are its arguments.\<close>

lemma fitting_call:
  assumes "\<not> misfit_of (md, line, nm, kinds)"
  obtains fmt where "find_status (if call_code md nm < 64 then sm_msgs (status_of md) else sm_vmsgs (status_of md))
      (call_code md nm) = Inr (call_code md nm, fmt)" "is_cstring fmt" "map kind_of_conv (conversions fmt) = kinds"
proof -
  have f: "find_status tab k = Inr (c, m) \<Longrightarrow> c = 0 \<or> c = k" for tab k c m
    by (induction tab k rule: find_status.induct) (auto split: if_splits)
  show thesis
  proof (cases "nm \<in> set (fst (codes_of md))")
    case True
    then have "call_code md nm < 64" "call_code md nm = enum_code 1 (fst (codes_of md)) nm"
      using call_code_range(1) [of md nm] by (simp_all add: call_code_cases [of md nm])
    with assms True that f show thesis by (fastforce simp: misfit_def split: sum.splits)
  next
    case False
    then have "\<not> call_code md nm < 64" "call_code md nm = enum_code 65 (snd (codes_of md)) nm"
      using call_code_range(1) [of md nm] by (simp_all add: call_code_cases [of md nm])
    with assms False that f show thesis by (fastforce simp: misfit_def split: sum.splits)
  qed
qed

lemma prefix_of: "is_cstring (sm_prefix (status_of md)) \<and> length (sm_prefix (status_of md)) < 64"
  by (cases md) (simp_all add: iwtftp_status_def iwds_status_def iwtftpd_status_def iwlog_status_def
      iwtftp_dbg_status_def iwds_dbg_status_def is_cstring_def)

lemma pmsg_text_unfit:
  assumes "length buf = IW_LOGMSGLEN_MAX" and "(md, line, nm, kinds) \<in> set (butlast misfits)"
    and "map arg_kind args = kinds"
  shows "pmsg_text (status_of md) True (call_code md nm) args buf = Inl Uninitialised"
proof -
  have f: "find_status iwds_statvmsgs 68 = Inr (68, ''error: fclose: failed, %s: %s'')"
    "call_code M_ds ''EV_FAIL_FCLOSE'' = 68"
    "find_status iwtftp_statvmsgs 71 = Inr (71, ''error: epoll_ctl: failed to %s event of '%s:%d': %s'')"
    "call_code M_tftp ''EV_FAIL_EPOLL_CTL'' = 71"
    by code_simp+
  have s: "arg_kind a = A_str \<Longrightarrow> \<exists>t. a = Str t" for a by (cases a) auto
  have "md = M_ds \<and> nm = ''EV_FAIL_FCLOSE'' \<and> kinds = [A_str] \<or>
      md = M_tftp \<and> nm = ''EV_FAIL_EPOLL_CTL'' \<and> kinds = [A_str, A_str, A_str, A_str]"
    using assms(2) by (auto simp: misfits_def)
  then show ?thesis
  proof (elim disjE conjE)
    assume m: "md = M_ds" "nm = ''EV_FAIL_FCLOSE''" "kinds = [A_str]"
    then obtain t where "args = [Str t]" using assms(3) s by auto
    with m(1,2) assms(1) f(1,2) show ?thesis by (simp add: pmsg_text_def iwds_status_def vsnprintf_at_def)
  next
    assume m: "md = M_tftp" "nm = ''EV_FAIL_EPOLL_CTL''" "kinds = [A_str, A_str, A_str, A_str]"
    then obtain t u v x where "args = [Str t, Str u, Str v, Str x]"
      using assms(3) s by (auto simp: map_eq_Cons_conv) metis
    with m(1,2) assms(1) f(3,4) show ?thesis by (simp add: pmsg_text_def iwtftp_status_def vsnprintf_at_def)
  qed
qed

lemma misfits_split: "set misfits = insert (M_log, 141, ''EV_FAIL_WRITE'', [A_int, A_size, A_str]) (set (butlast misfits))"
  by (simp add: misfits_def insert_commute)



end
