(* ===== verification/Debug_Output.thy ===== *)
theory Debug_Output
  imports Status_Calls Tftp_Service_Props
begin

text \<open>
  What a \<open>DEBUG\<close> build prints: the functions \<open>dbg_show_*\<close> of \<open>tftp.c\<close> and \<open>datastore.c\<close>, and the places where
  the added statements can go wrong: the start of \<open>tftp_proc\<close>, the ends of \<open>create_socket\<close> and
  \<open>iwds_write\<close>. The result is the list of the calls of \<open>pmsg\<close>, each with the name of its
  status code and its arguments. All these codes are verbose: without a verbose log the arguments are
  evaluated, but nothing is printed. What \<open>%p\<close> makes of a stream is a parameter.
\<close>

section \<open>Sessions\<close>

type_synonym dmsg = "string \<times> farg list"

definition flag_arg :: "bool \<Rightarrow> farg" where
  "flag_arg b = Num (if b then 1 else 0)"

definition session_args :: "int \<Rightarrow> session \<Rightarrow> farg list" where
  "session_args now n =
     (let diff = (if lastsending n > 0 then now - lastsending n else 0) in
      [Str (clip n), Num (uint (clport n)), Num (clsock n), flag_arg (regevent n), Str (filename n),
       Num (uint (blknum n)), flag_arg (fin n), Num (int (lastmsglen n)), Num diff, Num (retrycount n),
       flag_arg (disabled n)])"

definition dbg_show_session :: "int \<Rightarrow> iwtftp \<Rightarrow> nat option \<Rightarrow> fault + dmsg list" where
  "dbg_show_session now ins ses =
     (case ses of None \<Rightarrow> Inr [(''DBG_SESSION_EMPTY'', [])]
      | Some a \<Rightarrow> ebind (load (sheap ins) a) (\<lambda>n. Inr [(''DBG_SESSION_ONE'', session_args now n)]))"

text \<open>\<open>for (i = 1, pm = head; pm; pm = pm->next, i++)\<close> with one call of \<open>pmsg\<close> per node, as in
  both dumps.\<close>

fun show_nodes :: "nat \<Rightarrow> 'z heap \<Rightarrow> nat option \<Rightarrow> nat \<Rightarrow> (nat \<Rightarrow> 'z dnode_scheme \<Rightarrow> fault + dmsg) \<Rightarrow> fault + dmsg list" where
  "show_nodes k h None i line = Inr []"
| "show_nodes 0 h (Some a) i line = Inl Diverges"
| "show_nodes (Suc k) h (Some a) i line =
     ebind (load h a) (\<lambda>n.
     ebind (line i n) (\<lambda>m.
     ebind (show_nodes k h (nxt n) (i + 1) line) (\<lambda>ms. Inr (m # ms))))"

definition dbg_show_allsession :: "int \<Rightarrow> iwtftp \<Rightarrow> fault + dmsg list" where
  "dbg_show_allsession now ins =
     (case seshead ins of None \<Rightarrow> Inr [(''DBG_SESSION_EMPTY'', [])]
      | Some a \<Rightarrow> show_nodes (sbrk ins) (sheap ins) (Some a) 1
          (\<lambda>i n. Inr (''DBG_SESSION_ALL'', Num (int i) # session_args now n)))"

section \<open>Messages\<close>

definition s_opcode :: "string list" where
  "s_opcode = [''RRQ'', ''WRQ'', ''DATA'', ''ACK'', ''ERROR'']"

text \<open>\<open>s_opcode[code - 1]\<close>, without a check.\<close>

definition dbg_show_opcode :: "int \<Rightarrow> fault + dmsg list" where
  "dbg_show_opcode code =
     (if 0 \<le> code - 1 \<and> code - 1 < int (length s_opcode)
      then Inr [(''DBG_OPCODE'', [Str (s_opcode ! nat (code - 1))])] else Inl Out_of_bounds)"

text \<open>The pointer \<open>dbg_show_tftpmsg\<close> gets points to the message that \<open>sw\<close> says; \<open>d->data\<close> is never null.\<close>

datatype tftpmsg = Msg_req tftpreq | Msg_data tftpdata | Msg_ack tftpack | Msg_err tftperror

fun dbg_show_tftpmsg :: "tftpmsg \<Rightarrow> nat \<Rightarrow> dmsg list" where
  "dbg_show_tftpmsg (Msg_req r) msglen =
     [(''DBG_TFTPREQ'', [Num (int msglen), Num (uint (rq_opcode r)), Str (rq_filename r), Str (rq_mode r)])]"
| "dbg_show_tftpmsg (Msg_data d) msglen =
     [(''DBG_TFTPDATA'', [Num (int msglen), Num (uint OP_DATA), Num (uint (dt_blknum d)), Str ''***''])]"
| "dbg_show_tftpmsg (Msg_ack a) msglen =
     [(''DBG_TFTPACK'', [Num (int msglen), Num (uint OP_ACK), Num (uint (ak_blknum a))])]"
| "dbg_show_tftpmsg (Msg_err e) msglen =
     [(''DBG_TFTPERROR'', [Num (int msglen), Num (uint OP_ERROR), Num (uint (er_errcode e)), Str (er_errmsg e),
        Num (int (length (er_errmsg e)))])]"

text \<open>The start of \<open>tftp_proc\<close> in a \<open>DEBUG\<close> build, up to the \<open>switch\<close>.\<close>

definition dbg_tftp_proc :: "int \<Rightarrow> iwtftp \<Rightarrow> string \<Rightarrow> u16 \<Rightarrow> bytes \<Rightarrow> fault + dmsg list" where
  "dbg_tftp_proc now ins ip port pkt =
     ebind (ntohs_at pkt 0) (\<lambda>opcode.
     ebind (dbg_show_opcode (uint opcode)) (\<lambda>op.
     ebind (get_session ins ip port) (\<lambda>clses.
     ebind (dbg_show_session now ins clses) (\<lambda>ses.
     Inr ((''DBG_TFTP_PROC'', []) # op @ (''DBG_RETRIEVE_SESSION'', [Str ip, Num (uint port)]) # ses)))))"

text \<open>The end of \<open>create_socket\<close>, with a verbose log: a null pointer for \<open>%s\<close> is undefined. \<open>ip\<close> is null for
  the wildcard address, \<open>service\<close> for the socket of a session.\<close>

definition dbg_socket :: "int \<Rightarrow> string \<Rightarrow> u16 option \<Rightarrow> fault + dmsg list" where
  "dbg_socket sock ip service =
     (case (if ip = ''ANY'' then None else Some ip, service) of
        (Some host, Some port) \<Rightarrow> Inr [(''DBG_SOCKET'', [Num sock, Str host, Str (show_int (uint port))])]
      | _ \<Rightarrow> Inl Null_deref)"

section \<open>The data store\<close>

definition dsession_args :: "(nat option \<Rightarrow> string) \<Rightarrow> dsession \<Rightarrow> fault + farg list" where
  "dsession_args showp n =
     (case ds_filename n of None \<Rightarrow> Inl Null_deref
      | Some f \<Rightarrow> Inr [Num (clid n), Ptr (showp (ds_fp n)), Str f, Num (ds_derr n)])"

definition dbg_show_dsession :: "(nat option \<Rightarrow> string) \<Rightarrow> iwds \<Rightarrow> nat option \<Rightarrow> fault + dmsg list" where
  "dbg_show_dsession showp ds ses =
     (case ses of None \<Rightarrow> Inr [(''DBG_DSESSION_EMPTY'', [])]
      | Some a \<Rightarrow>
         ebind (load (dheap ds) a) (\<lambda>n. ebind (dsession_args showp n) (\<lambda>as. Inr [(''DBG_DSESSION'', as)])))"

definition dbg_show_alldsession :: "(nat option \<Rightarrow> string) \<Rightarrow> iwds \<Rightarrow> fault + dmsg list" where
  "dbg_show_alldsession showp ds =
     (case dhead ds of None \<Rightarrow> Inr [(''DBG_DSESSION_EMPTY'', [])]
      | Some a \<Rightarrow> show_nodes (dbrk ds) (dheap ds) (Some a) 1
          (\<lambda>i n. ebind (dsession_args showp n) (\<lambda>as. Inr (''DBG_DSESSION_ALL'', Num (int i) # as))))"

definition dbg_ds_show_alldsession :: "(nat option \<Rightarrow> string) \<Rightarrow> iwds \<Rightarrow> fault + dmsg list" where
  "dbg_ds_show_alldsession showp ds = dbg_show_alldsession showp ds"

text \<open>The last statement of \<open>iwds_write\<close>, \<open>DBG_SH_WRITE(wlen, ses->fp, ses->filename)\<close>.\<close>

definition dbg_sh_write :: "(nat option \<Rightarrow> string) \<Rightarrow> iwds \<Rightarrow> nat \<Rightarrow> nat \<Rightarrow> fault + dmsg list" where
  "dbg_sh_write showp ds a wlen =
     ebind (load (dheap ds) a) (\<lambda>n.
     case ds_filename n of None \<Rightarrow> Inl Null_deref
     | Some f \<Rightarrow> Inr [(''DBG_FWRITE'', [Num (int wlen), Ptr (showp (ds_fp n)), Str f])])"

section \<open>What is printed\<close>

lemma session_args_strip [simp]: "session_args now (strip n) = session_args now n"
  by (simp add: session_args_def strip_def)

lemma show_nodes_ok:
  assumes "chain h pv ys None" and "length ys \<le> k"
    and "\<And>j a. a \<in> set ys \<Longrightarrow> line j (the (h a)) = Inr (g j (the (h a)))"
  shows "show_nodes k h (hd_ptr ys) i line = Inr (map (\<lambda>(j, a). g j (the (h a))) (enumerate i ys))"
  using assms
proof (induction ys arbitrary: k pv i)
  case (Cons a ys)
  then obtain k' where k: "k = Suc k'" by (cases k) auto
  obtain n where n: "h a = Some n" "nxt n = hd_ptr ys" "chain h (Some a) ys None"
    using Cons.prems(1) by (cases ys) (auto split: option.splits if_splits)
  from Cons.IH [OF n(3), of k' "i + 1"] Cons.prems(2,3) k n(1,2) show ?case by force
qed simp

text \<open>Both dumps print one line per node of the list, in order and numbered from 1.\<close>

lemma dbg_show_allsession_lines:
  assumes "tab_wf ins ps"
  shows "dbg_show_allsession now ins = Inr (if ps = [] then [(''DBG_SESSION_EMPTY'', [])]
    else map (\<lambda>(i, a). (''DBG_SESSION_ALL'', Num (int i) # session_args now (the (sheap ins a)))) (enumerate 1 ps))"
proof -
  have d: "seshead ins = hd_ptr ps" "chain (sheap ins) None ps None" "length ps \<le> sbrk ins"
    using tab_wfD(1,2) [OF assms] by (simp_all add: dll_def)
  from show_nodes_ok [OF d(2,3), of "\<lambda>i n. Inr (''DBG_SESSION_ALL'', Num (int i) # session_args now n)"
      "\<lambda>i n. (''DBG_SESSION_ALL'', Num (int i) # session_args now n)" 1] d(1)
  show ?thesis by (cases ps) (simp_all add: dbg_show_allsession_def)
qed

lemma dsession_args_ok:
  assumes "ds_ok ds w qs" and "a \<in> set qs"
  shows "dsession_args showp (the (dheap ds a)) = Inr (let n = the (dheap ds a) in
    [Num (clid n), Ptr (showp (ds_fp n)), Str (the (ds_filename n)), Num (ds_derr n)])"
proof -
  obtain n f fp where "dheap ds a = Some n" "ds_filename n = Some f" using ds_ok_node [OF assms] by metis
  then show ?thesis by (simp add: dsession_args_def)
qed

lemma dbg_show_alldsession_lines:
  assumes "ds_ok ds w qs"
  shows "dbg_show_alldsession showp ds = Inr (if qs = [] then [(''DBG_DSESSION_EMPTY'', [])]
    else map (\<lambda>(i, a). let n = the (dheap ds a) in (''DBG_DSESSION_ALL'',
      [Num (int i), Num (clid n), Ptr (showp (ds_fp n)), Str (the (ds_filename n)), Num (ds_derr n)])) (enumerate 1 qs))"
proof -
  have d: "dhead ds = hd_ptr qs" "chain (dheap ds) None qs None" "length qs \<le> dbrk ds"
    using ds_okD(1,2) [OF assms] by (simp_all add: dll_def)
  have l: "ebind (dsession_args showp (the (dheap ds a))) (\<lambda>as. Inr (''DBG_DSESSION_ALL'', Num (int i) # as)) =
      Inr (let n = the (dheap ds a) in (''DBG_DSESSION_ALL'',
        [Num (int i), Num (clid n), Ptr (showp (ds_fp n)), Str (the (ds_filename n)), Num (ds_derr n)]))"
    if "a \<in> set qs" for i a
    by (simp add: dsession_args_ok [OF assms that] Let_def)
  show ?thesis
    using show_nodes_ok [OF d(2,3), where line = "\<lambda>i n. ebind (dsession_args showp n)
        (\<lambda>as. Inr (''DBG_DSESSION_ALL'', Num (int i) # as))" and g = "\<lambda>i n. (''DBG_DSESSION_ALL'',
        [Num (int i), Num (clid n), Ptr (showp (ds_fp n)), Str (the (ds_filename n)), Num (ds_derr n)])" and i = 1] l d(1)
    by (cases qs) (simp_all add: dbg_show_alldsession_def Let_def)
qed

lemma dbg_show_opcode_iff: "dbg_show_opcode code = Inl Out_of_bounds \<longleftrightarrow> code < 1 \<or> 5 < code"
  by (auto simp: dbg_show_opcode_def s_opcode_def)

lemma dbg_show_opcode_word:
  "dbg_show_opcode (uint (op :: u16)) = (if op \<in> {OP_RRQ, OP_WRQ, OP_DATA, OP_ACK, OP_ERROR}
     then Inr [(''DBG_OPCODE'', [Str (s_opcode ! (unat op - 1))])] else Inl Out_of_bounds)"
proof (cases "op \<in> {OP_RRQ, OP_WRQ, OP_DATA, OP_ACK, OP_ERROR}")
  case True
  then have "op = 1 \<or> op = 2 \<or> op = 3 \<or> op = 4 \<or> op = 5" by blast
  then show ?thesis by (elim disjE) (simp_all add: dbg_show_opcode_def s_opcode_def)
next
  case False
  then have "uint op \<notin> {1, 2, 3, 4, 5}" by (simp add: word_uint_eq_iff)
  moreover have "0 \<le> uint op" by simp
  ultimately have "uint op < 1 \<or> 5 < uint op" by (simp; linarith)
  then have "dbg_show_opcode (uint op) = Inl Out_of_bounds" by (simp add: dbg_show_opcode_iff)
  with False show ?thesis by (simp only: if_False)
qed

text \<open>After a short write \<open>iwds_write\<close> has deleted the entry; the last statement then reads it.\<close>

lemma dbg_sh_write_uses_freed:
  assumes ok: "ds_ok ds w ps" and a: "a \<in> set ps"
    and r: "write_entry ds a req w = Inr (wlen, req', ds', w')" and short: "wlen < dlen req"
  shows "dbg_sh_write showp ds' a wlen = Inl (Use_after_free a)"
proof -
  obtain n f fp where n: "dheap ds a = Some n" "ds_fp n = Some fp" "streams w fp \<noteq> None"
    using ds_ok_node [OF ok a] by metis
  obtain xs ys where ps: "ps = xs @ a # ys" using a by (meson split_list)
  have z: "dlen req \<noteq> 0" using short by simp
  from r z n obtain out w1 w2 where wr: "sys_fwrite w fp out = Inr (wlen, w1)"
    and d: "\<exists>e. del_dsession ds a w1 = Inr (e, ds', w2)"
    using short by (auto simp: write_entry_def ebind_Inr_iff split: if_splits)
  have ok1: "ds_ok ds w1 (xs @ a # ys)"
    using ds_step_of_stream [OF ok a n(1,2) fwrite_streams(1,2,3) [OF wr] fstep_fwrite [OF wr]] n(1) ps by auto
  have "dheap ds' a = None" using del_dsession_ok [OF ok1 n(1,2)] d by auto
  then show ?thesis by (simp add: dbg_sh_write_def)
qed



end
