(* ===== verification/Main_Daemon.thy ===== *)
theory Main_Daemon
  imports Logging Tftp_Service_Props
begin

unbundle bit_operations_syntax

text \<open>
  \<open>iwtftpd.c\<close>: the configuration and its options, signals, the steps that make the process
  a daemon, \<open>chroot\<close> and credentials, and \<open>main\<close>, which puts the modules together.

  Four libraries stand behind it as fields and arguments: what \<open>libpopt\<close> finds on the command
  line, the user and group files (the latter are read below the root directory of the time
  of the call), the path resolution below a root directory, and which of the two processes
  after a \<open>fork\<close> the model follows. The calls of \<open>pmsg\<close> of \<open>main\<close> are part of the model, those of the
  data store and of the TFTP module are not. Descriptors of sockets are kept by \<open>world\<close>, the others
  by \<open>process\<close>; at the time \<open>daemonize\<close> closes descriptors there are no sockets.
\<close>

section \<open>State\<close>

record svconf =
  sc_ipver :: "32 word"
  sc_ifname :: "string option"
  sc_datastore :: "string option"
  sc_user :: "string option"
  sc_verbose :: bool

datatype signal = SIGTERM | SIGQUIT | SIGHUP | SIGINT | SIGPIPE | SIGUSR1 | SIGUSR2 | SIGTSTP | SIGTTIN | SIGTTOU

datatype handler = SIG_DFL | SIG_IGN | Sig_handler

record daemon =
  proc :: process
  uid :: nat
  gid :: nat
  groups :: "nat list"
  rootdir :: string
  cwd :: string
  umask :: nat
  leader :: bool
  actions :: "signal \<Rightarrow> handler"
  evloop_exit :: bool
  follows_child :: bool                  \<comment> \<open>the process followed after \<open>fork\<close>\<close>
  stamp :: "nat \<Rightarrow> string"               \<comment> \<open>the time as \<open>strftime\<close> writes it, at each tick\<close>
  passwd :: "string \<Rightarrow> (nat \<times> nat) option" \<comment> \<open>\<open>/etc/passwd\<close>: user and group\<close>
  groupdb :: "string \<Rightarrow> string \<Rightarrow> nat list"  \<comment> \<open>\<open>/etc/group\<close> below a root directory\<close>
  resolve :: "string \<Rightarrow> string \<Rightarrow> string"    \<comment> \<open>path resolution below a root directory\<close>

definition upd_world :: "world \<Rightarrow> daemon \<Rightarrow> daemon" where
  "upd_world w d = d\<lparr>proc := (proc d)\<lparr>os := w\<rparr>\<rparr>"

abbreviation env :: "daemon \<Rightarrow> world" where "env d \<equiv> os (proc d)"

text \<open>A system call of \<open>main\<close>; some need the privilege of user 0.\<close>

definition os_call :: "daemon \<Rightarrow> bool \<times> daemon" where
  "os_call d = (let (ok, p) = proc_call (proc d) in (ok, d\<lparr>proc := p\<rparr>))"

definition root_call :: "daemon \<Rightarrow> bool \<times> daemon" where
  "root_call d = (let (ok, d) = os_call d in (ok \<and> uid d = 0, d))"

section \<open>Messages\<close>

definition statcode :: "string \<Rightarrow> nat" where
  "statcode nm = (if nm \<in> set STATCODE then enum_code 1 STATCODE nm else enum_code 65 STATCODE_VERBOSE nm)"

definition say :: "string \<Rightarrow> farg list \<Rightarrow> daemon \<Rightarrow> fault + daemon" where
  "say nm args d =
     ebind (main_pmsg (statcode nm) args (stamp d (tick (env d))) (proc d)) (\<lambda>p. Inr (d\<lparr>proc := p\<rparr>))"

text \<open>\<open>pmsg\<close> and \<open>goto err\<close> in the functions that return \<open>IW_ERR\<close>.\<close>

definition fail :: "string \<Rightarrow> farg list \<Rightarrow> daemon \<Rightarrow> fault + int \<times> daemon" where
  "fail nm args d = ebind (say nm args d) (\<lambda>d. Inr (IW_ERR, d))"

abbreviation reason :: "daemon \<Rightarrow> farg" where "reason d \<equiv> Str (errtext (proc d))"

section \<open>Configuration\<close>

definition DEFAULT_IPVER :: "32 word" where "DEFAULT_IPVER = of_nat IW_IPV4 OR of_nat IW_IPV6"
definition DEFAULT_USER :: string where "DEFAULT_USER = ''nobody''"

definition create_svconf :: "daemon \<Rightarrow> fault + svconf option \<times> daemon" where
  "create_svconf d =
     (let (ok, d) = os_call d in
      if \<not> ok then ebind (say ''E_FAIL_MALLOC'' [Str ''create_svconf''] d) (\<lambda>d. Inr (None, d))
      else Inr (Some \<lparr>sc_ipver = 0, sc_ifname = None, sc_datastore = None, sc_user = None,
        sc_verbose = False\<rparr>, d))"

text \<open>The option table: what \<open>popt\<close> does when it meets an option. \<open>POPT_BIT_CLR\<close> clears bits of
  \<open>useipver\<close>, \<open>POPT_ARG_VAL\<close> sets a variable, and neither lets \<open>poptGetNextOpt\<close> return;
  \<open>POPT_ARG_STRING\<close> stores the argument and returns the character.\<close>

datatype optaction = Bit_clr "32 word" | Arg_string | Arg_val

definition optlist :: "(string option \<times> char \<times> optaction) list" where
  "optlist =
    [(None, CHR ''4'', Bit_clr (of_nat IW_IPV6)),
     (None, CHR ''6'', Bit_clr (of_nat IW_IPV4)),
     (Some ''if'', CHR ''i'', Arg_string),
     (Some ''datastore'', CHR ''d'', Arg_string),
     (Some ''username'', CHR ''u'', Arg_string),
     (Some ''verbose'', CHR ''v'', Arg_val),
     (Some ''version'', CHR ''V'', Arg_val)]"

text \<open>What \<open>popt\<close> finds: the options up to the end or to the first bad one (with its name and
  \<open>poptStrerror\<close>), each with its argument, and the first argument that is no option; \<open>cl_usage\<close> is what
  \<open>poptPrintUsage\<close> prints.\<close>

record cmdline =
  cl_opts :: "(char \<times> string) list"
  cl_bad :: "(string \<times> string) option"
  cl_leftover :: "string option"
  cl_usage :: string

record optvars =
  ov_useipver :: "32 word"
  ov_verbose :: bool
  ov_showver :: bool
  ov_conf :: svconf

definition set_opt :: "char \<times> string \<Rightarrow> optvars \<Rightarrow> optvars" where
  "set_opt oa v =
     (case map_of (map snd optlist) (fst oa) of
        Some (Bit_clr m) \<Rightarrow> v\<lparr>ov_useipver := ov_useipver v AND NOT m\<rparr>
      | Some Arg_val \<Rightarrow> if fst oa = CHR ''v'' then v\<lparr>ov_verbose := True\<rparr> else v\<lparr>ov_showver := True\<rparr>
      | Some Arg_string \<Rightarrow>
          (let c = ov_conf v in
           v\<lparr>ov_conf := (if fst oa = CHR ''i'' then c\<lparr>sc_ifname := Some (snd oa)\<rparr>
                         else if fst oa = CHR ''d'' then c\<lparr>sc_datastore := Some (snd oa)\<rparr>
                         else c\<lparr>sc_user := Some (snd oa)\<rparr>)\<rparr>)
      | None \<Rightarrow> v)"

definition bad_option :: "string \<Rightarrow> string \<Rightarrow> string \<Rightarrow> svconf \<Rightarrow> daemon \<Rightarrow> fault + int \<times> svconf \<times> daemon" where
  "bad_option what why usage c d =
     ebind (say ''E_OPTION_BAD'' [Str what, Str why] d) (\<lambda>d.
     Inr (IW_ERR, c, d\<lparr>proc := put_stderr (NEWLINE # usage) (proc d)\<rparr>))"

definition set_svconf :: "svconf \<Rightarrow> cmdline \<Rightarrow> daemon \<Rightarrow> fault + int \<times> svconf \<times> daemon" where
  "set_svconf c cl d =
     (let v = fold set_opt (cl_opts cl)
            \<lparr>ov_useipver = DEFAULT_IPVER, ov_verbose = False, ov_showver = False, ov_conf = c\<rparr>;
          c = ov_conf v in
      case cl_bad cl of
        Some (opt, why) \<Rightarrow> bad_option opt why (cl_usage cl) c d
      | None \<Rightarrow>
      case cl_leftover cl of
        Some arg \<Rightarrow> bad_option arg ''too arguments'' (cl_usage cl) c d
      | None \<Rightarrow>
      if ov_showver v then Inr (int (statcode ''I_SHOW_VER''), c, d)
      else if ov_useipver v = 0 then bad_option ''specify either -4 or -6'' '''' (cl_usage cl) c d
      else
       (let c = c\<lparr>sc_ipver := ov_useipver v\<rparr>;
            c = (if sc_user c = None then c\<lparr>sc_user := Some DEFAULT_USER\<rparr> else c) in
        Inr (IW_OK, c\<lparr>sc_verbose := ov_verbose v\<rparr>, d)))"

section \<open>Signals\<close>

text \<open>The loop goes through \<open>siglist\<close> from its end.\<close>

fun init_signal :: "signal list \<Rightarrow> nat \<Rightarrow> handler \<Rightarrow> daemon \<Rightarrow> fault + int \<times> daemon" where
  "init_signal siglist 0 func d = Inr (IW_OK, d)"
| "init_signal siglist (Suc n) func d =
     (let (ok, d) = os_call d in
      if \<not> ok then
        ebind (fail ''EV_FAIL_SIGACTION'' [Str ''get'', reason d] d) (\<lambda>(r, d).
        Inr (r, d\<lparr>proc := put_stderr (''nlist='' @ show_nat (Suc n) @ [NEWLINE]) (proc d)\<rparr>))
      else
       (let (ok, d) = os_call d in
        if \<not> ok then
          ebind (fail ''EV_FAIL_SIGACTION'' [Str ''set'', reason d] d) (\<lambda>(r, d).
          Inr (r, d\<lparr>proc := put_stderr (''nlist='' @ show_nat (Suc n) @ [NEWLINE]) (proc d)\<rparr>))
        else if n \<ge> length siglist then Inl Out_of_bounds
        else init_signal siglist n func (d\<lparr>actions := (actions d)(siglist ! n := func)\<rparr>)))"

definition sig_handler :: "int \<Rightarrow> daemon \<Rightarrow> daemon" where
  "sig_handler sig d = d\<lparr>evloop_exit := sig > 0\<rparr>"

section \<open>The daemon process\<close>

abbreviation IW_FD_MAX :: int where "IW_FD_MAX \<equiv> 64"

definition dup2 :: "int \<Rightarrow> int \<Rightarrow> process \<Rightarrow> bool \<times> process" where
  "dup2 old new p =
     (let (ok, p) = proc_call p in
      case map_of (fds p) old of
        None \<Rightarrow> (False, p)
      | Some x \<Rightarrow> if \<not> ok then (False, p) else (True, p\<lparr>fds := (new, x) # filter (\<lambda>(f, _). f \<noteq> new) (fds p)\<rparr>))"

fun dup_loop :: "int list \<Rightarrow> int \<Rightarrow> daemon \<Rightarrow> fault + int \<times> daemon" where
  "dup_loop [] nullfd d = Inr (IW_OK, d)"
| "dup_loop (i # is) nullfd d =
     (let (ok, p) = dup2 nullfd i (proc d); d = d\<lparr>proc := p\<rparr> in
      if \<not> ok then fail ''EV_FAIL_DUP2'' [Num i, reason d] d else dup_loop is nullfd d)"

text \<open>The child of the \<open>fork\<close>; \<open>renew_std\<close> is the part after the loop of \<open>close\<close>.\<close>

definition renew_std :: "int \<Rightarrow> daemon \<Rightarrow> fault + int \<times> daemon" where
  "renew_std nullfd d =
     ebind (dup_loop [0, 1, 2] nullfd d) (\<lambda>(r, d).
     if r = IW_ERR then Inr (IW_ERR, d)
     else
      (let d = d\<lparr>proc := close_fd nullfd (proc d), umask := 0\<rparr>; (ok, d) = os_call d in
       if \<not> ok then fail ''EV_FAIL_SETSID'' [reason d] d
       else Inr (IW_OK, d\<lparr>leader := True\<rparr>)))"

definition become_daemon :: "int \<Rightarrow> daemon \<Rightarrow> fault + int \<times> daemon" where
  "become_daemon excfd d =
     (let (nullfd, p) = sys_open Null_dev (proc d); d = d\<lparr>proc := p\<rparr> in
      if nullfd = -1 then fail ''EV_FAIL_OPEN'' [Str ''dev/null'', reason d] d
      else
       (let p = fold (\<lambda>i p. if i \<noteq> excfd \<and> i \<noteq> nullfd then close_fd i p else p) [0..IW_FD_MAX - 1] (proc d) in
        renew_std nullfd (d\<lparr>proc := p\<rparr>)))"

text \<open>\<open>daemonize\<close>: no result for the parent, which calls \<open>_exit(IW_OK)\<close>.\<close>

definition daemonize :: "int \<Rightarrow> daemon \<Rightarrow> fault + int option \<times> daemon" where
  "daemonize excfd d =
     (let (ok, d) = os_call d in
      if \<not> ok then ebind (fail ''EV_FAIL_FORK'' [reason d] d) (\<lambda>(r, d). Inr (Some r, d))
      else if \<not> follows_child d then Inr (None, d)
      else ebind (become_daemon excfd d) (\<lambda>(r, d). Inr (Some r, d)))"

definition exec_chroot :: "string \<Rightarrow> daemon \<Rightarrow> fault + int \<times> daemon" where
  "exec_chroot dirpath d =
     (let (ok, d) = root_call d; dir = canon (env d) dirpath in
      if \<not> (ok \<and> fsys (env d) dir = Some Directory) then fail ''EV_FAIL_CHROOT'' [Str dirpath, reason d] d
      else
       (let d = (upd_world ((env d)\<lparr>canon := resolve d dir\<rparr>) d)\<lparr>rootdir := dir\<rparr>; (ok, d) = os_call d in
        if \<not> ok then fail ''EV_FAIL_CHDIR'' [Str ''/'', reason d] d
        else Inr (IW_OK, d\<lparr>cwd := dir\<rparr>)))"

definition set_credential :: "string \<Rightarrow> nat \<Rightarrow> nat \<Rightarrow> daemon \<Rightarrow> fault + int \<times> daemon" where
  "set_credential username u g d =
     (let (ok, d) = root_call d in
      if \<not> ok then fail ''EV_FAIL_SETGID'' [Num (int g), reason d] d
      else
       (let d = d\<lparr>gid := g\<rparr>; (ok, d) = root_call d in
        if \<not> ok then fail ''EV_FAIL_INITGROUPS'' [Str username, reason d] d
        else
         (let d = d\<lparr>groups := g # groupdb d (rootdir d) username\<rparr>; (ok, d) = root_call d in
          if \<not> ok then fail ''EV_FAIL_SETUID'' [Num (int u), reason d] d
          else Inr (IW_OK, d\<lparr>uid := u\<rparr>))))"

section \<open>\<open>main\<close>\<close>

abbreviation EX_OK :: int where "EX_OK \<equiv> 0"
abbreviation EX_USAGE :: int where "EX_USAGE \<equiv> 64"
abbreviation EX_SOFTWARE :: int where "EX_SOFTWARE \<equiv> 70"
abbreviation EX_OSERR :: int where "EX_OSERR \<equiv> 71"

text \<open>Where the code up to the call of \<open>iwtftp_service\<close> ends: at the call, at one of the labels
  \<open>showver\<close> and \<open>ferr\<close> (with the exit value and the objects made so far), or in the parent of the
  \<open>fork\<close>.\<close>

datatype stage = Serve iwtftp | Showver | Ferr int "iwtftp option" "iwds option" | Parent

definition ferr :: "string \<Rightarrow> farg list \<Rightarrow> int \<Rightarrow> iwtftp option \<Rightarrow> iwds option \<Rightarrow> daemon \<Rightarrow> fault + stage \<times> daemon" where
  "ferr nm args exitval tf ds d = ebind (say nm args d) (\<lambda>d. Inr (Ferr exitval tf ds, d))"

definition signals :: "signal list" where
  "signals = [SIGTERM, SIGQUIT, SIGHUP]"

definition ign_signals :: "signal list" where
  "ign_signals = [SIGINT, SIGPIPE, SIGUSR1, SIGUSR2, SIGTSTP, SIGTTIN, SIGTTOU]"

text \<open>From the \<open>security\<close> comment to the start of the service; \<open>main_confine\<close> is the part after
  \<open>getpwnam\<close>.\<close>

definition main_confine :: "string \<Rightarrow> nat \<Rightarrow> nat \<Rightarrow> iwds \<Rightarrow> iwtftp \<Rightarrow> daemon \<Rightarrow> fault + stage \<times> daemon" where
  "main_confine user u g ds tf d =
     ebind (exec_chroot (iwds_get_dspath ds) d) (\<lambda>(r, d).
     if r = IW_ERR then
       ferr ''E_FAIL_EXEC_CHROOT'' [Str (iwds_get_dspath ds)] EX_OSERR (Some tf) (Some ds) d
     else
      ebind (iwds_set_chroot ds) (\<lambda>ds.
      ebind (set_credential user u g d) (\<lambda>(r, d).
      if r = IW_ERR then ferr ''E_FAIL_SET_CREDENTIAL'' [Str user] EX_OSERR (Some tf) (Some ds) d
      else ebind (say ''I_START_SERVER'' [] d) (\<lambda>d. Inr (Serve (tf\<lparr>tads := ds\<rparr>), d)))))"

definition main_secure :: "svconf \<Rightarrow> iwds \<Rightarrow> iwtftp \<Rightarrow> daemon \<Rightarrow> fault + stage \<times> daemon" where
  "main_secure svc ds tf d =
     (case sc_user svc of None \<Rightarrow> Inl Null_deref | Some user \<Rightarrow>
      let (ok, d) = os_call d in
      case (if ok then passwd d user else None) of
        None \<Rightarrow> ferr ''E_USER_UNKNOWN'' [Str user] EX_OSERR (Some tf) (Some ds) d
      | Some (u, g) \<Rightarrow> main_confine user u g ds tf d)"

text \<open>The data store and the TFTP module.\<close>

definition main_modules :: "svconf \<Rightarrow> ifentry list \<Rightarrow> daemon \<Rightarrow> fault + stage \<times> daemon" where
  "main_modules svc ifs d =
     (case iwds_init (sc_datastore svc) (env d) of (ads, w) \<Rightarrow>
      let d = upd_world w d in
      case ads of
        None \<Rightarrow> ferr ''E_DS_FAIL_INIT'' [] EX_SOFTWARE None None d
      | Some ds \<Rightarrow>
        ebind (iwtftp_init (unat (sc_ipver svc)) (sc_ifname svc) ifs ds (env d)) (\<lambda>(atftp, w).
        let d = upd_world w d in
        case atftp of
          None \<Rightarrow> ferr ''E_TFTP_FAIL_INIT'' [] EX_SOFTWARE None (Some ds) d
        | Some tf \<Rightarrow> main_secure svc ds tf d))"

text \<open>The log and the daemon process.\<close>

definition main_detach :: "int \<Rightarrow> svconf \<Rightarrow> ifentry list \<Rightarrow> daemon \<Rightarrow> fault + stage \<times> daemon" where
  "main_detach logfd svc ifs d =
     ebind (daemonize logfd d) (\<lambda>(r, d).
     if r = None then Inr (Parent, d)
     else if r = Some IW_ERR then ferr ''E_FAIL_DAEMONIZE'' [] EX_OSERR None None d
     else main_modules svc ifs d)"

definition main_daemon :: "svconf \<Rightarrow> ifentry list \<Rightarrow> daemon \<Rightarrow> fault + stage \<times> daemon" where
  "main_daemon svc ifs d =
     ebind (iwlog_init (sc_verbose svc) (proc d)) (\<lambda>(r, p).
     let d = d\<lparr>proc := p\<rparr> in
     if r = IW_ERR then ferr ''E_LOG_FAIL_INIT'' [] EX_SOFTWARE None None d
     else
      (let d = d\<lparr>proc := p\<lparr>logready := True\<rparr>\<rparr> in
       ebind (iwlog_getfd (proc d)) (\<lambda>(logfd, p).
       let d = d\<lparr>proc := p\<rparr> in
       if logfd = IW_ERR then ferr ''E_LOG_MODERR'' [] EX_SOFTWARE None None d
       else main_detach logfd svc ifs d)))"

text \<open>The signal handlers.\<close>

definition main_signals :: "svconf \<Rightarrow> ifentry list \<Rightarrow> daemon \<Rightarrow> fault + stage \<times> daemon" where
  "main_signals svc ifs d =
     ebind (init_signal signals (length signals) Sig_handler d) (\<lambda>(r, d).
     if r = IW_ERR then ferr ''E_FAIL_INIT_SIGNAL'' [] EX_OSERR None None d
     else
      ebind (init_signal ign_signals (length ign_signals) SIG_IGN d) (\<lambda>(r, d).
      if r = IW_ERR then ferr ''E_FAIL_INIT_SIGNAL'' [] EX_OSERR None None d
      else main_daemon svc ifs d))"

text \<open>The \<open>switch\<close> over the result of \<open>set_svconf\<close> and the check for root.\<close>

definition main_checked :: "int \<Rightarrow> svconf \<Rightarrow> ifentry list \<Rightarrow> daemon \<Rightarrow> fault + stage \<times> daemon" where
  "main_checked r svc ifs d =
     (if r = int (statcode ''I_SHOW_VER'') then Inr (Showver, d)
      else if r = IW_ERR then Inr (Ferr EX_USAGE None None, d)
      else if uid d \<noteq> 0 then ferr ''I_NOASROOT'' [] EX_USAGE None None d
      else main_signals svc ifs d)"

definition main_start :: "cmdline \<Rightarrow> ifentry list \<Rightarrow> daemon \<Rightarrow> fault + stage \<times> daemon" where
  "main_start cl ifs d =
     ebind (create_svconf d) (\<lambda>(svc, d).
     case svc of None \<Rightarrow> ferr ''EV_FAIL_CREATE_SVCONF'' [] EX_SOFTWARE None None d
     | Some svc \<Rightarrow> ebind (set_svconf svc cl d) (\<lambda>(r, svc, d). main_checked r svc ifs d))"

text \<open>The exits of \<open>main\<close>: \<open>iwtftp_exit\<close>, \<open>iwds_exit\<close>, \<open>iwlog_exit\<close>.\<close>

definition main_exit :: "iwtftp option \<Rightarrow> iwds option \<Rightarrow> daemon \<Rightarrow> fault + daemon" where
  "main_exit tf ds d =
     ebind (case tf of None \<Rightarrow> Inr (env d) | Some ins \<Rightarrow> iwtftp_exit ins (env d)) (\<lambda>w.
     ebind (case ds of None \<Rightarrow> Inr w | Some s \<Rightarrow> ebind (iwds_exit s w) (\<lambda>(_, w). Inr w)) (\<lambda>w.
     ebind (iwlog_exit (proc (upd_world w d))) (\<lambda>p. Inr (d\<lparr>proc := p\<rparr>))))"

definition main_ferr :: "int \<Rightarrow> iwtftp option \<Rightarrow> iwds option \<Rightarrow> daemon \<Rightarrow> fault + int \<times> daemon" where
  "main_ferr exitval tf ds d =
     ebind (if exitval \<noteq> EX_USAGE then say ''E_FATALERR'' [] d else Inr d) (\<lambda>d.
     ebind (main_exit tf ds d) (\<lambda>d. Inr (exitval, d)))"

text \<open>The service and what follows it, for the turns \<open>rs\<close> of the event loop, after which a signal sets
  the exit flag.\<close>

definition main_serve :: "iwtftp \<Rightarrow> bytes \<Rightarrow> bytes \<Rightarrow> (int \<times> arrival list) list \<Rightarrow> daemon \<Rightarrow> fault + int \<times> daemon" where
  "main_serve tf rbuf msgbuf rs d =
     ebind (iwtftp_service tf rbuf msgbuf rs (env d)) (\<lambda>(r, tf, w).
     let d = upd_world w d in
     if r = IW_ERR then
       ebind (say ''E_FAIL_SERVICE'' [] d) (\<lambda>d. main_ferr EX_SOFTWARE (Some tf) (Some (tads tf)) d)
     else
       ebind (say ''I_EXIT_SERVER'' [] d) (\<lambda>d.
       ebind (main_exit (Some tf) (Some (tads tf)) d) (\<lambda>d. Inr (EX_OK, d))))"

text \<open>\<open>main\<close>; the result is the exit status of the process.\<close>

definition main_program :: "cmdline \<Rightarrow> ifentry list \<Rightarrow> bytes \<Rightarrow> bytes \<Rightarrow> (int \<times> arrival list) list \<Rightarrow> daemon \<Rightarrow>
    fault + int \<times> daemon" where
  "main_program cl ifs rbuf msgbuf rs d =
     ebind (main_start cl ifs d) (\<lambda>(st, d).
     case st of
       Parent \<Rightarrow> Inr (IW_OK, d)
     | Showver \<Rightarrow> ebind (say ''I_SHOW_VER'' [] d) (\<lambda>d. Inr (EX_OK, d))
     | Ferr exitval tf ds \<Rightarrow> main_ferr exitval tf ds d
     | Serve tf \<Rightarrow> main_serve tf rbuf msgbuf rs d)"

section \<open>Options\<close>

lemma optlist_lookup:
  "map_of (map snd optlist) c =
    (if c = CHR ''4'' then Some (Bit_clr 2) else if c = CHR ''6'' then Some (Bit_clr 1)
     else if c \<in> {CHR ''i'', CHR ''d'', CHR ''u''} then Some Arg_string
     else if c \<in> {CHR ''v'', CHR ''V''} then Some Arg_val else None)"
  by (simp add: optlist_def IW_IPV4_def IW_IPV6_def)

text \<open>The variables after the loop, each by itself.\<close>

lemma set_opts_ipver:
  "ov_useipver (fold set_opt opts v) = ov_useipver v AND
    (if CHR ''4'' \<in> fst ` set opts then NOT 2 else -1) AND (if CHR ''6'' \<in> fst ` set opts then NOT 1 else -1)"
proof (induction opts arbitrary: v)
  case (Cons a opts)
  have "ov_useipver (set_opt a v) = ov_useipver v AND
      (if fst a = CHR ''4'' then NOT 2 else if fst a = CHR ''6'' then NOT 1 else -1)"
    unfolding set_opt_def optlist_lookup by (auto simp: Let_def)
  with Cons [of "set_opt a v"] show ?case by (auto simp: ac_simps)
qed simp

lemma set_opts_flags:
  "ov_verbose (fold set_opt opts v) \<longleftrightarrow> ov_verbose v \<or> CHR ''v'' \<in> fst ` set opts"
  "ov_showver (fold set_opt opts v) \<longleftrightarrow> ov_showver v \<or> CHR ''V'' \<in> fst ` set opts"
proof -
  have s: "ov_verbose (set_opt a v) \<longleftrightarrow> ov_verbose v \<or> fst a = CHR ''v''"
    "ov_showver (set_opt a v) \<longleftrightarrow> ov_showver v \<or> fst a = CHR ''V''" for a v
    unfolding set_opt_def optlist_lookup by (auto simp: Let_def)
  show "ov_verbose (fold set_opt opts v) \<longleftrightarrow> ov_verbose v \<or> CHR ''v'' \<in> fst ` set opts"
    by (induction opts arbitrary: v) (auto simp: s)
  show "ov_showver (fold set_opt opts v) \<longleftrightarrow> ov_showver v \<or> CHR ''V'' \<in> fst ` set opts"
    by (induction opts arbitrary: v) (auto simp: s)
qed

text \<open>The last argument given for an option, if any.\<close>

definition last_arg :: "char \<Rightarrow> (char \<times> string) list \<Rightarrow> string option \<Rightarrow> string option" where
  "last_arg c opts x = (case map_of (rev opts) c of None \<Rightarrow> x | Some a \<Rightarrow> Some a)"

lemma last_arg_simps [simp]:
  "last_arg c [] x = x" "last_arg c (a # opts) x = last_arg c opts (if fst a = c then Some (snd a) else x)"
  by (auto simp: last_arg_def map_add_def split: option.split)

lemma set_opts_conf:
  "ov_conf (fold set_opt opts v) = (ov_conf v)
    \<lparr>sc_ifname := last_arg CHR ''i'' opts (sc_ifname (ov_conf v)),
     sc_datastore := last_arg CHR ''d'' opts (sc_datastore (ov_conf v)),
     sc_user := last_arg CHR ''u'' opts (sc_user (ov_conf v))\<rparr>"
proof (induction opts arbitrary: v)
  case (Cons a opts)
  have "ov_conf (set_opt a v) = (ov_conf v)
    \<lparr>sc_ifname := if fst a = CHR ''i'' then Some (snd a) else sc_ifname (ov_conf v),
     sc_datastore := if fst a = CHR ''d'' then Some (snd a) else sc_datastore (ov_conf v),
     sc_user := if fst a = CHR ''u'' then Some (snd a) else sc_user (ov_conf v)\<rparr>"
    unfolding set_opt_def optlist_lookup by (simp add: Let_def)
  with Cons [of "set_opt a v"] show ?case by simp
qed simp

text \<open>What the README says of the options.\<close>

definition conf_of :: "(char \<times> string) list \<Rightarrow> svconf option" where
  "conf_of opts =
     (let only4 = CHR ''4'' \<in> fst ` set opts; only6 = CHR ''6'' \<in> fst ` set opts in
      if only4 \<and> only6 then None
      else Some \<lparr>sc_ipver = (if only4 then 1 else if only6 then 2 else 3),
        sc_ifname = last_arg CHR ''i'' opts None, sc_datastore = last_arg CHR ''d'' opts None,
        sc_user = last_arg CHR ''u'' opts (Some DEFAULT_USER), sc_verbose = (CHR ''v'' \<in> fst ` set opts)\<rparr>)"

definition blank_conf :: svconf where
  "blank_conf = \<lparr>sc_ipver = 0, sc_ifname = None, sc_datastore = None, sc_user = None, sc_verbose = False\<rparr>"

lemma last_arg_default: "last_arg c opts (Some x) = Some (case last_arg c opts None of None \<Rightarrow> x | Some a \<Rightarrow> a)"
  by (simp add: last_arg_def split: option.split)

text \<open>\<open>set_svconf\<close> for a command line without errors.\<close>

lemma set_svconf_eq:
  assumes "cl_bad cl = None" and "cl_leftover cl = None"
  defines "v \<equiv> fold set_opt (cl_opts cl)
      \<lparr>ov_useipver = DEFAULT_IPVER, ov_verbose = False, ov_showver = False, ov_conf = blank_conf\<rparr>"
  shows "set_svconf blank_conf cl d =
    (if CHR ''V'' \<in> fst ` set (cl_opts cl) then Inr (int (statcode ''I_SHOW_VER''), ov_conf v, d)
     else case conf_of (cl_opts cl) of
       Some c \<Rightarrow> Inr (IW_OK, c, d)
     | None \<Rightarrow> bad_option ''specify either -4 or -6'' '''' (cl_usage cl) (ov_conf v) d)"
proof -
  let ?opts = "cl_opts cl" and ?v = "\<lparr>ov_useipver = DEFAULT_IPVER, ov_verbose = False, ov_showver = False, ov_conf = blank_conf\<rparr>"
  have ip: "ov_useipver (fold set_opt ?opts ?v) = (if CHR ''4'' \<in> fst ` set ?opts
      then (if CHR ''6'' \<in> fst ` set ?opts then 0 else 1) else if CHR ''6'' \<in> fst ` set ?opts then 2 else 3)"
    unfolding set_opts_ipver by (simp add: DEFAULT_IPVER_def IW_IPV4_def IW_IPV6_def)
  have fl: "ov_verbose (fold set_opt ?opts ?v) = (CHR ''v'' \<in> fst ` set ?opts)"
    "ov_showver (fold set_opt ?opts ?v) = (CHR ''V'' \<in> fst ` set ?opts)"
    by (simp_all add: set_opts_flags)
  have c: "ov_conf (fold set_opt ?opts ?v) = blank_conf
      \<lparr>sc_ifname := last_arg CHR ''i'' ?opts None, sc_datastore := last_arg CHR ''d'' ?opts None,
       sc_user := last_arg CHR ''u'' ?opts None\<rparr>"
    by (simp add: set_opts_conf blank_conf_def)
  have e: "set_svconf blank_conf cl d =
     (let c = ov_conf (fold set_opt ?opts ?v) in
      if CHR ''V'' \<in> fst ` set ?opts then Inr (int (statcode ''I_SHOW_VER''), c, d)
      else if ov_useipver (fold set_opt ?opts ?v) = 0
      then bad_option ''specify either -4 or -6'' '''' (cl_usage cl) c d
      else Inr (IW_OK, c\<lparr>sc_ipver := ov_useipver (fold set_opt ?opts ?v),
        sc_user := if sc_user c = None then Some DEFAULT_USER else sc_user c,
        sc_verbose := CHR ''v'' \<in> fst ` set ?opts\<rparr>, d))"
    unfolding set_svconf_def Let_def assms(1,2) option.case fl by simp
  show ?thesis
    unfolding e Let_def v_def c ip conf_of_def
    by (auto simp: blank_conf_def last_arg_default split: option.splits)
qed

text \<open>C25: for a command line without errors \<open>set_svconf\<close> computes the configuration the README
  describes, whatever the number and the order of the options: the last argument of \<open>-i\<close>, \<open>-d\<close>
  and \<open>-u\<close> counts, \<open>nobody\<close> is the default user, \<open>-4\<close> leaves IPv4 and \<open>-6\<close> IPv6, neither leaves
  both. It returns \<open>IW_ERR\<close> after a message exactly when both are given, and
  \<open>I_SHOW_VER\<close> for \<open>-V\<close> before it looks at them.\<close>

theorem set_svconf_equiv:
  assumes "cl_bad cl = None" and "cl_leftover cl = None"
  shows "if CHR ''V'' \<in> fst ` set (cl_opts cl)
    then \<exists>c. set_svconf blank_conf cl d = Inr (int (statcode ''I_SHOW_VER''), c, d)
    else case conf_of (cl_opts cl) of
      Some c \<Rightarrow> set_svconf blank_conf cl d = Inr (IW_OK, c, d)
    | None \<Rightarrow> \<exists>c. set_svconf blank_conf cl d =
        bad_option ''specify either -4 or -6'' '''' (cl_usage cl) c d"
  unfolding set_svconf_eq [OF assms] by (auto split: option.split)

theorem set_svconf_equiv_witness:
  "\<forall>d. \<exists>c. set_svconf blank_conf \<lparr>cl_opts = [(CHR ''u'', ''ftp''), (CHR ''4'', ''''), (CHR ''u'', ''tftp'')],
      cl_bad = None, cl_leftover = None, cl_usage = ''''\<rparr> d = Inr (IW_OK, c, d) \<and>
    sc_user c = Some ''tftp'' \<and> sc_ipver c = 1"
proof
  fix d
  let ?cl = "\<lparr>cl_opts = [(CHR ''u'', ''ftp''), (CHR ''4'', ''''), (CHR ''u'', ''tftp'')],
      cl_bad = None, cl_leftover = None, cl_usage = ''''\<rparr>"
  show "\<exists>c. set_svconf blank_conf ?cl d = Inr (IW_OK, c, d) \<and> sc_user c = Some ''tftp'' \<and> sc_ipver c = 1"
    using set_svconf_equiv [of ?cl d] by (simp add: conf_of_def)
qed

end
