(* ===== verification/Daemon_Props.thy ===== *)
theory Daemon_Props
  imports Main_Daemon
begin

text \<open>
  What \<open>main\<close> and its parts achieve: the descriptors of the daemon, the state in which the
  service starts, every way \<open>main\<close> can end without failing calls, and the confinement of
  the service to the data store.
\<close>

section \<open>What messages change\<close>

text \<open>A call of \<open>pmsg\<close> changes outputs and the line buffer, and makes system calls.\<close>

definition only_said :: "process \<Rightarrow> process \<Rightarrow> bool" where
  "only_said p p' \<longleftrightarrow> fds p' = fds p \<and> errtext p' = errtext p \<and> logready p' = logready p \<and>
     (\<exists>t. os p' = (os p)\<lparr>tick := t\<rparr>) \<and>
     (case alog p of No_log \<Rightarrow> alog p' = No_log | Freed_log \<Rightarrow> alog p' = Freed_log
      | Log l \<Rightarrow> \<exists>l'. alog p' = Log l' \<and> lg_fd l' = lg_fd l \<and> lg_verbose l' = lg_verbose l \<and>
          length (lg_msgbuf l') = length (lg_msgbuf l))"

lemma only_said_refl [simp]: "only_said p p"
  by (auto simp: only_said_def split: logptr.split intro: exI [of _ "tick (os p)"])

lemma only_said_tick [simp]: "only_said p (p\<lparr>os := (os p)\<lparr>tick := t\<rparr>\<rparr>)"
  by (auto simp: only_said_def split: logptr.split)

lemma only_said_trans [trans]: "\<lbrakk>only_said p p'; only_said p' p''\<rbrakk> \<Longrightarrow> only_said p p''"
  by (auto simp: only_said_def split: logptr.splits)

lemma only_said_put [simp]: "only_said p (put_fd fd bs p)" "only_said p (put_stderr bs p)"
  by (auto simp: only_said_def split: logptr.split intro: exI [of _ "tick (os p)"])

lemma only_said_log_ok: "\<lbrakk>only_said p p'; log_ok p\<rbrakk> \<Longrightarrow> log_ok p'"
  by (auto simp: only_said_def log_ok_def split: logptr.splits)

lemma log_pmsg_said: "log_pmsg code args p = Inr p' \<Longrightarrow> only_said p p'"
  by (auto simp: log_pmsg_def ebind_Inr_iff split: option.splits)

lemma strncpy_at_length: "strncpy_at buf off src n = Inr buf' \<Longrightarrow> length buf' = length buf"
  by (auto simp: strncpy_at_def Let_def simp del: wr_bytes_Inr split: if_splits dest: wr_bytes_length)

lemma time_end_length: "time_end k buf pb = Inr (buf', pb') \<Longrightarrow> length buf' = length buf"
  by (induction k buf pb rule: time_end.induct) (auto simp: ebind_Inr_iff split: if_splits dest: wr_byte_length)

lemma ebind_pairE:
  assumes "ebind m (\<lambda>(a, b). f a b) = Inr y"
  obtains a b where "m = Inr (a, b)" "f a b = Inr y"
proof -
  obtain x where "m = Inr x" "(case x of (a, b) \<Rightarrow> f a b) = Inr y" using assms by (rule ebind_InrE)
  then show thesis by (cases x) (simp add: that)
qed

lemma make_line_length: "make_line buf tm msg n = Inr (buf', k) \<Longrightarrow> length buf' = length buf"
  unfolding make_line_def Let_def
  by (elim ebind_pairE ebind_InrE)
    (auto split: if_splits dest!: strncpy_at_length time_end_length wr_byte_length)

lemma time_text_said: "time_text st p = Inr (tm, p') \<Longrightarrow> only_said p p'"
proof -
  have t: "only_said p p1" if "only_said (p\<lparr>os := (os p)\<lparr>tick := k\<rparr>\<rparr>) p1" for p1 k
    using that by (auto simp: only_said_def)
  show "time_text st p = Inr (tm, p') \<Longrightarrow> only_said p p'"
    by (auto simp: time_text_def proc_call_simps Let_def ebind_Inr_iff split: if_splits
        dest!: log_pmsg_said intro: t)
qed

lemma iwlog_print_msg_said: "iwlog_print_msg msg n st p = Inr p' \<Longrightarrow> only_said p p'"
proof (cases "alog p")
  case (Log l)
  assume r: "iwlog_print_msg msg n st p = Inr p'"
  obtain tm p1 buf k where t: "time_text st p = Inr (tm, p1)" and m: "make_line (lg_msgbuf l) (tm @ [NUL]) msg n = Inr (buf, k)"
    using r Log by (auto simp: iwlog_print_msg_def ebind_Inr_iff)
  let ?p2 = "p1\<lparr>alog := Log (l\<lparr>lg_msgbuf := buf, lg_msglen := k\<rparr>), os := (os p1)\<lparr>tick := Suc (tick (os p1))\<rparr>\<rparr>"
  have s: "only_said p p3" if "only_said ?p2 p3" for p3
    using that time_text_said [OF t] Log make_line_length [OF m] by (auto simp: only_said_def)
  have "only_said ?p2 p'"
    using r Log t m by (auto simp: iwlog_print_msg_def proc_call_simps Let_def ebind_Inr_iff split: if_splits
        dest!: log_pmsg_said intro: only_said_trans)
  then show ?thesis by (rule s)
qed (auto simp: iwlog_print_msg_def dest: log_pmsg_said)

lemma mod_pmsg_said:
  assumes "mod_pmsg m code args st p = Inr p'"
  shows "only_said p p'"
proof -
  obtain v r where r: "(case r of None \<Rightarrow> Inr p
     | Some (buf, mlen) \<Rightarrow>
         if logready p then iwlog_print_msg buf mlen st p
         else ebind (pmsg_line buf mlen) (\<lambda>s. Inr (put_stderr s p))) = Inr p'"
    using assms unfolding mod_pmsg_def by (elim ebind_InrE)
  then show ?thesis
    by (auto simp: ebind_Inr_iff split: option.splits if_splits dest: iwlog_print_msg_said)
qed

definition said :: "daemon \<Rightarrow> daemon \<Rightarrow> bool" where
  "said d d' \<longleftrightarrow> d' = d\<lparr>proc := proc d'\<rparr> \<and> only_said (proc d) (proc d')"

lemma say_said: "say nm args d = Inr d' \<Longrightarrow> said d d'"
  by (auto simp: say_def main_pmsg_def said_def ebind_Inr_iff dest: mod_pmsg_said)

lemma fail_IW_ERR: "fail nm args d = Inr (r, d') \<Longrightarrow> r = IW_ERR"
  by (auto simp: fail_def ebind_Inr_iff)

section \<open>The descriptors of the daemon\<close>

lemma map_of_filter_fst: "map_of (filter (\<lambda>(f, _). P f) xs) f = (if P f then map_of xs f else None)"
  by (induction xs) auto

lemma close_loop:
  "fold (\<lambda>i p. if i \<noteq> a \<and> i \<noteq> b then close_fd i p else p) is p =
   p\<lparr>fds := filter (\<lambda>(f, _). f \<notin> set is \<or> f = a \<or> f = b) (fds p)\<rparr>"
proof (induction "is" arbitrary: p)
  case (Cons i "is")
  have "filter (\<lambda>(f, _). f \<notin> set is \<or> f = a \<or> f = b) (filter (\<lambda>(f, _). f \<noteq> i) xs) =
      filter (\<lambda>(f, _). f \<notin> set (i # is) \<or> f = a \<or> f = b) xs" if "i \<noteq> a" "i \<noteq> b" for xs :: "(int \<times> fdobj) list"
    using that by (auto simp: case_prod_beta intro!: filter_cong)
  moreover have "(\<lambda>(f, _). f \<notin> set is \<or> f = a \<or> f = b) = (\<lambda>(f, _ :: fdobj). f \<notin> set (i # is) \<or> f = a \<or> f = b)"
    if "i = a \<or> i = b" using that by (auto simp: fun_eq_iff)
  ultimately show ?case by (auto simp: Cons close_fd_def)
qed simp

text \<open>A step of \<open>main\<close> that makes system calls, changes descriptors and prints.\<close>

definition fd_step :: "daemon \<Rightarrow> daemon \<Rightarrow> bool" where
  "fd_step d d' \<longleftrightarrow> (\<exists>fs. only_said ((proc d)\<lparr>fds := fs\<rparr>) (proc d')) \<and> d' = d\<lparr>proc := proc d'\<rparr>"

lemma fd_step_trans: "\<lbrakk>fd_step d d'; fd_step d' d''\<rbrakk> \<Longrightarrow> fd_step d d''"
proof -
  assume a: "fd_step d d'" "fd_step d' d''"
  obtain fs fs' where s: "only_said ((proc d)\<lparr>fds := fs\<rparr>) (proc d')" "only_said ((proc d')\<lparr>fds := fs'\<rparr>) (proc d'')"
    using a unfolding fd_step_def by blast
  have "only_said ((proc d)\<lparr>fds := fs'\<rparr>) ((proc d')\<lparr>fds := fs'\<rparr>)"
    using s(1) by (auto simp: only_said_def split: logptr.splits)
  then have "only_said ((proc d)\<lparr>fds := fs'\<rparr>) (proc d'')" using s(2) by (rule only_said_trans)
  moreover have "d'' = d\<lparr>proc := proc d''\<rparr>" using a by (cases d; cases d'; cases d'') (simp add: fd_step_def)
  ultimately show "fd_step d d''" unfolding fd_step_def by blast
qed

lemma dup_loop_ok:
  assumes "dup_loop is nullfd d = Inr (IW_OK, d')" and "map_of (fds (proc d)) nullfd = Some x"
  shows "fd_step d d' \<and> (\<forall>f. map_of (fds (proc d')) f = (if f \<in> set is then Some x else map_of (fds (proc d)) f))"
  using assms
proof (induction "is" arbitrary: d)
  case Nil
  then show ?case by (auto simp: fd_step_def intro: exI [of _ "fds (proc d)"])
next
  case (Cons i "is")
  let ?p = "(proc d)\<lparr>fds := (i, x) # filter (\<lambda>(f, _). f \<noteq> i) (fds (proc d)), os := (env d)\<lparr>tick := Suc (tick (env d))\<rparr>\<rparr>"
  have "outcome (env d) (tick (env d)) = 0"
    using Cons.prems fail_IW_ERR by (fastforce simp: dup2_def proc_call_simps split: if_splits)
  then have du: "dup2 nullfd i (proc d) = (True, ?p)" using Cons.prems(2) by (simp add: dup2_def proc_call_simps)
  then have r: "dup_loop is nullfd (d\<lparr>proc := ?p\<rparr>) = Inr (IW_OK, d')" using Cons.prems(1) by simp
  have "map_of (fds (proc (d\<lparr>proc := ?p\<rparr>))) nullfd = Some x" using Cons.prems(2) by (simp add: map_of_filter_fst)
  from Cons.IH [OF r this] have h: "fd_step (d\<lparr>proc := ?p\<rparr>) d'"
      "\<And>f. map_of (fds (proc d')) f = (if f \<in> set is then Some x else map_of (fds ?p) f)" by simp_all
  have "only_said ((proc d)\<lparr>fds := fds ?p\<rparr>) ?p" by (auto simp: only_said_def split: logptr.split)
  then have "fd_step d (d\<lparr>proc := ?p\<rparr>)" unfolding fd_step_def by auto
  from fd_step_trans [OF this h(1)] h(2) show ?case by (simp add: map_of_filter_fst)
qed

lemma fd_stepI: "only_said ((proc d)\<lparr>fds := fs\<rparr>) p \<Longrightarrow> fd_step d (d\<lparr>proc := p\<rparr>)"
  by (auto simp: fd_step_def)

lemma os_call_eq: "os_call d = (outcome (env d) (tick (env d)) = 0, upd_world ((env d)\<lparr>tick := Suc (tick (env d))\<rparr>) d)"
  by (simp add: os_call_def proc_call_simps upd_world_def)

lemma fd_step_tick: "fd_step d (upd_world ((env d)\<lparr>tick := t\<rparr>) d)"
  unfolding upd_world_def by (rule fd_stepI [where fs = "fds (proc d)"]) simp

text \<open>The descriptor \<open>open\<close> delivers.\<close>

definition next_fd :: "process \<Rightarrow> int" where
  "next_fd p = pick_fd (length (fds p)) (map fst (fds p)) 0"

lemma next_fd_os [simp]: "next_fd (p\<lparr>os := w\<rparr>) = next_fd p"
  by (simp add: next_fd_def)

lemma next_fd_nonneg: "0 \<le> next_fd p"
  by (simp add: next_fd_def pick_fd_ge)

lemma dup_loop_result: "dup_loop is fd d = Inr (r, d') \<Longrightarrow> r = IW_OK \<or> r = IW_ERR"
  by (induction "is" arbitrary: d) (auto simp: Let_def dest: fail_IW_ERR split: prod.splits if_splits)

lemma renew_std_ok:
  assumes "renew_std nullfd d = Inr (IW_OK, d')" and m: "map_of (fds (proc d)) nullfd = Some x"
  shows "(\<exists>d1. fd_step d d1 \<and> d' = d1\<lparr>umask := 0, leader := True\<rparr>) \<and>
    (\<forall>f \<ge> 0. map_of (fds (proc d')) f =
       (if f = nullfd then None else if f < 3 then Some x else map_of (fds (proc d)) f))"
proof -
  obtain r1 d1 where d1: "dup_loop [0, 1, 2] nullfd d = Inr (r1, d1)" and r': "(if r1 = IW_ERR then Inr (IW_ERR, d1)
     else
      (let d = d1\<lparr>proc := close_fd nullfd (proc d1), umask := 0\<rparr>; (ok, d) = os_call d in
       if \<not> ok then fail ''EV_FAIL_SETSID'' [reason d] d
       else Inr (IW_OK, d\<lparr>leader := True\<rparr>))) = Inr (IW_OK, d')"
    using assms(1) unfolding renew_std_def by (elim ebind_pairE)
  have r1: "r1 = IW_OK" using r' dup_loop_result [OF d1] by auto
  have s: "fd_step d d1" and f: "\<And>f. map_of (fds (proc d1)) f = (if f \<in> {0, 1, 2} then Some x else map_of (fds (proc d)) f)"
    using dup_loop_ok [OF d1 [unfolded r1] m] by simp_all
  let ?d2 = "d1\<lparr>proc := close_fd nullfd (proc d1)\<rparr>"
  let ?d3 = "upd_world ((env ?d2)\<lparr>tick := Suc (tick (env ?d2))\<rparr>) ?d2"
  have "outcome (env d1) (tick (env d1)) = 0"
  proof (rule ccontr)
    assume "outcome (env d1) (tick (env d1)) \<noteq> 0"
    with r' r1 have "\<exists>e. fail ''EV_FAIL_SETSID'' [reason e] e = Inr (IW_OK, d')"
      by (auto simp: os_call_eq close_fd_def Let_def)
    then show False using fail_IW_ERR by fastforce
  qed
  then have d': "d' = ?d3\<lparr>umask := 0, leader := True\<rparr>"
    using r' r1 by (cases d1) (auto simp: os_call_eq close_fd_def upd_world_def Let_def)
  have "fd_step d1 ?d2" by (rule fd_stepI [where fs = "fds (proc ?d2)"]) (simp add: close_fd_def)
  then have "fd_step d ?d3" using s fd_step_tick fd_step_trans by blast
  moreover have "map_of (fds (proc d')) f = (if f = nullfd then None else if f < 3 then Some x else map_of (fds (proc d)) f)"
    if "0 \<le> f" for f
  proof -
    have "f \<in> {0, 1, 2} \<longleftrightarrow> f < 3" using that by auto
    then show ?thesis by (simp add: d' upd_world_def close_fd_def map_of_filter_fst f)
  qed
  ultimately show ?thesis using d' by blast
qed

lemma become_daemon_ok:
  assumes "become_daemon excfd d = Inr (IW_OK, d')"
  defines "nullfd \<equiv> next_fd (proc d)"
  shows "(\<exists>d1. fd_step d d1 \<and> d' = d1\<lparr>umask := 0, leader := True\<rparr>) \<and>
    (\<forall>f. 0 \<le> f \<and> f < IW_FD_MAX \<longrightarrow> map_of (fds (proc d')) f =
       (if f = nullfd then None else if f < 3 then Some Null_dev
        else if f = excfd then map_of (fds (proc d)) f else None))"
proof -
  let ?p = "(proc d)\<lparr>fds := (nullfd, Null_dev) # fds (proc d), os := (env d)\<lparr>tick := Suc (tick (env d))\<rparr>\<rparr>"
  let ?keep = "\<lambda>(f, _). f \<notin> set [0..IW_FD_MAX - 1] \<or> f = excfd \<or> f = nullfd"
  let ?p2 = "?p\<lparr>fds := filter ?keep (fds ?p)\<rparr>"
  have ok: "outcome (env d) (tick (env d)) = 0"
    using assms(1) fail_IW_ERR by (fastforce simp: become_daemon_def sys_open_def proc_call_simps Let_def)
  then have so: "sys_open Null_dev (proc d) = (nullfd, ?p)"
    by (simp add: sys_open_def proc_call_simps Let_def nullfd_def next_fd_def)
  have nn: "nullfd \<noteq> -1" using next_fd_nonneg [of "proc d"] by (simp add: nullfd_def)
  have r: "renew_std nullfd (d\<lparr>proc := ?p2\<rparr>) = Inr (IW_OK, d')"
    using assms(1) nn unfolding become_daemon_def so Let_def prod.case if_False close_loop by simp
  have m: "map_of (fds (proc (d\<lparr>proc := ?p2\<rparr>))) nullfd = Some Null_dev" by (simp add: map_of_filter_fst)
  have "fd_step d (d\<lparr>proc := ?p2\<rparr>)"
    by (rule fd_stepI [where fs = "fds ?p2"]) (auto simp: only_said_def split: logptr.split)
  then have "\<exists>d1. fd_step d d1 \<and> d' = d1\<lparr>umask := 0, leader := True\<rparr>"
    using renew_std_ok [OF r m] fd_step_trans by blast
  moreover have "map_of (fds (proc d')) f =
       (if f = nullfd then None else if f < 3 then Some Null_dev
        else if f = excfd then map_of (fds (proc d)) f else None)" if "0 \<le> f" "f < IW_FD_MAX" for f
    using that renew_std_ok [OF r m] by (simp add: map_of_filter_fst)
  ultimately show ?thesis by blast
qed

lemma daemonize_child:
  assumes "daemonize excfd d = Inr (Some IW_OK, d')"
  shows "follows_child d \<and> become_daemon excfd (upd_world ((env d)\<lparr>tick := Suc (tick (env d))\<rparr>) d) = Inr (IW_OK, d')"
  using assms fail_IW_ERR by (fastforce simp: daemonize_def os_call_eq ebind_Inr_iff upd_world_def split: if_splits)

text \<open>C37: in a process that \<open>daemonize\<close> has made a daemon, the first 64 descriptors are these: 0, 1
  and 2 are the null device, the excepted descriptor is what it was, the others are closed.
  That is so when both the excepted descriptor and the one \<open>/dev/null\<close> was opened at are
  above 2, as they are when the process was started with the three standard streams. Otherwise the
  null device replaces the log, and the standard stream the null device was opened at is closed.\<close>

theorem daemonize_descriptors:
  assumes "daemonize excfd d = Inr (Some IW_OK, d')" and "distinct (map fst (fds (proc d)))"
  defines "nullfd \<equiv> next_fd (proc d)"
  shows "leader d' \<and> umask d' = 0 \<and> follows_child d \<and>
    (\<forall>f. 0 \<le> f \<and> f < IW_FD_MAX \<longrightarrow> map_of (fds (proc d')) f =
       (if f = nullfd then None else if f < 3 then Some Null_dev
        else if f = excfd then map_of (fds (proc d)) f else None)) \<and>
    ({0, 1, 2} \<subseteq> fst ` set (fds (proc d)) \<longrightarrow> 3 \<le> nullfd)"
proof -
  note c = daemonize_child [OF assms(1)]
  have n: "next_fd (proc (upd_world w d)) = nullfd" for w by (simp add: upd_world_def next_fd_def nullfd_def)
  have f: "fds (proc (upd_world w d)) = fds (proc d)" for w by (simp add: upd_world_def)
  have "nullfd \<notin> fst ` set (fds (proc d))"
    using pick_fd_unused [OF assms(2), of 0] by (simp add: nullfd_def next_fd_def)
  then have "3 \<le> nullfd" if "{0, 1, 2} \<subseteq> fst ` set (fds (proc d))"
    using that next_fd_nonneg [of "proc d"] unfolding nullfd_def [symmetric]
    by (cases "nullfd = 0 \<or> nullfd = 1 \<or> nullfd = 2") auto
  with c become_daemon_ok [OF conjunct2 [OF c], unfolded n f] show ?thesis by auto
qed

text \<open>Without failing calls the child becomes a daemon.\<close>

lemma fault_free_0: "fault_free w \<Longrightarrow> outcome w n = 0"
  by (simp add: fault_free_def)

lemma dup_loop_free:
  "\<lbrakk>fault_free (env d); map_of (fds (proc d)) nullfd = Some x\<rbrakk> \<Longrightarrow>
   \<exists>d'. dup_loop is nullfd d = Inr (IW_OK, d') \<and> fault_free (env d')"
proof (induction "is" arbitrary: d)
  case (Cons i "is")
  let ?p = "(proc d)\<lparr>fds := (i, x) # filter (\<lambda>(f, _). f \<noteq> i) (fds (proc d)), os := (env d)\<lparr>tick := Suc (tick (env d))\<rparr>\<rparr>"
  have "dup2 nullfd i (proc d) = (True, ?p)"
    using Cons.prems by (simp add: dup2_def proc_call_simps fault_free_0)
  moreover have "fault_free (env (d\<lparr>proc := ?p\<rparr>))" "map_of (fds (proc (d\<lparr>proc := ?p\<rparr>))) nullfd = Some x"
    using Cons.prems by (simp_all add: map_of_filter_fst)
  ultimately show ?case using Cons.IH [of "d\<lparr>proc := ?p\<rparr>"] by simp
qed simp

lemma renew_std_free:
  assumes "fault_free (env d)" and "map_of (fds (proc d)) nullfd = Some x"
  shows "\<exists>d'. renew_std nullfd d = Inr (IW_OK, d')"
proof -
  obtain d1 where "dup_loop [0, 1, 2] nullfd d = Inr (IW_OK, d1)" "fault_free (env d1)"
    using dup_loop_free [OF assms] by blast
  then show ?thesis using fault_free_0 [of "env d1"]
    by (simp add: renew_std_def os_call_eq close_fd_def del: dup_loop.simps)
qed

lemma daemonize_free:
  assumes ff: "fault_free (env d)" and c: "follows_child d"
  shows "\<exists>d'. daemonize excfd d = Inr (Some IW_OK, d')"
proof -
  let ?d = "upd_world ((env d)\<lparr>tick := Suc (tick (env d))\<rparr>) d"
  let ?n = "next_fd (proc ?d)"
  let ?p = "(proc ?d)\<lparr>fds := (?n, Null_dev) # fds (proc ?d), os := (env ?d)\<lparr>tick := Suc (tick (env ?d))\<rparr>\<rparr>"
  let ?keep = "\<lambda>(f, _). f \<notin> set [0..IW_FD_MAX - 1] \<or> f = excfd \<or> f = ?n"
  let ?p2 = "?p\<lparr>fds := filter ?keep (fds ?p)\<rparr>"
  have f1: "fault_free (env ?d)" using ff by (simp add: upd_world_def)
  have so: "sys_open Null_dev (proc ?d) = (?n, ?p)"
    using fault_free_0 [OF f1] by (simp add: sys_open_def proc_call_simps Let_def next_fd_def)
  have nn: "(?n = -1) = False" using next_fd_nonneg [of "proc ?d"] by simp
  have "become_daemon excfd ?d = renew_std ?n (?d\<lparr>proc := ?p2\<rparr>)"
    unfolding become_daemon_def so Let_def prod.case nn if_False close_loop by simp
  moreover have "\<exists>d'. renew_std ?n (?d\<lparr>proc := ?p2\<rparr>) = Inr (IW_OK, d')"
    by (rule renew_std_free [where x = Null_dev]) (use f1 in \<open>simp_all add: map_of_filter_fst\<close>)
  ultimately show ?thesis
    using c fault_free_0 [OF ff] by (auto simp: daemonize_def os_call_eq upd_world_def)
qed

text \<open>A process started by root, with a data store and a user.\<close>

definition boot_world :: world where
  "boot_world = start_world\<lparr>fsys := [''/tftpboot'' \<mapsto> Directory, ''/etc/passwd'' \<mapsto> Regular ''root''],
     canon := (\<lambda>s. if s = [] then ''/'' else s)\<rparr>"

definition boot_daemon :: daemon where
  "boot_daemon = \<lparr>proc = start_process\<lparr>os := boot_world\<rparr>, uid = 0, gid = 0, groups = [0], rootdir = ''/'',
     cwd = ''/root'', umask = 18, leader = False, actions = (\<lambda>_. SIG_DFL), evloop_exit = False,
     follows_child = True, stamp = (\<lambda>_. ''2012-01-01 00:00:00''),
     passwd = [''nobody'' \<mapsto> (99, 98)], groupdb = (\<lambda>r u. if r = ''/'' then [7] else []),
     resolve = (\<lambda>r p. r @ p)\<rparr>"

theorem daemonize_descriptors_witness:
  "\<exists>d'. daemonize 3 (boot_daemon\<lparr>proc := logging_process\<rparr>) = Inr (Some IW_OK, d') \<and>
     map_of (fds (proc d')) 3 = Some Log_file \<and> map_of (fds (proc d')) 2 = Some Null_dev \<and>
     map_of (fds (proc d')) 4 = None"
proof -
  let ?d = "boot_daemon\<lparr>proc := logging_process\<rparr>"
  have "fault_free (env ?d)" "follows_child ?d"
    by (simp_all add: logging_process_def start_process_def start_world_def fault_free_def boot_daemon_def)
  then obtain d' where r: "daemonize 3 ?d = Inr (Some IW_OK, d')" using daemonize_free by blast
  have "distinct (map fst (fds (proc ?d)))" "next_fd (proc ?d) = 4" by code_simp+
  with daemonize_descriptors [OF r] have
    "\<forall>f. 0 \<le> f \<and> f < IW_FD_MAX \<longrightarrow> map_of (fds (proc d')) f =
       (if f = 4 then None else if f < 3 then Some Null_dev
        else if f = 3 then map_of (fds (proc ?d)) f else None)" by simp
  moreover have "map_of (fds (proc ?d)) 3 = Some Log_file" by code_simp
  ultimately show ?thesis using r by simp
qed

section \<open>How far \<open>main\<close> gets\<close>

text \<open>\<open>prep d d'\<close>: what no step before \<open>chroot\<close> changes.\<close>

definition prep :: "daemon \<Rightarrow> daemon \<Rightarrow> bool" where
  "prep d d' \<longleftrightarrow> uid d' = uid d \<and> gid d' = gid d \<and> groups d' = groups d \<and> rootdir d' = rootdir d \<and>
     passwd d' = passwd d \<and> groupdb d' = groupdb d \<and> resolve d' = resolve d \<and> stamp d' = stamp d \<and>
     same_files (env d) (env d') \<and> same_env (env d) (env d') \<and>
     (distinct (map fst (socks (env d))) \<longrightarrow> distinct (map fst (socks (env d'))))"

lemma prep_refl [simp]: "prep d d"
  by (simp add: prep_def)

lemma prep_trans [trans]: "\<lbrakk>prep d d'; prep d' d''\<rbrakk> \<Longrightarrow> prep d d''"
  by (auto simp: prep_def intro: same_env_trans same_files_trans)

lemma prep_upd_world:
  "\<lbrakk>same_files (env d) w; same_env (env d) w;
    distinct (map fst (socks (env d))) \<longrightarrow> distinct (map fst (socks w))\<rbrakk> \<Longrightarrow> prep d (upd_world w d)"
  by (simp add: prep_def upd_world_def)

lemma prep_tick: "prep d (upd_world ((env d)\<lparr>tick := t\<rparr>) d)"
  by (rule prep_upd_world) (simp_all add: same_files_def same_env_def)

lemma prep_fd_step: "fd_step d d' \<Longrightarrow> prep d d'"
proof -
  assume f: "fd_step d d'"
  then obtain fs where "only_said ((proc d)\<lparr>fds := fs\<rparr>) (proc d')" unfolding fd_step_def by blast
  then obtain t where "env d' = (env d)\<lparr>tick := t\<rparr>" by (auto simp: only_said_def)
  moreover have "d' = d\<lparr>proc := proc d'\<rparr>" using f by (simp add: fd_step_def)
  moreover from this have "uid d' = uid d" "gid d' = gid d" "groups d' = groups d" "rootdir d' = rootdir d"
    "passwd d' = passwd d" "groupdb d' = groupdb d" "resolve d' = resolve d" "stamp d' = stamp d"
    by (cases d; cases d'; simp)+
  ultimately show "prep d d'" by (simp add: prep_def same_files_def same_env_def)
qed

lemma said_fd_step: "said d d' \<Longrightarrow> fd_step d d'"
  by (auto simp: said_def fd_step_def intro: exI [of _ "fds (proc d)"])

lemma prep_say: "say nm args d = Inr d' \<Longrightarrow> prep d d'"
  by (rule prep_fd_step [OF said_fd_step [OF say_said]])

lemma init_signal_prep:
  "init_signal sl n h d = Inr (IW_OK, d') \<Longrightarrow>
   prep d d' \<and> (\<forall>s. actions d' s = (if s \<in> set (take n sl) then h else actions d s)) \<and> alog (proc d') = alog (proc d) \<and>
   logready (proc d') = logready (proc d) \<and>
   fds (proc d') = fds (proc d) \<and> errtext (proc d') = errtext (proc d)"
proof (induction n arbitrary: d)
  case (Suc n)
  let ?t = "\<lambda>k. upd_world ((env d)\<lparr>tick := k\<rparr>) d" and ?k = "tick (env d)"
  let ?d1 = "(?t (Suc (Suc ?k)))\<lparr>actions := (actions d)(sl ! n := h)\<rparr>"
  have "outcome (env d) ?k = 0" "outcome (env d) (Suc ?k) = 0" "n < length sl"
    and r: "init_signal sl n h ?d1 = Inr (IW_OK, d')"
    using Suc.prems by (auto simp: os_call_eq upd_world_def Let_def ebind_Inr_iff dest: fail_IW_ERR split: if_splits)
  have "prep d ?d1" using prep_tick [of d] by (simp add: prep_def upd_world_def)
  moreover have "take (Suc n) sl = take n sl @ [sl ! n]" using \<open>n < length sl\<close> by (simp add: take_Suc_conv_app_nth)
  ultimately show ?case using Suc.IH [OF r] prep_trans by (auto simp: upd_world_def)
qed simp

lemma exec_chroot_ok:
  assumes "exec_chroot dir d = Inr (IW_OK, d')"
  defines "q \<equiv> canon (env d) dir"
  shows "uid d = 0 \<and> fsys (env d) q = Some Directory \<and>
    (\<exists>t. d' = d\<lparr>rootdir := q,
      proc := (proc d)\<lparr>os := (env d)\<lparr>canon := resolve d q, tick := t\<rparr>\<rparr>, cwd := q\<rparr>)"
  using assms(1) unfolding exec_chroot_def root_call_def os_call_eq
  by (auto simp: q_def Let_def upd_world_def dest: fail_IW_ERR split: if_splits)

lemma set_credential_ok:
  assumes "set_credential user u g d = Inr (IW_OK, d')"
  shows "uid d = 0 \<and> (\<exists>t. d' = d\<lparr>gid := g, groups := g # groupdb d (rootdir d) user,
      proc := (proc d)\<lparr>os := (env d)\<lparr>tick := t\<rparr>\<rparr>, uid := u\<rparr>)"
  using assms unfolding set_credential_def root_call_def os_call_eq
  by (auto simp: Let_def upd_world_def dest: fail_IW_ERR split: if_splits)

lemma ferr_not_Serve [simp]: "ferr nm args x tf ds d \<noteq> Inr (Serve tf', d')"
  by (auto simp: ferr_def ebind_Inr_iff)

text \<open>The credentials and the root directory of the service.\<close>

definition secured :: "daemon \<Rightarrow> string \<Rightarrow> string \<Rightarrow> daemon \<Rightarrow> bool" where
  "secured d user root d' \<longleftrightarrow>
     (\<exists>u g. passwd d user = Some (u, g) \<and> uid d' = u \<and> gid d' = g \<and> groups d' = g # groupdb d root user) \<and>
     fsys (env d) root = Some Directory \<and> rootdir d' = root \<and> cwd d' = root \<and>
     canon (env d') = resolve d root"

text \<open>The log is open: the object is there, the process may use it, and its descriptor is the log file.\<close>

definition log_open :: "process \<Rightarrow> bool" where
  "log_open p \<longleftrightarrow> logready p \<and> (\<exists>l. alog p = Log l \<and> length (lg_msgbuf l) = LOGMSGBUF_SIZE \<and>
     map_of (fds p) (lg_fd l) = Some Log_file)"

lemma log_open_os [simp]: "log_open (p\<lparr>os := w\<rparr>) = log_open p"
  by (simp add: log_open_def)

lemma log_open_said: "\<lbrakk>only_said p p'; log_open p\<rbrakk> \<Longrightarrow> log_open p'"
  by (auto simp: only_said_def log_open_def)

text \<open>Messages can be printed: there is no log yet, or it is ready and in order, and the time
  stamps fit.\<close>

definition can_say :: "daemon \<Rightarrow> bool" where
  "can_say d \<longleftrightarrow> (alog (proc d) = No_log \<and> \<not> logready (proc d) \<or>
      (\<exists>l. alog (proc d) = Log l) \<and> logready (proc d) \<and> log_ok (proc d)) \<and> is_cstring (errtext (proc d)) \<and>
    (\<forall>t. is_cstring (stamp d t) \<and> length (stamp d t) \<le> 21)"

lemma log_ok_os [simp]: "log_ok (p\<lparr>os := w\<rparr>) = log_ok p"
  by (simp add: log_ok_def split: logptr.split)

lemma can_say_upd [simp]:
  "can_say (upd_world w d) = can_say d" "can_say (d\<lparr>actions := a\<rparr>) = can_say d"
  by (simp_all add: can_say_def upd_world_def)

lemma can_say_said: "\<lbrakk>said d d'; can_say d\<rbrakk> \<Longrightarrow> can_say d'"
proof -
  assume s: "said d d'" and c: "can_say d"
  have "stamp d' = stamp d" using s by (cases d; cases d') (simp add: said_def)
  moreover have o: "only_said (proc d) (proc d')" using s by (simp add: said_def)
  moreover have "log_ok (proc d) \<longrightarrow> log_ok (proc d')" using only_said_log_ok [OF o] by blast
  ultimately show "can_say d'"
    using c unfolding can_say_def only_said_def by (auto split: logptr.splits)
qed

lemma said_fields:
  "said d d' \<Longrightarrow> uid d' = uid d \<and> gid d' = gid d \<and> groups d' = groups d \<and> rootdir d' = rootdir d \<and> cwd d' = cwd d \<and>
    actions d' = actions d \<and> leader d' = leader d \<and> umask d' = umask d \<and> fds (proc d') = fds (proc d) \<and>
    (\<exists>t. env d' = (env d)\<lparr>tick := t\<rparr>) \<and> (log_open (proc d) \<longrightarrow> log_open (proc d')) \<and>
    logready (proc d') = logready (proc d)"
proof -
  assume "said d d'"
  then have "only_said (proc d) (proc d')" "d' = d\<lparr>proc := proc d'\<rparr>" by (auto simp: said_def)
  then show ?thesis using log_open_said by (cases d; cases d') (auto simp: only_said_def)
qed

text \<open>\<open>chroot\<close>, \<open>chdir\<close> and the credentials, all in one update.\<close>

lemma main_confine_Serve:
  assumes "main_confine user u g ds tf d = Inr (Serve tf', d')"
  defines "q \<equiv> canon (env d) (dspath ds)"
  shows "uid d = 0 \<and> fsys (env d) q = Some Directory \<and> tf' = tf\<lparr>tads := ds\<lparr>fchroot := True, dspath := [SLASH]\<rparr>\<rparr> \<and>
    (\<exists>t. said (d\<lparr>proc := (proc d)\<lparr>os := (env d)\<lparr>canon := resolve d q, tick := t\<rparr>\<rparr>, uid := u, gid := g,
       groups := g # groupdb d q user, rootdir := q, cwd := q\<rparr>) d')"
proof -
  obtain r1 d1 where c: "exec_chroot (dspath ds) d = Inr (r1, d1)" "r1 \<noteq> IW_ERR"
      and c': "ebind (iwds_set_chroot ds) (\<lambda>ds. ebind (set_credential user u g d1) (\<lambda>(r, d).
        if r = IW_ERR then ferr ''E_FAIL_SET_CREDENTIAL'' [Str user] EX_OSERR (Some tf) (Some ds) d
        else ebind (say ''I_START_SERVER'' [] d) (\<lambda>d. Inr (Serve (tf\<lparr>tads := ds\<rparr>), d)))) = Inr (Serve tf', d')"
    using assms(1) unfolding main_confine_def by (elim ebind_pairE) (simp add: iwds_get_dspath_def split: if_splits)
  from c' obtain ds' r2 d2 where s: "iwds_set_chroot ds = Inr ds'" "set_credential user u g d1 = Inr (r2, d2)" "r2 \<noteq> IW_ERR"
      and s': "ebind (say ''I_START_SERVER'' [] d2) (\<lambda>d. Inr (Serve (tf\<lparr>tads := ds'\<rparr>), d)) = Inr (Serve tf', d')"
    by (elim ebind_InrE ebind_pairE) (auto split: if_splits)
  from s' have sd: "said d2 d'" "tf' = tf\<lparr>tads := ds'\<rparr>" by (auto simp: ebind_Inr_iff intro: say_said)
  have "r1 = IW_OK" using c unfolding exec_chroot_def root_call_def os_call_eq
    by (auto simp: Let_def dest: fail_IW_ERR split: if_splits)
  note e = exec_chroot_ok [OF c(1) [unfolded this]]
  have "r2 = IW_OK" using s(2,3) unfolding set_credential_def root_call_def os_call_eq
    by (auto simp: Let_def dest: fail_IW_ERR split: if_splits)
  note f = set_credential_ok [OF s(2) [unfolded this]]
  have "ds' = ds\<lparr>fchroot := True, dspath := [SLASH]\<rparr>" using s(1) by (simp add: iwds_set_chroot_def split: if_splits)
  moreover obtain t1 where d1: "d1 = d\<lparr>rootdir := q, proc := (proc d)\<lparr>os := (env d)\<lparr>canon := resolve d q, tick := t1\<rparr>\<rparr>, cwd := q\<rparr>"
    using e by (auto simp: q_def)
  moreover obtain t2 where "d2 = d1\<lparr>gid := g, groups := g # groupdb d1 (rootdir d1) user,
      proc := (proc d1)\<lparr>os := (env d1)\<lparr>tick := t2\<rparr>\<rparr>, uid := u\<rparr>"
    using f by blast
  ultimately show ?thesis using e sd by (cases d) (auto simp: q_def)
qed

lemma main_secure_Serve:
  assumes "main_secure svc ds tf d = Inr (Serve tf', d')"
  shows "\<exists>user. sc_user svc = Some user \<and> secured d user (canon (env d) (dspath ds)) d' \<and> uid d = 0 \<and>
    same_files (env d) (env d') \<and> socks (env d') = socks (env d) \<and> outcome (env d') = outcome (env d) \<and>
    clock (env d') = clock (env d) \<and> actions d' = actions d \<and> leader d' = leader d \<and> (log_open (proc d) \<longrightarrow> log_open (proc d')) \<and>
    (can_say d \<longrightarrow> can_say d') \<and> logready (proc d') = logready (proc d) \<and> tf' = tf\<lparr>tads := ds\<lparr>fchroot := True, dspath := [SLASH]\<rparr>\<rparr>"
proof -
  obtain user where user: "sc_user svc = Some user" using assms by (cases "sc_user svc") (auto simp: main_secure_def)
  let ?d = "upd_world ((env d)\<lparr>tick := Suc (tick (env d))\<rparr>) d" and ?q = "canon (env d) (dspath ds)"
  obtain u g where ug: "passwd d user = Some (u, g)" "main_confine user u g ds tf ?d = Inr (Serve tf', d')"
    using assms unfolding main_secure_def user option.case os_call_eq Let_def prod.case
    by (auto simp: upd_world_def split: option.splits if_splits)
  have q: "canon (env ?d) (dspath ds) = ?q" by (simp add: upd_world_def)
  obtain t d1 where d1: "d1 = ?d\<lparr>proc := (proc ?d)\<lparr>os := (env ?d)\<lparr>canon := resolve ?d ?q, tick := t\<rparr>\<rparr>, uid := u, gid := g,
       groups := g # groupdb ?d ?q user, rootdir := ?q, cwd := ?q\<rparr>" and s: "said d1 d'"
      and m: "uid ?d = 0" "fsys (env ?d) ?q = Some Directory" "tf' = tf\<lparr>tads := ds\<lparr>fchroot := True, dspath := [SLASH]\<rparr>\<rparr>"
    using main_confine_Serve [OF ug(2)] unfolding q by blast
  have e1: "env d1 = (env d)\<lparr>canon := resolve d ?q, tick := t\<rparr>" "can_say d1 = can_say d"
    "logready (proc d1) = logready (proc d)" "log_open (proc d1) = log_open (proc d)"
    by (simp_all add: d1 upd_world_def can_say_def)
  note g = said_fields [OF s]
  obtain t3 where t3: "env d' = (env d1)\<lparr>tick := t3\<rparr>" using g by blast
  have "secured d user ?q d'" using g ug(1) m(2) t3 e1(1) by (simp add: secured_def d1 upd_world_def)
  moreover have "same_files (env d) (env d')" "socks (env d') = socks (env d)" "outcome (env d') = outcome (env d)"
      "clock (env d') = clock (env d)" "actions d' = actions d" "leader d' = leader d" "uid d = 0"
    using g t3 e1(1) m(1) by (simp_all add: same_files_def d1 upd_world_def)
  moreover have "log_open (proc d) \<longrightarrow> log_open (proc d')" "can_say d \<longrightarrow> can_say d'" "logready (proc d') = logready (proc d)"
    using g e1(2-4) can_say_said [OF s] by simp_all
  ultimately show ?thesis using user m(3) by blast
qed

definition store_dir :: "svconf \<Rightarrow> string" where
  "store_dir svc = (case sc_datastore svc of None \<Rightarrow> DEFAULT_DATASTORE | Some x \<Rightarrow> x)"

lemma iwds_init_ok:
  assumes "iwds_init (sc_datastore svc) w = (Some ds, w')"
  shows "(\<exists>t. w' = w\<lparr>tick := t\<rparr>) \<and>
    ds = \<lparr>dhead = None, dheap = (\<lambda>_. None), dbrk = 0, dspath = canon w (store_dir svc), fchroot = False\<rparr>"
  using assms by (auto simp: iwds_init_def store_dir_def Let_def sys_call_def sys_malloc_def draw_def
      split: if_splits option.splits)

lemma ifaddr_loop_world: "ifaddr_loop es nm i w = (ok, i', w') \<Longrightarrow> \<exists>t. w' = w\<lparr>tick := t\<rparr>"
proof (induction es nm i w rule: ifaddr_loop.induct)
  case (1 nm i w)
  then show ?case by (auto intro: exI [of _ "tick w"])
next
  case (2 nm a es ifname i w)
  then show ?case
    by (fastforce simp: sys_call_def draw_def Let_def split: option.splits if_splits)
qed

text \<open>Calls that only make sockets.\<close>

definition net_step :: "world \<Rightarrow> world \<Rightarrow> bool" where
  "net_step w w' \<longleftrightarrow> same_files w w' \<and> same_env w w' \<and>
     (distinct (map fst (socks w)) \<longrightarrow> distinct (map fst (socks w')))"

lemma net_step_refl: "net_step w (w\<lparr>tick := t\<rparr>)"
  by (simp add: net_step_def same_files_def same_env_def)

lemma net_step_trans: "\<lbrakk>net_step w w'; net_step w' w''\<rbrakk> \<Longrightarrow> net_step w w''"
  by (auto simp: net_step_def intro: same_files_trans same_env_trans)

lemma open_server_net:
  "open_server fam ip svs w = Inr (svs', w') \<Longrightarrow> net_step w w' \<and> length svs' = length svs"
  by (auto simp: open_server_def Let_def ebind_Inr_iff net_step_def split: if_splits dest!: create_socket_net)

lemma iwtftp_init_net:
  assumes "iwtftp_init ipver ifn ifs pds w = Inr (r, w')"
  shows "net_step w w' \<and>
    (\<forall>tf. r = Some tf \<longrightarrow> seshead tf = None \<and> sheap tf = (\<lambda>_. None) \<and> tads tf = pds \<and> length (svsocks tf) = SVSOCKS_MAX)"
proof -
  let ?w = "w\<lparr>tick := Suc (tick w)\<rparr>"
  let ?A = "case ifn of None \<Rightarrow> Inr (True, \<lparr>ipv4addr = ''ANY'', ipv6addr = ''ANY''\<rparr>, ?w)
              | Some nm \<Rightarrow> get_ifaddress ifs nm ?w"
  let ?B = "\<lambda>(ok, ia, w). if \<not> ok \<or> (wants ipver IW_IPV4 \<and> ipv4addr ia = []) \<or> (wants ipver IW_IPV6 \<and> ipv6addr ia = [])
       then Inr (None, w)
       else
        ebind (if wants ipver IW_IPV4 then open_server AF_INET (ipv4addr ia) (replicate SVSOCKS_MAX (-1)) w
               else Inr (replicate SVSOCKS_MAX (-1), w)) (\<lambda>(svs, w).
        ebind (if wants ipver IW_IPV6 then open_server AF_INET6 (ipv6addr ia) svs w
               else Inr (svs, w)) (\<lambda>(svs, w).
        if \<exists>s \<in> set svs. s \<ge> 0
        then Inr (Some \<lparr>svsocks = svs, tads = pds, seshead = None, sheap = (\<lambda>_. None), sbrk = 0\<rparr>, w)
        else Inr (None, w)))"
  have "iwtftp_init ipver ifn ifs pds w = (if outcome w (tick w) \<noteq> 0 then Inr (None, ?w) else ebind ?A ?B)"
    by (simp add: iwtftp_init_def sys_malloc_def draw_def)
  then consider "r = None" "w' = ?w" | "ebind ?A ?B = Inr (r, w')" using assms by (auto split: if_splits)
  then show ?thesis
  proof cases
    case 1
    then show ?thesis using net_step_refl by simp
  next
    case 2
    then obtain x where x: "?A = Inr x" "?B x = Inr (r, w')" by (rule ebind_InrE)
    obtain ok ia w1 where x': "x = (ok, ia, w1)" by (cases x)
    note a = x(1) [unfolded x'] and b = x(2) [unfolded x' prod.case]
    have "\<exists>t. w1 = ?w\<lparr>tick := t\<rparr>"
      using a by (auto simp: get_ifaddress_def Let_def sys_call_def draw_def split: option.splits if_splits
          dest!: ifaddr_loop_world intro: exI [of _ "Suc (tick w)"])
    then have n1: "net_step w w1" using net_step_refl by auto
    show ?thesis
    proof (cases "\<not> ok \<or> (wants ipver IW_IPV4 \<and> ipv4addr ia = []) \<or> (wants ipver IW_IPV6 \<and> ipv6addr ia = [])")
      case True
      with b n1 show ?thesis by simp
    next
      case False
      note b' = b [unfolded if_not_P [OF False]]
      obtain svs1 w2 svs2 w3 where c:
        "(if wants ipver IW_IPV4 then open_server AF_INET (ipv4addr ia) (replicate SVSOCKS_MAX (-1)) w1
               else Inr (replicate SVSOCKS_MAX (-1), w1)) = Inr (svs1, w2)"
        "(if wants ipver IW_IPV6 then open_server AF_INET6 (ipv6addr ia) svs1 w2 else Inr (svs1, w2)) = Inr (svs2, w3)"
        and l: "(if \<exists>s \<in> set svs2. s \<ge> 0
        then Inr (Some \<lparr>svsocks = svs2, tads = pds, seshead = None, sheap = (\<lambda>_. None), sbrk = 0\<rparr>, w3)
        else Inr (None, w3)) = (Inr (r, w') :: fault + iwtftp option \<times> world)"
        using b' by (elim ebind_pairE)
      have n2: "net_step w1 w2 \<and> length svs1 = SVSOCKS_MAX"
        using c(1) open_server_net net_step_refl [of w1 "tick w1"] by (fastforce split: if_splits)
      have n3: "net_step w2 w3 \<and> length svs2 = length svs1"
        using c(2) open_server_net net_step_refl [of w2 "tick w2"] by (fastforce split: if_splits)
      have "net_step w w3" using n1 n2 n3 net_step_trans by blast
      with l n2 n3 show ?thesis by (auto split: if_splits)
    qed
  qed
qed

lemmas iwtftp_init_ok = iwtftp_init_net [of _ _ _ _ _ "Some tf" for tf, simplified]

lemma main_modules_Serve:
  assumes "main_modules svc ifs d = Inr (Serve tf, d')"
  shows "\<exists>user. sc_user svc = Some user \<and> secured d user (canon (env d) (canon (env d) (store_dir svc))) d' \<and> uid d = 0 \<and>
    net_step (env d) (env d' \<lparr>canon := canon (env d)\<rparr>) \<and>
    actions d' = actions d \<and> leader d' = leader d \<and> (log_open (proc d) \<longrightarrow> log_open (proc d')) \<and>
    (can_say d \<longrightarrow> can_say d') \<and> logready (proc d') = logready (proc d) \<and> seshead tf = None \<and> sheap tf = (\<lambda>_. None) \<and> length (svsocks tf) = SVSOCKS_MAX \<and> dhead (tads tf) = None \<and> dspath (tads tf) = [SLASH]"
proof -
  obtain ads w1 where i: "iwds_init (sc_datastore svc) (env d) = (ads, w1)" by (cases "iwds_init (sc_datastore svc) (env d)")
  let ?d1 = "upd_world w1 d"
  obtain ds where ds: "ads = Some ds" using assms i unfolding main_modules_def by (cases ads) (auto simp: Let_def)
  note ids = iwds_init_ok [OF i [unfolded ds]]
  have "ebind (iwtftp_init (unat (sc_ipver svc)) (sc_ifname svc) ifs ds (env ?d1)) (\<lambda>(atftp, w).
        let d = upd_world w ?d1 in
        case atftp of
          None \<Rightarrow> ferr ''E_TFTP_FAIL_INIT'' [] EX_SOFTWARE None (Some ds) d
        | Some tf \<Rightarrow> main_secure svc ds tf d) = Inr (Serve tf, d')"
    using assms unfolding main_modules_def i ds Let_def prod.case option.case .
  then obtain at w2 where t: "iwtftp_init (unat (sc_ipver svc)) (sc_ifname svc) ifs ds (env ?d1) = Inr (at, w2)"
      "(case at of None \<Rightarrow> ferr ''E_TFTP_FAIL_INIT'' [] EX_SOFTWARE None (Some ds) (upd_world w2 ?d1)
        | Some tf \<Rightarrow> main_secure svc ds tf (upd_world w2 ?d1)) = Inr (Serve tf, d')"
    by (elim ebind_pairE) (simp add: Let_def)
  then obtain tf1 where tf1: "at = Some tf1" "main_secure svc ds tf1 (upd_world w2 ?d1) = Inr (Serve tf, d')"
    by (cases at) auto
  let ?d2 = "upd_world w2 ?d1"
  note nt = iwtftp_init_ok [OF t(1) [unfolded tf1(1)]]
  obtain tk where w1: "w1 = (env d)\<lparr>tick := tk\<rparr>" using ids by blast
  have e2: "env ?d2 = w2" "env ?d1 = w1" by (simp_all add: upd_world_def)
  have f2: "actions ?d2 = actions d" "leader ?d2 = leader d" "log_open (proc ?d2) = log_open (proc d)" "can_say ?d2 = can_say d" "logready (proc ?d2) = logready (proc d)" "uid ?d2 = uid d"
    "passwd ?d2 = passwd d" "groupdb ?d2 = groupdb d" "resolve ?d2 = resolve d"
    by (simp_all, simp_all add: upd_world_def)
  have n2: "net_step (env d) w2" using nt w1 e2 net_step_refl net_step_trans by metis
  then have c2: "canon w2 = canon (env d)" "fsys w2 = fsys (env d)" "outcome w2 = outcome (env d)" "clock w2 = clock (env d)"
    by (simp_all add: net_step_def same_env_def same_files_def)
  obtain user where u: "sc_user svc = Some user" "secured ?d2 user (canon w2 (dspath ds)) d'" "uid d = 0"
      "same_files w2 (env d')" "socks (env d') = socks w2" "outcome (env d') = outcome w2"
      "clock (env d') = clock w2" "actions d' = actions d" "leader d' = leader d" "log_open (proc d) \<longrightarrow> log_open (proc d')"
      "can_say d \<longrightarrow> can_say d'" "logready (proc d') = logready (proc d)" "tf = tf1\<lparr>tads := ds\<lparr>fchroot := True, dspath := [SLASH]\<rparr>\<rparr>"
    using main_secure_Serve [OF tf1(2)] unfolding e2 f2 by blast
  have sec: "secured d user (canon (env d) (canon (env d) (store_dir svc))) d'"
    using u(2) ids c2 unfolding secured_def e2 f2 by simp
  have "net_step (env d) ((env d')\<lparr>canon := canon (env d)\<rparr>)"
    using n2 u(4-7) by (auto simp: net_step_def same_files_def same_env_def)
  with u(1,3,8-13) sec nt ids show ?thesis by auto
qed

lemma iwlog_init_OK:
  assumes "iwlog_init v p = Inr (r, p')" and "r \<noteq> IW_ERR"
  shows "\<exists>l t. p' = p\<lparr>fds := (next_fd p, Log_file) # fds p, os := (os p)\<lparr>tick := t\<rparr>, alog := Log l\<rparr> \<and>
    lg_fd l = next_fd p \<and> lg_verbose l = v \<and> length (lg_msgbuf l) = LOGMSGBUF_SIZE"
  using assms unfolding iwlog_init_def sys_open_def proc_call_simps next_fd_def [symmetric]
  by (auto simp: Let_def ebind_Inr_iff split: if_splits)

lemma renew_std_result: "renew_std nullfd d = Inr (r, d') \<Longrightarrow> r = IW_OK \<or> r = IW_ERR"
  by (auto simp: renew_std_def os_call_eq Let_def case_prod_beta dest: fail_IW_ERR split: if_splits elim!: ebind_InrE)

lemma daemonize_result: "daemonize fd d = Inr (Some r, d') \<Longrightarrow> r = IW_OK \<or> r = IW_ERR"
proof -
  assume r: "daemonize fd d = Inr (Some r, d')"
  let ?d = "upd_world ((env d)\<lparr>tick := Suc (tick (env d))\<rparr>) d"
  have "become_daemon fd ?d = Inr (r, d') \<or> (\<exists>nm a e. fail nm a e = Inr (r, d'))"
    using r by (auto simp: daemonize_def os_call_eq ebind_Inr_iff split: if_splits)
  moreover have "become_daemon fd e = Inr (r, d') \<Longrightarrow> r = IW_OK \<or> r = IW_ERR" for e
    unfolding become_daemon_def Let_def
    by (auto simp: case_prod_beta dest: fail_IW_ERR renew_std_result split: if_splits)
  ultimately show ?thesis using fail_IW_ERR by blast
qed

definition std_fds :: "process \<Rightarrow> bool" where
  "std_fds p \<longleftrightarrow> distinct (map fst (fds p)) \<and> {0, 1, 2} \<subseteq> fst ` set (fds p)"

lemma next_fd_fresh: "distinct (map fst (fds p)) \<Longrightarrow> next_fd p \<notin> fst ` set (fds p)"
  using pick_fd_unused [of "map fst (fds p)" 0] by (simp add: next_fd_def)

lemma std_next_fd:
  assumes "std_fds p"
  shows "3 \<le> next_fd p" "next_fd p \<notin> fst ` set (fds p)"
proof -
  show n: "next_fd p \<notin> fst ` set (fds p)" using assms next_fd_fresh by (simp add: std_fds_def)
  have "n \<notin> S \<Longrightarrow> {0, 1, 2} \<subseteq> S \<Longrightarrow> n \<noteq> 0 \<and> n \<noteq> 1 \<and> n \<noteq> 2" for n :: int and S by auto
  from this [OF n] assms next_fd_nonneg [of p] show "3 \<le> next_fd p" by (simp add: std_fds_def)
qed

lemma daemonize_log:
  assumes d: "daemonize logfd d = Inr (Some IW_OK, d')" and o: "log_open (proc d)" "std_fds (proc d)"
    and l: "alog (proc d) = Log l" "logfd = lg_fd l" "3 \<le> logfd" "logfd < IW_FD_MAX"
  shows "log_open (proc d')"
proof -
  let ?d = "upd_world ((env d)\<lparr>tick := Suc (tick (env d))\<rparr>) d"
  have b: "become_daemon logfd ?d = Inr (IW_OK, d')" using daemonize_child [OF d] by blast
  have di: "distinct (map fst (fds (proc ?d)))" using o(2) by (simp add: upd_world_def std_fds_def)
  obtain d1 fs where d1: "only_said ((proc ?d)\<lparr>fds := fs\<rparr>) (proc d1)" "d' = d1\<lparr>umask := 0, leader := True\<rparr>"
    using become_daemon_ok [OF b] unfolding fd_step_def by blast
  have "logfd \<in> fst ` set (fds (proc d))" using o(1) l(1,2) by (auto simp: log_open_def dest!: map_of_SomeD intro: rev_image_eqI)
  moreover have "next_fd (proc ?d) \<notin> fst ` set (fds (proc d))" using next_fd_fresh [OF di] by (simp add: upd_world_def)
  ultimately have "logfd \<noteq> next_fd (proc ?d)" by metis
  then have "map_of (fds (proc d')) logfd = Some Log_file"
    using become_daemon_ok [OF b] l o(1) by (auto simp: upd_world_def log_open_def)
  moreover have "logready (proc d')" "\<exists>l'. alog (proc d') = Log l' \<and> lg_fd l' = lg_fd l \<and> length (lg_msgbuf l') = length (lg_msgbuf l)"
    using d1 o(1) l(1) by (auto simp: only_said_def upd_world_def log_open_def)
  ultimately show ?thesis using o(1) l(1,2) by (auto simp: log_open_def)
qed

lemma daemonize_prep:
  assumes "daemonize fd d = Inr (Some IW_OK, d')"
  shows "prep d d' \<and> leader d' \<and> actions d' = actions d \<and> follows_child d \<and>
    (\<exists>p. only_said p (proc d') \<and> alog p = alog (proc d) \<and> logready p = logready (proc d) \<and> errtext p = errtext (proc d))"
proof -
  let ?d = "upd_world ((env d)\<lparr>tick := Suc (tick (env d))\<rparr>) d"
  note c = daemonize_child [OF assms]
  obtain d3 where d3: "fd_step ?d d3" "d' = d3\<lparr>umask := 0, leader := True\<rparr>"
    using become_daemon_ok [OF conjunct2 [OF c]] by blast
  have "prep d d3" using prep_trans [OF prep_tick prep_fd_step [OF d3(1)]] .
  then have "prep d d'" using d3(2) by (simp add: prep_def)
  moreover have "actions d3 = actions ?d" using d3(1) by (cases d3) (auto simp: fd_step_def)
  moreover obtain fs where "only_said ((proc ?d)\<lparr>fds := fs\<rparr>) (proc d3)" using d3(1) unfolding fd_step_def by blast
  ultimately show ?thesis using d3(2) c by (auto simp: upd_world_def intro!: exI [of _ "(proc ?d)\<lparr>fds := fs\<rparr>"])
qed

lemma main_detach_Serve:
  assumes "main_detach fd svc ifs d = Inr (Serve tf, d')"
  obtains d2 where "daemonize fd d = Inr (Some IW_OK, d2)" "main_modules svc ifs d2 = Inr (Serve tf, d')"
proof -
  obtain r d2 where z: "daemonize fd d = Inr (r, d2)" "(if r = None then Inr (Parent, d2)
     else if r = Some IW_ERR then ferr ''E_FAIL_DAEMONIZE'' [] EX_OSERR None None d2
     else main_modules svc ifs d2) = Inr (Serve tf, d')"
    using assms unfolding main_detach_def by (elim ebind_pairE)
  then obtain r2 where r2: "r = Some r2" "r2 \<noteq> IW_ERR" by (cases r) (auto split: if_splits)
  with daemonize_result z(1) have "r2 = IW_OK" by blast
  with that z r2 show thesis by simp
qed

text \<open>The process once the log is open and \<open>g_iw_logready\<close> is set.\<close>

definition logged_on :: "iwlog \<Rightarrow> process \<Rightarrow> process \<Rightarrow> bool" where
  "logged_on l p p' \<longleftrightarrow> (\<exists>t. p' = p\<lparr>fds := (next_fd p, Log_file) # fds p, os := (os p)\<lparr>tick := t\<rparr>, alog := Log l, logready := True\<rparr>) \<and>
     lg_fd l = next_fd p \<and> length (lg_msgbuf l) = LOGMSGBUF_SIZE"

lemma logged_on_open:
  assumes "logged_on l p p'"
  shows "log_open p' \<and> alog p' = Log l \<and> lg_fd l = next_fd p \<and> logready p' \<and> errtext p' = errtext p \<and>
    (std_fds p \<longrightarrow> std_fds p' \<and> 3 \<le> next_fd p)"
proof -
  have "std_fds p' \<and> 3 \<le> next_fd p" if s: "std_fds p"
  proof -
    obtain fs where "fds p' = (next_fd p, Log_file) # fds p" using assms by (auto simp: logged_on_def)
    with std_next_fd [OF s] s show ?thesis by (simp add: std_fds_def)
  qed
  then show ?thesis using assms by (auto simp: logged_on_def log_open_def)
qed

lemma main_daemon_detach:
  assumes "main_daemon svc ifs d = Inr (Serve tf, d')"
  obtains l p where "logged_on l (proc d) p" "main_detach (next_fd (proc d)) svc ifs (d\<lparr>proc := p\<rparr>) = Inr (Serve tf, d')"
proof -
  obtain r p1 where i: "iwlog_init (sc_verbose svc) (proc d) = Inr (r, p1)"
      and g0: "(if r = IW_ERR then ferr ''E_LOG_FAIL_INIT'' [] EX_SOFTWARE None None (d\<lparr>proc := p1\<rparr>)
     else ebind (iwlog_getfd (p1\<lparr>logready := True\<rparr>)) (\<lambda>(logfd, p).
       if logfd = IW_ERR then ferr ''E_LOG_MODERR'' [] EX_SOFTWARE None None (d\<lparr>proc := p\<rparr>)
       else main_detach logfd svc ifs (d\<lparr>proc := p\<rparr>))) = Inr (Serve tf, d')"
    using assms unfolding main_daemon_def Let_def by (elim ebind_pairE) (simp cong: if_cong)
  have r: "r \<noteq> IW_ERR" using g0 by auto
  obtain l t where l: "p1 = (proc d)\<lparr>fds := (next_fd (proc d), Log_file) # fds (proc d), os := (env d)\<lparr>tick := t\<rparr>, alog := Log l\<rparr>"
      "lg_fd l = next_fd (proc d)" "length (lg_msgbuf l) = LOGMSGBUF_SIZE"
    using iwlog_init_OK [OF i r] by blast
  have "iwlog_getfd (p1\<lparr>logready := True\<rparr>) = Inr (next_fd (proc d), p1\<lparr>logready := True\<rparr>)"
    using l by (simp add: iwlog_getfd_def)
  moreover have "next_fd (proc d) \<noteq> IW_ERR" using next_fd_nonneg [of "proc d"] by simp
  moreover have "logged_on l (proc d) (p1\<lparr>logready := True\<rparr>)" using l by (auto simp: logged_on_def)
  ultimately show thesis using that g0 r by simp
qed

lemma prep_logged_on: "logged_on l (proc d) p \<Longrightarrow> prep d (d\<lparr>proc := p\<rparr>)"
  by (auto simp: logged_on_def prep_def same_files_def same_env_def)

lemma can_say_daemonized:
  assumes d: "daemonize fd d = Inr (Some IW_OK, d')" and l: "alog (proc d) = Log l" "logready (proc d)" "log_ok (proc d)"
    and t: "\<forall>t. is_cstring (stamp d t) \<and> length (stamp d t) \<le> 21"
  shows "can_say d' \<and> logready (proc d')"
proof -
  obtain p where p: "only_said p (proc d')" "alog p = Log l" "logready p" "errtext p = errtext (proc d)" and pr: "prep d d'"
    using daemonize_prep [OF d] l by auto
  have "log_ok p" using p(2,4) l by (simp add: log_ok_def)
  then have "log_ok (proc d')" using only_said_log_ok [OF p(1)] by blast
  moreover have "stamp d' = stamp d" using pr by (simp add: prep_def)
  ultimately show ?thesis using t p unfolding can_say_def only_said_def by (auto simp: log_ok_def)
qed

lemma main_daemon_Serve:
  assumes "main_daemon svc ifs d = Inr (Serve tf, d')"
  shows "\<exists>user. sc_user svc = Some user \<and> secured d user (canon (env d) (canon (env d) (store_dir svc))) d' \<and> uid d = 0 \<and>
    net_step (env d) (env d' \<lparr>canon := canon (env d)\<rparr>) \<and> actions d' = actions d \<and> leader d' \<and> follows_child d \<and>
    (std_fds (proc d) \<and> next_fd (proc d) < IW_FD_MAX \<longrightarrow> log_open (proc d')) \<and>
    (can_say d \<longrightarrow> can_say d' \<and> logready (proc d')) \<and> seshead tf = None \<and> sheap tf = (\<lambda>_. None) \<and> length (svsocks tf) = SVSOCKS_MAX \<and> dhead (tads tf) = None \<and> dspath (tads tf) = [SLASH]"
proof -
  obtain l p where lp: "logged_on l (proc d) p" "main_detach (next_fd (proc d)) svc ifs (d\<lparr>proc := p\<rparr>) = Inr (Serve tf, d')"
    using main_daemon_detach [OF assms] .
  obtain d2 where z: "daemonize (next_fd (proc d)) (d\<lparr>proc := p\<rparr>) = Inr (Some IW_OK, d2)" "main_modules svc ifs d2 = Inr (Serve tf, d')"
    using main_detach_Serve [OF lp(2)] .
  note lo = logged_on_open [OF lp(1)] and dp = daemonize_prep [OF z(1)]
  have pr: "prep d d2" using prep_logged_on [OF lp(1)] dp prep_trans by blast
  have lop: "log_open (proc d2)" if "std_fds (proc d)" "next_fd (proc d) < IW_FD_MAX"
    by (rule daemonize_log [OF z(1), where l = l]) (use lo that in simp_all)
  have cs: "can_say d2 \<and> logready (proc d2)" if c: "can_say d"
    by (rule can_say_daemonized [OF z(1), of l]) (use c lo lp(1) in \<open>simp_all add: can_say_def log_ok_def logged_on_def\<close>)
  have fs: "fsys (env d2) = fsys (env d)" "canon (env d2) = canon (env d)" "uid d2 = uid d"
    "passwd d2 = passwd d" "groupdb d2 = groupdb d" "resolve d2 = resolve d"
    using pr by (simp_all add: prep_def same_files_def same_env_def)
  have sec: "secured d2 user root d' = secured d user root d'" for user root
    by (simp add: secured_def fs)
  have ns: "net_step (env d) w" if "net_step (env d2) w" for w
    using that pr net_step_trans unfolding prep_def net_step_def by blast
  show ?thesis
    using main_modules_Serve [OF z(2)] ns lop cs dp unfolding sec fs by auto
qed

end
