(* ===== verification/Daemon_Start.thy ===== *)
theory Daemon_Start
  imports Daemon_Props Tftp_Transfer
begin

text \<open>
  \<open>main\<close> up to the call of the service: the state in which it starts the service, and every way it
  can go when no call fails.
\<close>

section \<open>The start of the service\<close>

lemma set_svconf_OK:
  assumes "set_svconf blank_conf cl d = Inr (r, c, d1)" and "r \<noteq> IW_ERR" and "r \<noteq> int (statcode ''I_SHOW_VER'')"
  shows "r = IW_OK \<and> d1 = d \<and> conf_of (cl_opts cl) = Some c"
proof -
  have b: "r = IW_ERR" if "bad_option x y z e d = Inr (r, c, d1)" for x y z e
    using that by (auto simp: bad_option_def ebind_Inr_iff)
  show ?thesis
  proof (cases "cl_bad cl")
    case None
    show ?thesis
    proof (cases "cl_leftover cl")
      case None
      with assms \<open>cl_bad cl = None\<close> b show ?thesis
        by (auto simp: set_svconf_eq split: if_splits option.splits)
    qed (use assms \<open>cl_bad cl = None\<close> b in \<open>auto simp: set_svconf_def Let_def\<close>)
  qed (use assms b in \<open>auto simp: set_svconf_def Let_def split: prod.splits\<close>)
qed

lemma create_svconf_OK:
  "create_svconf d = Inr (Some c, d') \<Longrightarrow> c = blank_conf \<and> d' = upd_world ((env d)\<lparr>tick := Suc (tick (env d))\<rparr>) d"
  by (auto simp: create_svconf_def os_call_eq Let_def ebind_Inr_iff blank_conf_def split: if_splits)

lemma init_signal_result: "init_signal sl n h d = Inr (r, d') \<Longrightarrow> r = IW_OK \<or> r = IW_ERR"
  by (induction n arbitrary: d)
    (auto simp: os_call_eq Let_def ebind_Inr_iff dest: fail_IW_ERR split: if_splits)

text \<open>The two lists of signals are handled one after the other.\<close>

definition handled :: "daemon \<Rightarrow> daemon \<Rightarrow> bool" where
  "handled d d' \<longleftrightarrow> prep d d' \<and>
    (\<forall>s. actions d' s = (if s \<in> set ign_signals then SIG_IGN else if s \<in> set signals then Sig_handler else actions d s)) \<and>
    alog (proc d') = alog (proc d) \<and> fds (proc d') = fds (proc d) \<and> errtext (proc d') = errtext (proc d) \<and>
    logready (proc d') = logready (proc d)"

lemma main_signals_Serve:
  assumes "main_signals c ifs d = Inr (Serve tf, d')"
  obtains d1 where "handled d d1" "main_daemon c ifs d1 = Inr (Serve tf, d')"
proof -
  obtain r1 e1 where e1: "init_signal signals (length signals) Sig_handler d = Inr (r1, e1)"
    "(if r1 = IW_ERR then ferr ''E_FAIL_INIT_SIGNAL'' [] EX_OSERR None None e1
      else ebind (init_signal ign_signals (length ign_signals) SIG_IGN e1) (\<lambda>(r, d).
        if r = IW_ERR then ferr ''E_FAIL_INIT_SIGNAL'' [] EX_OSERR None None d
        else main_daemon c ifs d)) = Inr (Serve tf, d')"
    using assms unfolding main_signals_def by (elim ebind_pairE)
  then have r1: "r1 = IW_OK" using init_signal_result [OF e1(1)] by auto
  with e1 have "ebind (init_signal ign_signals (length ign_signals) SIG_IGN e1) (\<lambda>(r, d).
        if r = IW_ERR then ferr ''E_FAIL_INIT_SIGNAL'' [] EX_OSERR None None d
        else main_daemon c ifs d) = Inr (Serve tf, d')" by simp
  then obtain r2 e2 where e2: "init_signal ign_signals (length ign_signals) SIG_IGN e1 = Inr (r2, e2)"
    "(if r2 = IW_ERR then ferr ''E_FAIL_INIT_SIGNAL'' [] EX_OSERR None None e2
        else main_daemon c ifs e2) = Inr (Serve tf, d')"
    by (elim ebind_pairE)
  then have r2: "r2 = IW_OK" using init_signal_result [OF e2(1)] by auto
  note p = init_signal_prep [OF e1(1) [unfolded r1]] init_signal_prep [OF e2(1) [unfolded r2]]
  have "prep d e2" using p prep_trans by blast
  then have "handled d e2" using p by (simp add: handled_def)
  with that e2(2) r2 show thesis by simp
qed

lemma main_start_Serve:
  assumes "main_start cl ifs d = Inr (Serve tf, d')"
  obtains c d1 where "conf_of (cl_opts cl) = Some c" "handled d d1" "main_daemon c ifs d1 = Inr (Serve tf, d')"
proof -
  obtain svc d0 where c: "create_svconf d = Inr (svc, d0)"
    and m: "(case svc of None \<Rightarrow> ferr ''EV_FAIL_CREATE_SVCONF'' [] EX_SOFTWARE None None d0
     | Some svc \<Rightarrow> ebind (set_svconf svc cl d0) (\<lambda>(r, svc, d). main_checked r svc ifs d)) = Inr (Serve tf, d')"
    using assms unfolding main_start_def by (elim ebind_pairE)
  obtain sv where sv: "svc = Some sv" using m by (cases svc) auto
  note cs = create_svconf_OK [OF c [unfolded sv]]
  from m [unfolded sv option.case] obtain x where x: "set_svconf sv cl d0 = Inr x"
    and n: "(case x of (r, svc, d) \<Rightarrow> main_checked r svc ifs d) = Inr (Serve tf, d')"
    by (elim ebind_InrE)
  obtain r c1 d1 where x': "x = (r, c1, d1)" by (cases x)
  have r: "r \<noteq> int (statcode ''I_SHOW_VER'')" "r \<noteq> IW_ERR" "main_signals c1 ifs d1 = Inr (Serve tf, d')"
    using n [unfolded x' prod.case] by (auto simp: main_checked_def split: if_splits)
  have s: "d1 = d0" "conf_of (cl_opts cl) = Some c1"
    using set_svconf_OK [of cl d0 r c1 d1] x x' cs r by simp_all
  obtain d2 where d2: "handled d0 d2" "main_daemon c1 ifs d2 = Inr (Serve tf, d')"
    using main_signals_Serve [OF r(3) [unfolded s(1)]] .
  have "prep d d0" "proc d0 = (proc d)\<lparr>os := (env d)\<lparr>tick := Suc (tick (env d))\<rparr>\<rparr>" "actions d0 = actions d"
    using cs prep_tick by (simp_all add: upd_world_def)
  then have "handled d d2" using d2(1) prep_trans by (auto simp: handled_def)
  with that d2(2) s(2) show thesis by blast
qed

lemma main_start_secured:
  assumes "main_start cl ifs d = Inr (Serve tf, d')"
  obtains c user where "conf_of (cl_opts cl) = Some c" "sc_user c = Some user" "uid d = 0"
    "secured d user (canon (env d) (canon (env d) (store_dir c))) d'" "leader d'" "dspath (tads tf) = [SLASH]"
    "dhead (tads tf) = None" "seshead tf = None" "sheap tf = (\<lambda>_. None)" "length (svsocks tf) = SVSOCKS_MAX"
    "net_step (env d) ((env d')\<lparr>canon := canon (env d)\<rparr>)"
    "\<forall>s. actions d' s = (if s \<in> set ign_signals then SIG_IGN else if s \<in> set signals then Sig_handler else actions d s)"
    "std_fds (proc d) \<and> next_fd (proc d) < IW_FD_MAX \<longrightarrow> log_open (proc d')"
    "can_say d \<longrightarrow> can_say d' \<and> logready (proc d')"
proof -
  obtain c d1 where c: "conf_of (cl_opts cl) = Some c" "handled d d1" "main_daemon c ifs d1 = Inr (Serve tf, d')"
    using main_start_Serve [OF assms] .
  obtain user where u: "sc_user c = Some user" "secured d1 user (canon (env d1) (canon (env d1) (store_dir c))) d'"
      "uid d1 = 0" "net_step (env d1) ((env d')\<lparr>canon := canon (env d1)\<rparr>)" "actions d' = actions d1" "leader d'"
      "std_fds (proc d1) \<and> next_fd (proc d1) < IW_FD_MAX \<longrightarrow> log_open (proc d')"
      "can_say d1 \<longrightarrow> can_say d' \<and> logready (proc d')"
      "seshead tf = None" "sheap tf = (\<lambda>_. None)" "length (svsocks tf) = SVSOCKS_MAX" "dhead (tads tf) = None" "dspath (tads tf) = [SLASH]"
    using main_daemon_Serve [OF c(3)] by blast
  have e: "canon (env d1) = canon (env d)" "fsys (env d1) = fsys (env d)" "uid d1 = uid d"
    "passwd d1 = passwd d" "groupdb d1 = groupdb d" "resolve d1 = resolve d"
    using c(2) by (simp_all add: handled_def prep_def same_files_def same_env_def)
  have f: "std_fds (proc d1) = std_fds (proc d)" "next_fd (proc d1) = next_fd (proc d)"
    using c(2) by (simp_all add: handled_def std_fds_def next_fd_def)
  have "net_step (env d) (env d1)" using c(2) by (simp add: handled_def prep_def net_step_def)
  then have "net_step (env d) ((env d')\<lparr>canon := canon (env d)\<rparr>)" using u(4) e net_step_trans by metis
  moreover have "can_say d1 \<longleftrightarrow> can_say d"
    using c(2) by (simp add: handled_def can_say_def prep_def log_ok_def split: logptr.split)
  moreover have "\<forall>s. actions d' s = (if s \<in> set ign_signals then SIG_IGN else if s \<in> set signals then Sig_handler else actions d s)"
    using c(2) u(5) by (simp add: handled_def)
  ultimately show thesis using that [of c user] u c(1) e f by (simp add: secured_def)
qed

lemma main_start_svc:
  assumes "main_start cl ifs d = Inr (Serve tf, d')" and "distinct (map fst (socks (env d)))"
    and "length rbuf = NWBUF_SIZE" and "length mbuf = TFTP_MSGLEN_MAX"
  shows "svc_start \<lparr>v_ins = tf, v_rbuf = rbuf, v_si = \<lparr>si_ses = None, si_msgbuf = mbuf, si_msglen = None\<rparr>,
      v_world = env d'\<rparr>"
proof -
  have m: "dspath (tads tf) = [SLASH]" "dhead (tads tf) = None" "seshead tf = None" "sheap tf = (\<lambda>_. None)"
    "net_step (env d) ((env d')\<lparr>canon := canon (env d)\<rparr>)"
    using main_start_secured [OF assms(1)] by blast+
  have "ds_ok (tads tf) (env d') []"
    using m(1,2) by (simp add: ds_ok_def tab_ok_def dtab_def keys_of_def is_cstring_def)
  moreover have "distinct (map fst (socks (env d')))" using m(5) assms(2) by (simp add: net_step_def)
  ultimately show ?thesis using m(2,3,4) assms(3,4) by (auto simp: svc_start_def)
qed

section \<open>How \<open>main\<close> goes without failing calls\<close>

lemma say_ok:
  assumes f: "fits iwtftpd_status (statcode nm) args t" and c: "can_say d"
  shows "\<exists>d'. say nm args d = Inr d' \<and> said d d'"
proof -
  have m: "iwtftpd_status \<in> client_modules" by simp
  have "\<exists>p'. mod_pmsg iwtftpd_status (statcode nm) args (stamp d (tick (env d))) (proc d) = Inr p'"
  proof (cases "alog (proc d) = No_log \<and> \<not> logready (proc d)")
    case True
    then show ?thesis using mod_pmsg_unready [OF m f, of "proc d"] by blast
  next
    case False
    then obtain l where "alog (proc d) = Log l" "logready (proc d)" "log_ok (proc d)"
      using c by (auto simp: can_say_def)
    with mod_pmsg_ready [OF m f] c show ?thesis unfolding can_say_def by blast
  qed
  then have "\<exists>d'. say nm args d = Inr d'" by (auto simp: say_def main_pmsg_def)
  then show ?thesis using say_said by blast
qed

lemma ferr_ok:
  "\<lbrakk>fits iwtftpd_status (statcode nm) args t; can_say d\<rbrakk> \<Longrightarrow> \<exists>d'. ferr nm args x tf ds d = Inr (Ferr x tf ds, d')"
  using say_ok by (fastforce simp: ferr_def)

lemma main_fits:
  "fits iwtftpd_status (statcode ''I_NOASROOT'') [] ''info: must be run as root''"
  "fits iwtftpd_status (statcode ''E_DS_FAIL_INIT'') [] ''error: iwds initialization failed''"
  "fits iwtftpd_status (statcode ''I_START_SERVER'') [] ''info: starting server''"
  unfolding fits_def by code_simp+

lemma main_fits_args:
  "is_cstring user \<Longrightarrow> \<exists>t. fits iwtftpd_status (statcode ''E_USER_UNKNOWN'') [Str user] t"
  "is_cstring a \<Longrightarrow> is_cstring b \<Longrightarrow> \<exists>t. fits iwtftpd_status (statcode ''E_OPTION_BAD'') [Str a, Str b] t"
proof -
  have f: "find_status iwtftpd_statmsgs 14 = Inr (14, ''error: unknown user '%s'' @ [APOS])"
    "find_status iwtftpd_statmsgs 12 = Inr (12, ''error: bad option: '%s': %s'')"
    "statcode ''E_USER_UNKNOWN'' = 14" "statcode ''E_OPTION_BAD'' = 12" by code_simp+
  show "is_cstring user \<Longrightarrow> \<exists>t. fits iwtftpd_status (statcode ''E_USER_UNKNOWN'') [Str user] t"
    by (simp add: fits_def f iwtftpd_status_def)
  show "is_cstring a \<Longrightarrow> is_cstring b \<Longrightarrow> \<exists>t. fits iwtftpd_status (statcode ''E_OPTION_BAD'') [Str a, Str b] t"
    by (simp add: fits_def f iwtftpd_status_def)
qed

lemma os_call_free: "fault_free (env d) \<Longrightarrow> os_call d = (True, upd_world ((env d)\<lparr>tick := Suc (tick (env d))\<rparr>) d)"
  by (simp add: os_call_eq fault_free_0)

lemma env_upd [simp]: "env (upd_world w d) = w"
  by (simp add: upd_world_def)

lemma init_signal_free:
  "\<lbrakk>fault_free (env d); n \<le> length sl\<rbrakk> \<Longrightarrow> \<exists>d'. init_signal sl n h d = Inr (IW_OK, d') \<and> fault_free (env d') \<and>
     proc d' = (proc d)\<lparr>os := env d'\<rparr> \<and> stamp d' = stamp d \<and> follows_child d' = follows_child d \<and> uid d' = uid d"
proof (induction n arbitrary: d)
  case (Suc n)
  let ?d1 = "(upd_world ((env d)\<lparr>tick := Suc (Suc (tick (env d)))\<rparr>) d)\<lparr>actions := (actions d)(sl ! n := h)\<rparr>"
  have "init_signal sl (Suc n) h d = init_signal sl n h ?d1"
    using Suc.prems fault_free_0 [of "env d"] by (simp add: os_call_eq upd_world_def)
  moreover have "fault_free (env ?d1)" using Suc.prems by (simp add: upd_world_def)
  ultimately show ?case using Suc.IH [of ?d1] Suc.prems by (auto simp: upd_world_def)
qed auto

lemma iwtftp_init_free:
  assumes ff: "fault_free w" and v: "ipver \<in> {1, 2, 3}"
  shows "\<exists>tf w'. iwtftp_init ipver None ifs pds w = Inr (Some tf, w')"
proof -
  have o: "\<exists>fd w'. open_server fam ip svs w = Inr (svs[free_slot svs := fd], w') \<and> 0 \<le> fd \<and> fault_free w'"
    if ff: "fault_free w" and l: "free_slot svs < length svs" for fam ip svs w
  proof -
    obtain fd w' where c: "create_socket fam ip (Some TFTP_PORT) w = Inr (fd, w')" "0 \<le> fd"
      using create_socket_ok [OF ff] by blast
    then have "fault_free w'" using create_socket_net [OF c(1)] ff by (auto intro: same_env_fault_free)
    with c l show ?thesis by (intro exI [of _ fd] exI [of _ w']) (simp add: open_server_def Let_def)
  qed
  let ?sv = "replicate SVSOCKS_MAX (-1) :: int list" and ?w = "w\<lparr>tick := Suc (tick w)\<rparr>"
  have f1: "fault_free ?w" using ff by simp
  have s0: "free_slot ?sv = 0" "free_slot [fd, -1] = 1" if "0 \<le> fd" for fd :: int using that by (simp_all add: numeral_2_eq_2)
  have w: "wants 1 IW_IPV4" "\<not> wants 1 IW_IPV6" "\<not> wants 2 IW_IPV4" "wants 2 IW_IPV6" "wants 3 IW_IPV4" "wants 3 IW_IPV6"
    by (simp_all add: wants_def IW_IPV4_def IW_IPV6_def)
  obtain fd w1 where o1: "open_server AF_INET ''ANY'' ?sv ?w = Inr (?sv[0 := fd], w1)" "0 \<le> fd" "fault_free w1"
    using o [OF f1, of ?sv AF_INET "''ANY''"] by (auto simp: numeral_2_eq_2)
  obtain fd' w2 where o2: "open_server AF_INET6 ''ANY'' [fd, -1] w1 = Inr ([fd, fd'], w2)" "0 \<le> fd'"
    using o [OF o1(3), of "[fd, -1]" AF_INET6 "''ANY''"] o1(2) by auto
  obtain fd'' w3 where o3: "open_server AF_INET6 ''ANY'' ?sv ?w = Inr (?sv[0 := fd''], w3)" "0 \<le> fd''"
    using o [OF f1, of ?sv AF_INET6 "''ANY''"] by (auto simp: numeral_2_eq_2)
  note ini = iwtftp_init_def sys_malloc_def draw_def fault_free_0 [OF ff]
  from v consider "ipver = 1" | "ipver = 2" | "ipver = 3" by auto
  then show ?thesis
  proof cases
    case 1
    with w o1 show ?thesis by (auto simp: ini numeral_2_eq_2)
  next
    case 2
    with w o3 show ?thesis by (auto simp: ini numeral_2_eq_2)
  next
    case 3
    with w o1 o2 show ?thesis by (auto simp: ini numeral_2_eq_2)
  qed
qed

lemma main_secure_free:
  assumes ff: "fault_free (env d)" and c: "can_say d" and u: "sc_user svc = Some user" "is_cstring user" "uid d = 0"
    and dir: "fsys (env d) (canon (env d) (dspath ds)) = Some Directory" "dspath ds \<noteq> []"
  shows "\<exists>d'. if passwd d user = None
    then main_secure svc ds tf d = Inr (Ferr EX_OSERR (Some tf) (Some ds), d')
    else \<exists>tf'. main_secure svc ds tf d = Inr (Serve tf', d')"
proof -
  let ?d = "upd_world ((env d)\<lparr>tick := Suc (tick (env d))\<rparr>) d"
  have d0: "passwd ?d = passwd d" "uid ?d = 0" "can_say ?d" "fault_free (env ?d)" "resolve ?d = resolve d"
    using c u(3) ff by (simp_all, simp_all add: upd_world_def)
  show ?thesis
  proof (cases "passwd d user")
    case None
    obtain t where "fits iwtftpd_status (statcode ''E_USER_UNKNOWN'') [Str user] t" using main_fits_args(1) [OF u(2)] by blast
    from ferr_ok [OF this d0(3)] None show ?thesis
      by (simp add: main_secure_def u(1) os_call_free [OF ff] d0)
  next
    case (Some ug)
    obtain uu gg where ug: "ug = (uu, gg)" by (cases ug)
    let ?q = "canon (env d) (dspath ds)"
    obtain d1 where e: "exec_chroot (dspath ds) ?d = Inr (IW_OK, d1)" "can_say d1" "uid d1 = 0" "fault_free (env d1)"
    proof -
      let ?d1 = "?d\<lparr>rootdir := ?q, proc := (proc ?d)\<lparr>os := (env ?d)\<lparr>canon := resolve d ?q, tick := Suc (Suc (tick (env ?d)))\<rparr>\<rparr>, cwd := ?q\<rparr>"
      have "exec_chroot (dspath ds) ?d = Inr (IW_OK, ?d1)"
        using dir(1) u(3) fault_free_0 [OF ff]
        by (simp add: exec_chroot_def root_call_def os_call_eq Let_def) (simp add: upd_world_def)
      moreover have "can_say ?d1" using c by (simp add: can_say_def upd_world_def)
      moreover have "fault_free (env ?d1)" using ff by (simp add: fault_free_def)
      ultimately show thesis using that u(3) by (simp add: upd_world_def)
    qed
    obtain d2 where f: "set_credential user uu gg d1 = Inr (IW_OK, d2)" "can_say d2"
    proof -
      let ?d2 = "d1\<lparr>gid := gg, groups := gg # groupdb d1 (rootdir d1) user,
        proc := (proc d1)\<lparr>os := (env d1)\<lparr>tick := Suc (Suc (Suc (tick (env d1))))\<rparr>\<rparr>, uid := uu\<rparr>"
      have "set_credential user uu gg d1 = Inr (IW_OK, ?d2)"
        using e(3) fault_free_0 [OF e(4)]
        by (simp add: set_credential_def root_call_def os_call_eq Let_def) (simp add: upd_world_def)
      moreover have "can_say ?d2" using e(2) by (simp add: can_say_def)
      ultimately show thesis using that by blast
    qed
    obtain d3 where "say ''I_START_SERVER'' [] d2 = Inr d3" using say_ok [OF main_fits(3) f(2)] by blast
    then have "main_secure svc ds tf d = Inr (Serve (tf\<lparr>tads := ds\<lparr>fchroot := True, dspath := [SLASH]\<rparr>\<rparr>), d3)"
      using e(1) f(1) dir(2) Some ug by (simp add: main_secure_def main_confine_def u(1) os_call_free [OF ff] d0 iwds_get_dspath_def iwds_set_chroot_def)
    with Some show ?thesis by auto
  qed
qed

lemma main_modules_free:
  assumes ff: "fault_free (env d)" and c: "can_say d" and u: "sc_user svc = Some user" "is_cstring user" "uid d = 0"
    and v: "unat (sc_ipver svc) \<in> {1, 2, 3}" "sc_ifname svc = None"
    and cn: "\<forall>p. canon (env d) p \<noteq> [] \<and> canon (env d) (canon (env d) p) = canon (env d) p"
  shows "\<exists>d'. if fsys (env d) (canon (env d) (store_dir svc)) \<noteq> Some Directory
    then main_modules svc ifs d = Inr (Ferr EX_SOFTWARE None None, d')
    else if passwd d user = None
    then \<exists>tf ds. main_modules svc ifs d = Inr (Ferr EX_OSERR (Some tf) (Some ds), d')
    else \<exists>tf. main_modules svc ifs d = Inr (Serve tf, d')"
proof -
  let ?w = "(env d)\<lparr>tick := Suc (tick (env d))\<rparr>" and ?q = "canon (env d) (store_dir svc)"
  have dd: "(case sc_datastore svc of None \<Rightarrow> DEFAULT_DATASTORE | Some x \<Rightarrow> x) = store_dir svc" by (simp add: store_dir_def)
  show ?thesis
  proof (cases "fsys (env d) ?q = Some Directory")
    case False
    have "iwds_init (sc_datastore svc) (env d) = (None, ?w)"
      using False cn fault_free_0 [OF ff]
      by (auto simp: iwds_init_def dd sys_call_def draw_def Let_def sys_stat_def is_dspath_def split: option.split fnode.split)
    moreover have "can_say (upd_world ?w d)" using c by simp
    ultimately show ?thesis using False ferr_ok [OF main_fits(2), of "upd_world ?w d"] by (simp add: main_modules_def)
  next
    case True
    let ?ds = "\<lparr>dhead = None, dheap = (\<lambda>_. None), dbrk = 0, dspath = ?q, fchroot = False\<rparr>"
    let ?w2 = "?w\<lparr>tick := Suc (Suc (tick (env d)))\<rparr>"
    have i: "iwds_init (sc_datastore svc) (env d) = (Some ?ds, ?w2)"
      using True cn fault_free_0 [OF ff]
      by (simp add: iwds_init_def dd sys_call_def sys_malloc_def draw_def Let_def sys_stat_def is_dspath_def)
    have "fault_free ?w2" using ff by simp
    from iwtftp_init_free [OF this v(1)] obtain tf w3 where
      t: "iwtftp_init (unat (sc_ipver svc)) None ifs ?ds ?w2 = Inr (Some tf, w3)" by blast
    have n: "net_step ?w2 w3" using iwtftp_init_ok [OF t] by blast
    let ?d = "upd_world w3 (upd_world ?w2 d)"
    have "main_modules svc ifs d = main_secure svc ?ds tf ?d"
      using t by (simp add: main_modules_def i v(2))
    moreover have "fault_free (env ?d)" using n ff by (auto simp: net_step_def same_env_def fault_free_def)
    moreover have "can_say ?d" "uid ?d = 0" "passwd ?d = passwd d" using c u(3) by (simp_all, simp_all add: upd_world_def)
    moreover have "fsys (env ?d) (canon (env ?d) (dspath ?ds)) = Some Directory" "dspath ?ds \<noteq> []"
      using n True cn by (simp_all add: net_step_def same_env_def same_files_def)
    ultimately show ?thesis using main_secure_free [of ?d svc user ?ds tf] u True by (auto split: if_splits)
  qed
qed

lemma iwlog_init_free:
  assumes "fault_free (os p)"
  shows "\<exists>l t. iwlog_init v p = Inr (IW_OK, p\<lparr>fds := (next_fd p, Log_file) # fds p, os := (os p)\<lparr>tick := t\<rparr>, alog := Log l\<rparr>) \<and>
    lg_fd l = next_fd p \<and> length (lg_msgbuf l) = LOGMSGBUF_SIZE"
  using fault_free_0 [OF assms] next_fd_nonneg [of p]
  unfolding iwlog_init_def sys_open_def proc_call_simps next_fd_def [symmetric]
  by (auto simp: Let_def)

lemma main_daemon_free:
  assumes ff: "fault_free (env d)" and c: "can_say d" "alog (proc d) = No_log" and u: "sc_user svc = Some user" "is_cstring user" "uid d = 0"
    and v: "unat (sc_ipver svc) \<in> {1, 2, 3}" "sc_ifname svc = None"
    and cn: "\<forall>p. canon (env d) p \<noteq> [] \<and> canon (env d) (canon (env d) p) = canon (env d) p"
  shows "\<exists>d'. if \<not> follows_child d then main_daemon svc ifs d = Inr (Parent, d')
    else if fsys (env d) (canon (env d) (store_dir svc)) \<noteq> Some Directory
    then main_daemon svc ifs d = Inr (Ferr EX_SOFTWARE None None, d')
    else if passwd d user = None
    then \<exists>tf ds. main_daemon svc ifs d = Inr (Ferr EX_OSERR (Some tf) (Some ds), d')
    else \<exists>tf. main_daemon svc ifs d = Inr (Serve tf, d')"
proof -
  obtain l t where l: "iwlog_init (sc_verbose svc) (proc d) =
      Inr (IW_OK, (proc d)\<lparr>fds := (next_fd (proc d), Log_file) # fds (proc d), os := (env d)\<lparr>tick := t\<rparr>, alog := Log l\<rparr>)"
      "lg_fd l = next_fd (proc d)" "length (lg_msgbuf l) = LOGMSGBUF_SIZE"
    using iwlog_init_free [OF ff] by blast
  let ?p = "(proc d)\<lparr>fds := (next_fd (proc d), Log_file) # fds (proc d), os := (env d)\<lparr>tick := t\<rparr>, alog := Log l, logready := True\<rparr>"
  let ?d = "d\<lparr>proc := ?p\<rparr>"
  have "next_fd (proc d) \<noteq> IW_ERR" using next_fd_nonneg [of "proc d"] by simp
  then have e: "main_daemon svc ifs d = main_detach (next_fd (proc d)) svc ifs ?d"
    using l by (simp add: main_daemon_def iwlog_getfd_def)
  have f1: "fault_free (env ?d)" using ff by simp
  show ?thesis
  proof (cases "follows_child d")
    case False
    with f1 have "daemonize (next_fd (proc d)) ?d = Inr (None, upd_world ((env ?d)\<lparr>tick := Suc (tick (env ?d))\<rparr>) ?d)"
      using os_call_free [OF f1] by (simp add: daemonize_def upd_world_def)
    with e False show ?thesis by (simp add: main_detach_def)
  next
    case True
    then have "follows_child ?d" by simp
    from daemonize_free [OF f1 this] obtain d2 where d2: "daemonize (next_fd (proc d)) ?d = Inr (Some IW_OK, d2)" by blast
    have pr: "prep ?d d2" using daemonize_prep [OF d2] by blast
    have "can_say d2 \<and> logready (proc d2)"
      by (rule can_say_daemonized [OF d2, of l]) (use l(3) c(1) in \<open>simp_all add: can_say_def log_ok_def\<close>)
    then have cs: "can_say d2" by blast
    have k: "fault_free (env d2)" "canon (env d2) = canon (env d)" "fsys (env d2) = fsys (env d)" "uid d2 = 0" "passwd d2 = passwd d"
      using pr ff u(3) by (simp_all add: prep_def same_env_def same_files_def fault_free_def)
    note free = main_modules_free [OF k(1) cs u(1,2) k(4) v, unfolded k, OF cn, of ifs]
    have m: "main_daemon svc ifs d = main_modules svc ifs d2" using e d2 by (simp add: main_detach_def)
    have f: "(\<not> follows_child d) = False" using True by simp
    show ?thesis unfolding m f if_False by (rule free)
  qed
qed

lemma bad_option_ok:
  assumes "is_cstring what" and "is_cstring why" and "can_say d"
  shows "\<exists>d'. bad_option what why usage c d = Inr (IW_ERR, c, d')"
proof -
  obtain t where "fits iwtftpd_status (statcode ''E_OPTION_BAD'') [Str what, Str why] t"
    using main_fits_args(2) [OF assms(1,2)] by blast
  from say_ok [OF this assms(3)] show ?thesis by (auto simp: bad_option_def)
qed

lemma last_arg_mem: "last_arg c xs x = Some y \<Longrightarrow> x = Some y \<or> (c, y) \<in> set xs"
  by (induction xs arbitrary: x) (fastforce split: if_splits)+

lemma last_arg_notNone: "last_arg c xs (Some x) \<noteq> None"
  by (induction xs arbitrary: x) auto

lemma conf_of_Some:
  assumes c: "conf_of xs = Some c" and x: "\<forall>x \<in> set xs. is_cstring (snd x) \<and> fst x \<noteq> CHR ''i''"
  obtains user where "sc_user c = Some user" "is_cstring user" "sc_ifname c = None" "unat (sc_ipver c) \<in> {1, 2, 3}"
proof -
  have u: "sc_user c = last_arg CHR ''u'' xs (Some DEFAULT_USER)" "sc_ifname c = last_arg CHR ''i'' xs None"
    "sc_ipver c \<in> {1, 2, 3}"
    using c by (auto simp: conf_of_def Let_def split: if_splits)
  obtain user where user: "sc_user c = Some user" using u(1) last_arg_notNone [of "CHR ''u''" xs DEFAULT_USER] by (cases "sc_user c") auto
  have "is_cstring user" using last_arg_mem [of "CHR ''u''" xs "Some DEFAULT_USER" user] u(1) user x
    by (auto simp: DEFAULT_USER_def is_cstring_def)
  moreover have "sc_ifname c = None"
  proof (cases "sc_ifname c")
    case (Some a)
    then have "(CHR ''i'', a) \<in> set xs" using last_arg_mem [of "CHR ''i''" xs None a] u(2) by auto
    with x show ?thesis by fastforce
  qed
  ultimately show thesis using that user u(3) by auto
qed

lemma main_signals_free:
  assumes "fault_free (env d)"
  obtains d' where "main_signals c ifs d = main_daemon c ifs d'" "handled d d'" "follows_child d' = follows_child d"
proof -
  obtain d1 where d1: "init_signal signals (length signals) Sig_handler d = Inr (IW_OK, d1)" "fault_free (env d1)"
      "proc d1 = (proc d)\<lparr>os := env d1\<rparr>" "follows_child d1 = follows_child d"
    using init_signal_free [OF assms order_refl] by blast
  obtain d2 where d2: "init_signal ign_signals (length ign_signals) SIG_IGN d1 = Inr (IW_OK, d2)"
      "proc d2 = (proc d1)\<lparr>os := env d2\<rparr>" "follows_child d2 = follows_child d1"
    using init_signal_free [OF d1(2) order_refl] by blast
  note p = init_signal_prep [OF d1(1)] init_signal_prep [OF d2(1)]
  have "prep d d2" using p prep_trans by blast
  then have "handled d d2" using p by (simp add: handled_def)
  with that [of d2] d1(1,4) d2(1,3) show thesis by (simp add: main_signals_def)
qed

text \<open>A command line with an error ends in \<open>set_svconf\<close>.\<close>

lemma set_svconf_bad:
  assumes "cl_bad cl \<noteq> None \<or> cl_leftover cl \<noteq> None \<or> CHR ''V'' \<notin> fst ` set (cl_opts cl) \<and> conf_of (cl_opts cl) = None"
    and "can_say d"
    and "\<forall>a b. cl_bad cl = Some (a, b) \<longrightarrow> is_cstring a \<and> is_cstring b" and "\<forall>a. cl_leftover cl = Some a \<longrightarrow> is_cstring a"
  shows "\<exists>c d'. set_svconf blank_conf cl d = Inr (IW_ERR, c, d')"
proof -
  have t: "is_cstring ''too arguments''" "is_cstring ''specify either -4 or -6''" "is_cstring ''''" by (simp_all add: is_cstring_def)
  have "\<exists>a b c. set_svconf blank_conf cl d = bad_option a b (cl_usage cl) c d \<and> is_cstring a \<and> is_cstring b"
  proof (cases "cl_bad cl")
    case None
    show ?thesis
    proof (cases "cl_leftover cl")
      case None
      with \<open>cl_bad cl = None\<close> assms(1) t(2,3) show ?thesis by (auto simp: set_svconf_eq)
    next
      case (Some a)
      with \<open>cl_bad cl = None\<close> assms(4) t(1) show ?thesis unfolding set_svconf_def Let_def by auto
    qed
  next
    case (Some ab)
    obtain a b where "ab = (a, b)" by (cases ab)
    with Some assms(3) show ?thesis unfolding set_svconf_def Let_def by auto
  qed
  with bad_option_ok [OF _ _ assms(2)] show ?thesis by metis
qed

text \<open>The right command line, in a process of root.\<close>

lemma main_signals_outcomes:
  assumes ff: "fault_free (env d)" and c: "can_say d" "alog (proc d) = No_log" and u: "sc_user svc = Some user" "is_cstring user" "uid d = 0"
    and v: "unat (sc_ipver svc) \<in> {1, 2, 3}" "sc_ifname svc = None"
    and cn: "\<forall>p. canon (env d) p \<noteq> [] \<and> canon (env d) (canon (env d) p) = canon (env d) p"
  shows "\<exists>d'. if \<not> follows_child d then main_signals svc ifs d = Inr (Parent, d')
    else if fsys (env d) (canon (env d) (store_dir svc)) \<noteq> Some Directory
    then main_signals svc ifs d = Inr (Ferr EX_SOFTWARE None None, d')
    else if passwd d user = None
    then \<exists>tf ds. main_signals svc ifs d = Inr (Ferr EX_OSERR (Some tf) (Some ds), d')
    else \<exists>tf. main_signals svc ifs d = Inr (Serve tf, d')"
proof -
  obtain d1 where d1: "main_signals svc ifs d = main_daemon svc ifs d1" "handled d d1" "follows_child d1 = follows_child d"
    using main_signals_free [OF ff] .
  have k: "canon (env d1) = canon (env d)" "fsys (env d1) = fsys (env d)" "uid d1 = 0" "passwd d1 = passwd d"
    "fault_free (env d1)" "alog (proc d1) = No_log"
    using d1(2) c(2) u(3) ff by (simp_all add: handled_def prep_def same_files_def same_env_def fault_free_def)
  have "can_say d1" using d1(2) c(1) by (simp add: handled_def can_say_def prep_def log_ok_def split: logptr.splits)
  from main_daemon_free [OF k(5) this k(6) u(1,2) k(3) v, unfolded k d1(3), OF cn, of ifs]
  show ?thesis unfolding d1(1) .
qed

lemma main_start_free:
  assumes ff: "fault_free (env d)" "alog (proc d) = No_log" "can_say d"
    and cn: "\<forall>p. canon (env d) p \<noteq> [] \<and> canon (env d) (canon (env d) p) = canon (env d) p"
    and o: "\<forall>x \<in> set (cl_opts cl). is_cstring (snd x) \<and> fst x \<noteq> CHR ''i''"
    and b: "\<forall>a b. cl_bad cl = Some (a, b) \<longrightarrow> is_cstring a \<and> is_cstring b" "\<forall>a. cl_leftover cl = Some a \<longrightarrow> is_cstring a"
  shows "\<exists>d'. if cl_bad cl \<noteq> None \<or> cl_leftover cl \<noteq> None then main_start cl ifs d = Inr (Ferr EX_USAGE None None, d')
    else if CHR ''V'' \<in> fst ` set (cl_opts cl) then main_start cl ifs d = Inr (Showver, d')
    else case conf_of (cl_opts cl) of
      None \<Rightarrow> main_start cl ifs d = Inr (Ferr EX_USAGE None None, d')
    | Some c \<Rightarrow>
        if uid d \<noteq> 0 then main_start cl ifs d = Inr (Ferr EX_USAGE None None, d')
        else if \<not> follows_child d then main_start cl ifs d = Inr (Parent, d')
        else if fsys (env d) (canon (env d) (store_dir c)) \<noteq> Some Directory
        then main_start cl ifs d = Inr (Ferr EX_SOFTWARE None None, d')
        else if passwd d (the (sc_user c)) = None
        then \<exists>tf ds. main_start cl ifs d = Inr (Ferr EX_OSERR (Some tf) (Some ds), d')
        else \<exists>tf. main_start cl ifs d = Inr (Serve tf, d')"
proof -
  let ?d = "upd_world ((env d)\<lparr>tick := Suc (tick (env d))\<rparr>) d"
  have e: "main_start cl ifs d = ebind (set_svconf blank_conf cl ?d) (\<lambda>(r, svc, d). main_checked r svc ifs d)"
    by (simp add: main_start_def create_svconf_def os_call_free [OF ff(1)] blank_conf_def)
  have k: "fault_free (env ?d)" "can_say ?d" "alog (proc ?d) = No_log" "uid ?d = uid d" "canon (env ?d) = canon (env d)"
    "fsys (env ?d) = fsys (env d)" "passwd ?d = passwd d" "follows_child ?d = follows_child d"
    using ff by (simp_all, simp_all add: upd_world_def)
  have ver: "int (statcode ''I_SHOW_VER'') = 18" by code_simp
  let ?bad = "cl_bad cl \<noteq> None \<or> cl_leftover cl \<noteq> None \<or> CHR ''V'' \<notin> fst ` set (cl_opts cl) \<and> conf_of (cl_opts cl) = None"
  consider (bad) ?bad | (ver) "\<not> ?bad" "CHR ''V'' \<in> fst ` set (cl_opts cl)"
    | (good) c where "\<not> ?bad" "CHR ''V'' \<notin> fst ` set (cl_opts cl)" "conf_of (cl_opts cl) = Some c" by (cases "conf_of (cl_opts cl)") blast+
  then show ?thesis
  proof cases
    case bad
    obtain c d' where "set_svconf blank_conf cl ?d = Inr (IW_ERR, c, d')" using set_svconf_bad [OF bad k(2) b] by blast
    then have "main_start cl ifs d = Inr (Ferr EX_USAGE None None, d')" by (simp add: e main_checked_def ver)
    with bad show ?thesis by auto
  next
    case ver
    then have n: "cl_bad cl = None" "cl_leftover cl = None" by blast+
    with ver(2) have "main_start cl ifs d = Inr (Showver, ?d)" by (simp add: e main_checked_def set_svconf_eq)
    with ver show ?thesis by auto
  next
    case good
    then have n: "cl_bad cl = None" "cl_leftover cl = None" by blast+
    with good(2,3) have g: "main_start cl ifs d = (if uid d \<noteq> 0 then ferr ''I_NOASROOT'' [] EX_USAGE None None ?d else main_signals c ifs ?d)"
      by (simp add: e main_checked_def set_svconf_eq ver k(4))
    obtain user where u: "sc_user c = Some user" "is_cstring user" "sc_ifname c = None" "unat (sc_ipver c) \<in> {1, 2, 3}"
      using conf_of_Some [OF good(3) o] by blast
    have f: "(cl_bad cl \<noteq> None \<or> cl_leftover cl \<noteq> None) = False" "(CHR ''V'' \<in> fst ` set (cl_opts cl)) = False" using good by auto
    show ?thesis
    proof (cases "uid d = 0")
      case False
      with ferr_ok [OF main_fits(1) k(2)] g good show ?thesis by auto
    next
      case True
      then have "main_start cl ifs d = main_signals c ifs ?d" "(uid d \<noteq> 0) = False" "uid ?d = 0" using g k(4) by simp_all
      note z = this
      from main_signals_outcomes [OF k(1-3) u(1,2) z(3) u(4,3), unfolded k(5-8), OF cn, of ifs]
      show ?thesis unfolding f if_False good(3) option.case z(1,2) u(1) option.sel .
    qed
  qed
qed

section \<open>A process that starts the service\<close>

definition no_options :: cmdline where
  "no_options = \<lparr>cl_opts = [], cl_bad = None, cl_leftover = None, cl_usage = ''usage''\<rparr>"

lemma boot_ready:
  "fault_free (env boot_daemon)" "alog (proc boot_daemon) = No_log" "can_say boot_daemon"
  "\<forall>p. canon (env boot_daemon) p \<noteq> [] \<and> canon (env boot_daemon) (canon (env boot_daemon) p) = canon (env boot_daemon) p"
  "distinct (map fst (socks (env boot_daemon)))" "std_fds (proc boot_daemon)" "next_fd (proc boot_daemon) = 3"
proof -
  show "fault_free (env boot_daemon)" "alog (proc boot_daemon) = No_log" "can_say boot_daemon"
    "\<forall>p. canon (env boot_daemon) p \<noteq> [] \<and> canon (env boot_daemon) (canon (env boot_daemon) p) = canon (env boot_daemon) p"
    "distinct (map fst (socks (env boot_daemon)))" "std_fds (proc boot_daemon)"
    by (simp_all add: boot_daemon_def boot_world_def start_process_def start_world_def fault_free_def can_say_def
        is_cstring_def std_fds_def)
  show "next_fd (proc boot_daemon) = 3" by code_simp
qed

lemma boot_serves: "\<exists>tf d'. main_start no_options ifs boot_daemon = Inr (Serve tf, d')"
proof -
  have c: "conf_of [] = Some \<lparr>sc_ipver = 3, sc_ifname = None, sc_datastore = None, sc_user = Some ''nobody'', sc_verbose = False\<rparr>"
    by (simp add: conf_of_def DEFAULT_USER_def)
  have b: "uid boot_daemon = 0" "follows_child boot_daemon" "passwd boot_daemon ''nobody'' = Some (99, 98)"
    "fsys (env boot_daemon) (canon (env boot_daemon) ''/tftpboot'') = Some Directory"
    by (simp_all add: boot_daemon_def boot_world_def)
  show ?thesis
    using main_start_free [OF boot_ready(1-4), of no_options ifs] b
    by (auto simp: no_options_def c store_dir_def DEFAULT_DATASTORE_def)
qed

section \<open>Properties of the start\<close>

text \<open>C6: \<open>main\<close> calls \<open>iwtftp_service\<close> only in a process that root started, that has become a
  session leader, whose root and working directory are the data store, that runs with the user, the
  group and the groups of the configured user (\<open>nobody\<close> by default), that resolves paths
  below the data store, and that has the signal handlers set. The groups are read after
  \<open>chroot\<close>, from the group file below the data store.\<close>

theorem service_runs_confined:
  assumes "main_start cl ifs d = Inr (Serve tf, d')"
  shows "\<exists>c user u g root. conf_of (cl_opts cl) = Some c \<and> sc_user c = Some user \<and>
    root = canon (env d) (canon (env d) (store_dir c)) \<and> fsys (env d) root = Some Directory \<and>
    uid d = 0 \<and> passwd d user = Some (u, g) \<and> uid d' = u \<and> gid d' = g \<and> groups d' = g # groupdb d root user \<and>
    rootdir d' = root \<and> cwd d' = root \<and> canon (env d') = resolve d root \<and> dspath (tads tf) = ''/'' \<and> leader d' \<and>
    (\<forall>s \<in> {SIGTERM, SIGQUIT, SIGHUP}. actions d' s = Sig_handler) \<and>
    (\<forall>s \<in> {SIGINT, SIGPIPE, SIGUSR1, SIGUSR2, SIGTSTP, SIGTTIN, SIGTTOU}. actions d' s = SIG_IGN)"
proof -
  obtain c user where m: "conf_of (cl_opts cl) = Some c" "sc_user c = Some user" "uid d = 0"
    "secured d user (canon (env d) (canon (env d) (store_dir c))) d'" "leader d'" "dspath (tads tf) = [SLASH]"
    "\<forall>s. actions d' s = (if s \<in> set ign_signals then SIG_IGN else if s \<in> set signals then Sig_handler else actions d s)"
    using main_start_secured [OF assms] by blast
  then show ?thesis unfolding secured_def signals_def ign_signals_def by auto
qed

theorem service_runs_confined_witness:
  "\<exists>tf d'. main_start no_options [] boot_daemon = Inr (Serve tf, d') \<and>
     uid d' = 99 \<and> gid d' = 98 \<and> groups d' = [98] \<and> rootdir d' = ''/tftpboot'' \<and> canon (env d') ''/a'' = ''/tftpboot/a''"
proof -
  obtain tf d' where r: "main_start no_options [] boot_daemon = Inr (Serve tf, d')"
    using boot_serves by blast
  have b: "canon (env boot_daemon) ''/tftpboot'' = ''/tftpboot''" "passwd boot_daemon ''nobody'' = Some (99, 98)"
    "groupdb boot_daemon ''/tftpboot'' ''nobody'' = []" "resolve boot_daemon ''/tftpboot'' ''/a'' = ''/tftpboot/a''"
    by (simp_all add: boot_daemon_def boot_world_def)
  show ?thesis
    using service_runs_confined [OF r] r b
    by (auto simp: no_options_def conf_of_def store_dir_def DEFAULT_USER_def DEFAULT_DATASTORE_def)
qed

text \<open>C24: when \<open>main\<close> calls \<open>iwtftp_service\<close>, the event loop starts as its invariant asks: no session, no
  open file, an empty table of open files in a data store rooted at \<open>/\<close>, different
  descriptors for all sockets. If the process was started with the standard streams and fewer
  than 64 descriptors, the log is open, too. So every datagram is handled in a
  reachable state.\<close>

theorem service_starts_reachable:
  assumes "main_start cl ifs d = Inr (Serve tf, d')" and "distinct (map fst (socks (env d)))"
    and "length rbuf = NWBUF_SIZE" and "length mbuf = TFTP_MSGLEN_MAX"
  shows "reachable \<lparr>v_ins = tf, v_rbuf = rbuf, v_si = \<lparr>si_ses = None, si_msgbuf = mbuf, si_msglen = None\<rparr>,
      v_world = env d'\<rparr> \<and> length (svsocks tf) = SVSOCKS_MAX \<and>
    (std_fds (proc d) \<and> next_fd (proc d) < IW_FD_MAX \<longrightarrow> log_open (proc d'))"
proof -
  have "length (svsocks tf) = SVSOCKS_MAX" "std_fds (proc d) \<and> next_fd (proc d) < IW_FD_MAX \<longrightarrow> log_open (proc d')"
    using main_start_secured [OF assms(1)] by blast+
  with main_start_svc [OF assms] show ?thesis by (auto intro: reachable.start)
qed

theorem service_starts_reachable_witness:
  "\<exists>tf d'. main_start no_options [] boot_daemon = Inr (Serve tf, d') \<and> log_open (proc d') \<and>
     reachable \<lparr>v_ins = tf, v_rbuf = replicate NWBUF_SIZE NUL,
       v_si = \<lparr>si_ses = None, si_msgbuf = replicate TFTP_MSGLEN_MAX NUL, si_msglen = None\<rparr>, v_world = env d'\<rparr>"
proof -
  obtain tf d' where r: "main_start no_options [] boot_daemon = Inr (Serve tf, d')"
    using boot_serves by blast
  show ?thesis
    using service_starts_reachable [OF r boot_ready(5), of "replicate NWBUF_SIZE NUL" "replicate TFTP_MSGLEN_MAX NUL"]
      r boot_ready(6,7) by simp
qed



end
