(* ===== verification/Daemon_Run.thy ===== *)
theory Daemon_Run
  imports Daemon_Start
begin

text \<open>
  A complete run of the server and the file system: \<open>main\<close> up to the service changes no file, the
  service only makes new files below the data store, the exits change none.
\<close>

section \<open>The start changes no file\<close>

text \<open>\<open>keeps d m\<close>: where \<open>m\<close> returns, files and streams are those of \<open>d\<close>.\<close>

definition keeps :: "daemon \<Rightarrow> fault + 'a \<times> daemon \<Rightarrow> bool" where
  "keeps d m \<longleftrightarrow> (\<forall>x d'. m = Inr (x, d') \<longrightarrow> same_files (env d) (env d'))"

lemma keeps_simps [simp]:
  "keeps d (Inl e)" "keeps d (Inr (x, d')) = same_files (env d) (env d')"
  by (simp_all add: keeps_def)

lemma keeps_bind:
  assumes "keeps d m" and "\<And>x d1. same_files (env d) (env d1) \<Longrightarrow> keeps d (f x d1)"
  shows "keeps d (ebind m (\<lambda>(x, d). f x d))"
proof (cases m)
  case (Inr y)
  obtain x d1 where "y = (x, d1)" by (cases y)
  with Inr assms show ?thesis by (simp add: keeps_def)
qed simp

lemma keeps_if: "\<lbrakk>b \<Longrightarrow> keeps d m; \<not> b \<Longrightarrow> keeps d n\<rbrakk> \<Longrightarrow> keeps d (if b then m else n)"
  by simp

lemma keeps_from: "\<lbrakk>same_files (env d) (env d1); keeps d1 m\<rbrakk> \<Longrightarrow> keeps d m"
  by (auto simp: keeps_def intro: same_files_trans)

lemma keeps_say:
  assumes "same_files (env d) (env d1)" and "\<And>d2. same_files (env d) (env d2) \<Longrightarrow> keeps d (f d2)"
  shows "keeps d (ebind (say nm args d1) f)"
proof (cases "say nm args d1")
  case (Inr d2)
  have "same_files (env d1) (env d2)" using prep_say [OF Inr] by (simp add: prep_def)
  with assms same_files_trans Inr show ?thesis by simp
qed simp

lemma same_files_tick [simp]: "same_files w (w\<lparr>tick := t\<rparr>)" "same_files w (w\<lparr>canon := c, tick := t\<rparr>)"
  "same_files (w\<lparr>tick := t\<rparr>) w' = same_files w w'"
  by (simp_all add: same_files_def)

lemma keeps_fail: "keeps d (fail nm args d)"
  unfolding fail_def by (rule keeps_say) simp_all

lemma keeps_ferr: "keeps d (ferr nm args x tf ds d)"
  unfolding ferr_def by (rule keeps_say) simp_all

lemma keeps_create: "keeps d (create_svconf d)"
  unfolding create_svconf_def os_call_eq Let_def prod.case
  by (intro keeps_if keeps_say) simp_all

lemma keeps_init_signal: "keeps d (init_signal sl n h d)"
proof (induction n arbitrary: d)
  case (Suc n)
  let ?t = "\<lambda>k. upd_world ((env d)\<lparr>tick := k\<rparr>) d"
  have e: "keeps d (ebind (fail nm args d1) (\<lambda>(r, d). Inr (r, d\<lparr>proc := put_stderr bs (proc d)\<rparr>)))"
    if "same_files (env d) (env d1)" for nm args bs d1
    by (rule keeps_bind [OF keeps_from [OF that keeps_fail]]) simp
  have r: "keeps d (init_signal sl n h d1)" if "same_files (env d) (env d1)" for d1
    by (rule keeps_from [OF that Suc])
  show ?case
    unfolding init_signal.simps os_call_eq Let_def prod.case
    by (intro keeps_if e r; simp)
qed simp

lemma log_pmsg_files: "log_pmsg c xs p = Inr p' \<Longrightarrow> same_files (os p) (os p')"
  using log_pmsg_said [of c xs p p'] by (auto simp: only_said_def)

lemma iwlog_init_files: "iwlog_init v p = Inr (r, p') \<Longrightarrow> same_files (os p) (os p')"
  unfolding iwlog_init_def sys_open_def proc_call_simps
  by (auto simp: Let_def ebind_Inr_iff close_fd_def dest!: log_pmsg_files split: if_splits)

lemma keeps_dup_loop: "keeps d (dup_loop is nullfd d)"
proof (induction "is" arbitrary: d)
  case (Cons i "is")
  obtain ok p where du: "dup2 nullfd i (proc d) = (ok, p)" by (cases "dup2 nullfd i (proc d)")
  then have s: "same_files (env d) (env (d\<lparr>proc := p\<rparr>))"
    by (auto simp: dup2_def proc_call_simps split: option.splits if_splits)
  show ?case
    using keeps_from [OF s keeps_fail] keeps_from [OF s Cons] by (simp add: du Let_def)
qed simp

lemma keeps_fail_from: "same_files (env d) (env d1) \<Longrightarrow> keeps d (fail nm args d1)"
  by (rule keeps_from [OF _ keeps_fail])

lemma keeps_ferr_from: "same_files (env d) (env d1) \<Longrightarrow> keeps d (ferr nm args x tf ds d1)"
  by (rule keeps_from [OF _ keeps_ferr])

lemma keeps_renew_std: "keeps d (renew_std nullfd d)"
  unfolding renew_std_def os_call_eq Let_def prod.case
  by (rule keeps_bind [OF keeps_dup_loop], rule keeps_if)
    (auto simp: close_fd_def upd_world_def intro!: keeps_fail_from elim: same_files_trans)

lemma keeps_become_daemon: "keeps d (become_daemon fd d)"
proof -
  obtain nullfd p where o: "sys_open Null_dev (proc d) = (nullfd, p)" by (cases "sys_open Null_dev (proc d)")
  then have s: "same_files (env d) (os p)" by (auto simp: sys_open_def proc_call_simps Let_def split: if_splits)
  show ?thesis
    unfolding become_daemon_def o Let_def prod.case close_loop
    by (intro keeps_if keeps_fail_from keeps_from [OF _ keeps_renew_std]) (simp_all add: s)
qed

lemma keeps_daemonize: "keeps d (daemonize fd d)"
proof -
  let ?d = "upd_world ((env d)\<lparr>tick := Suc (tick (env d))\<rparr>) d"
  have s: "same_files (env d) (env ?d)" by simp
  show ?thesis
    unfolding daemonize_def os_call_eq Let_def prod.case
    by (intro keeps_if keeps_bind keeps_from [OF s keeps_fail] keeps_from [OF s keeps_become_daemon]) simp_all
qed

lemma keeps_exec_chroot: "keeps d (exec_chroot dir d)"
proof -
  have f: "keeps d (fail nm args d1)" if "same_files (env d) (env d1)" for nm args d1
    by (rule keeps_from [OF that keeps_fail])
  show ?thesis
    unfolding exec_chroot_def root_call_def os_call_eq Let_def prod.case
    by (intro keeps_if f) (simp_all add: same_files_def)
qed

lemma keeps_set_credential: "keeps d (set_credential user u g d)"
proof -
  have f: "keeps d (fail nm args d1)" if "same_files (env d) (env d1)" for nm args d1
    by (rule keeps_from [OF that keeps_fail])
  show ?thesis
    unfolding set_credential_def root_call_def os_call_eq Let_def prod.case
    by (intro keeps_if f) (simp_all add: upd_world_def)
qed

lemma keeps_main_confine: "keeps d (main_confine user u g ds tf d)"
proof -
  have c: "keeps d (set_credential user u g d1)" if "same_files (env d) (env d1)" for d1
    by (rule keeps_from [OF that keeps_set_credential])
  have b: "keeps d (ebind (iwds_set_chroot ds) f)" if "\<And>ds. keeps d (f ds)" for f :: "iwds \<Rightarrow> fault + stage \<times> daemon"
    using that by (simp add: iwds_set_chroot_def)
  show ?thesis
    unfolding main_confine_def
    by (intro keeps_bind [OF keeps_exec_chroot] keeps_if keeps_ferr_from b keeps_bind c keeps_say) simp_all
qed

lemma keeps_main_secure: "keeps d (main_secure svc ds tf d)"
proof (cases "sc_user svc")
  case (Some user)
  have s: "same_files (env d) (env (upd_world ((env d)\<lparr>tick := Suc (tick (env d))\<rparr>) d))" by simp
  show ?thesis
    unfolding main_secure_def Some option.case Let_def os_call_eq prod.case
    by (auto split: option.split intro!: keeps_ferr_from keeps_from [OF s keeps_main_confine] simp: s)
qed (simp add: main_secure_def)

lemma iwtftp_init_files: "iwtftp_init v ifn ifs ds w = Inr (x, w') \<Longrightarrow> same_files w w'"
  using iwtftp_init_net by (auto simp: net_step_def)

lemma keeps_main_modules: "keeps d (main_modules svc ifs d)"
proof -
  obtain ads w1 where i: "iwds_init (sc_datastore svc) (env d) = (ads, w1)" by (cases "iwds_init (sc_datastore svc) (env d)")
  then have s1: "same_files (env d) w1"
    by (auto simp: iwds_init_def Let_def sys_call_def sys_malloc_def draw_def split: if_splits)
  show ?thesis
  proof (cases ads)
    case None
    then show ?thesis by (simp add: main_modules_def i keeps_ferr_from s1)
  next
    case (Some ds)
    let ?m = "iwtftp_init (unat (sc_ipver svc)) (sc_ifname svc) ifs ds w1"
    show ?thesis
    proof (cases ?m)
      case (Inl e)
      then show ?thesis by (simp add: main_modules_def i Some Let_def)
    next
      case (Inr y)
      obtain at w2 where y: "y = (at, w2)" by (cases y)
      have s2: "same_files (env d) (env (upd_world w2 (upd_world w1 d)))"
        using iwtftp_init_files [OF Inr [unfolded y]] s1 same_files_trans by simp
      show ?thesis
      proof (cases at)
        case None
        then show ?thesis by (simp add: main_modules_def i Some Inr y keeps_ferr_from [OF s2])
      next
        case (Some tf)
        with keeps_from [OF s2 keeps_main_secure] show ?thesis by (simp add: main_modules_def i \<open>ads = Some ds\<close> Inr y)
      qed
    qed
  qed
qed

lemma iwlog_getfd_files: "iwlog_getfd p = Inr (fd, p') \<Longrightarrow> same_files (os p) (os p')"
  by (auto simp: iwlog_getfd_def ebind_Inr_iff split: logptr.splits dest: log_pmsg_files)

lemma keeps_main_detach: "keeps d (main_detach fd svc ifs d)"
  unfolding main_detach_def
  by (intro keeps_bind [OF keeps_daemonize] keeps_if keeps_ferr_from keeps_from [OF _ keeps_main_modules]) simp_all

lemma keeps_main_daemon: "keeps d (main_daemon svc ifs d)"
proof (cases "iwlog_init (sc_verbose svc) (proc d)")
  case (Inr y)
  obtain r p where y: "y = (r, p)" by (cases y)
  have s: "same_files (env d) (os p)" using iwlog_init_files Inr y by blast
  show ?thesis
  proof (cases "iwlog_getfd (p\<lparr>logready := True\<rparr>)")
    case (Inl e)
    then show ?thesis by (simp add: main_daemon_def Inr y Let_def keeps_ferr_from s)
  next
    case i2: (Inr z)
    obtain fd p2 where z: "z = (fd, p2)" by (cases z)
    have s2: "same_files (env d) (env (d\<lparr>proc := p2\<rparr>))"
      using iwlog_getfd_files [OF i2 [unfolded z]] s same_files_trans by simp
    with keeps_from [OF s2 keeps_main_detach] show ?thesis
      by (simp add: main_daemon_def Inr y i2 z Let_def keeps_ferr_from s)
  qed
qed (simp add: main_daemon_def)

lemma keeps_main_signals: "keeps d (main_signals svc ifs d)"
proof -
  have i: "keeps d (init_signal sl n h d1)" if "same_files (env d) (env d1)" for sl n h d1
    by (rule keeps_from [OF that keeps_init_signal])
  show ?thesis
    unfolding main_signals_def
    by (intro keeps_bind keeps_if i keeps_ferr_from keeps_from [OF _ keeps_main_daemon]) simp_all
qed

lemma keeps_main_checked: "keeps d (main_checked r svc ifs d)"
  unfolding main_checked_def by (intro keeps_if keeps_ferr keeps_main_signals) simp_all

lemma keeps_set_svconf: "keeps d (ebind (set_svconf svc cl d) (\<lambda>(r, svc, d). main_checked r svc ifs d))"
proof (cases "set_svconf svc cl d")
  case (Inr x)
  obtain r c d2 where x: "x = (r, c, d2)" by (cases x)
  have b: "same_files (env d) (env d2)" if "bad_option a b u c d = Inr (r, c', d2)" for a b u c c'
    using that prep_say by (fastforce simp: bad_option_def ebind_Inr_iff prep_def)
  have "same_files (env d) (env d2)"
    using Inr x by (auto simp: set_svconf_def Let_def dest: b split: option.splits if_splits)
  from keeps_from [OF this keeps_main_checked] show ?thesis by (simp add: Inr x)
qed simp

lemma keeps_main_start: "keeps d (main_start cl ifs d)"
  unfolding main_start_def
  by (rule keeps_bind [OF keeps_create])
    (auto split: option.split intro: keeps_ferr_from keeps_from [OF _ keeps_set_svconf])

section \<open>The exits change no file\<close>

definition same_fsys :: "world \<Rightarrow> world \<Rightarrow> bool" where
  "same_fsys w w' \<longleftrightarrow> fsys w' = fsys w"

lemma same_fsys_refl [simp]: "same_fsys w w"
  by (simp add: same_fsys_def)

lemma same_fsys_trans: "\<lbrakk>same_fsys w w'; same_fsys w' w''\<rbrakk> \<Longrightarrow> same_fsys w w''"
  by (simp add: same_fsys_def)

lemma delall_loop_files: "delall_loop k h p w = Inr (h', w') \<Longrightarrow> same_files w w' \<and> same_env w w'"
proof (induction k h p w rule: delall_loop.induct)
  case (3 k h a w)
  obtain n h1 where n: "load h a = Inr n" "free h a = Inr h1" "delall_loop k h1 (nxt n) (sys_close w (clsock n)) = Inr (h', w')"
    using "3.prems" unfolding delall_loop.simps by (elim ebind_InrE)
  from "3.IH" [OF this] files_close [of w "clsock n"] env_close [of w "clsock n"] show ?case
    using same_files_trans same_env_trans by blast
qed simp_all

lemma del_allsession_files: "del_allsession ins w = Inr (ins', w') \<Longrightarrow> same_files w w' \<and> same_env w w'"
  unfolding del_allsession_def by (elim ebind_pairE) (auto dest: delall_loop_files)

lemma close_server_files: "same_files w (snd (close_server ins w)) \<and> same_env w (snd (close_server ins w))"
proof -
  have "same_files w (fold (\<lambda>fd w. if fd \<noteq> -1 then sys_close w fd else w) fs w) \<and>
      same_env w (fold (\<lambda>fd w. if fd \<noteq> -1 then sys_close w fd else w) fs w)" for fs w
  proof (induction fs arbitrary: w)
    case (Cons fd fs)
    from Cons [of "sys_close w fd"] Cons [of w] show ?case
      using files_close [of w fd] env_close [of w fd] same_files_trans same_env_trans by auto
  qed simp
  then show ?thesis by (simp add: close_server_def)
qed

lemma exit_loop_fsys: "exit_loop k h p w = Inr (h', w') \<Longrightarrow> same_fsys w w'"
proof (induction k h p w rule: exit_loop.induct)
  case (3 k h a w)
  then obtain n fp where n: "load h a = Inr n" "ds_fp n = Some fp"
    by (auto simp: ebind_Inr_iff split: option.splits)
  with "3.prems" obtain b w1 h1 where f: "sys_fclose w fp = Inr (b, w1)" "free h a = Inr h1" "exit_loop k h1 (nxt n) w1 = Inr (h', w')"
    by (auto simp: ebind_Inr_iff)
  have "same_fsys w w1" using f(1) by (auto simp: same_fsys_def sys_fclose_def draw_def split: option.splits)
  moreover have "same_fsys w1 w'" using "3.IH" [OF n f(1) _ f(2,3)] by simp
  ultimately show ?case by (rule same_fsys_trans)
qed simp_all

lemma main_exit_fsys:
  assumes "main_exit tf ds d = Inr d'"
  shows "same_fsys (env d) (env d')"
proof -
  obtain w1 w2 p where w1: "(case tf of None \<Rightarrow> Inr (env d) | Some ins \<Rightarrow> iwtftp_exit ins (env d)) = Inr w1"
    and w2: "(case ds of None \<Rightarrow> Inr w1 | Some s \<Rightarrow> ebind (iwds_exit s w1) (\<lambda>(_, w). Inr w)) = Inr w2"
    and r2: "iwlog_exit (proc (upd_world w2 d)) = Inr p" "Inr (d\<lparr>proc := p\<rparr>) = (Inr d' :: fault + daemon)"
    using assms unfolding main_exit_def by (elim ebind_InrE)
  have "same_fsys (env d) w1"
  proof (cases tf)
    case (Some ins)
    with w1 obtain ins' w where w: "del_allsession ins (env d) = Inr (ins', w)" "w1 = snd (close_server ins' w)"
      by (auto simp: iwtftp_exit_def ebind_Inr_iff)
    from del_allsession_files [OF w(1)] close_server_files [of w ins'] w(2) show ?thesis
      by (simp add: same_fsys_def same_files_def)
  qed (use w1 in simp)
  moreover have "same_fsys w1 w2"
    using w2 exit_loop_fsys by (fastforce simp: iwds_exit_def ebind_Inr_iff split: option.splits)
  moreover have "same_fsys w2 (env d')"
  proof -
    have "same_fsys (os p) (os p')" if "iwlog_exit p = Inr p'" for p p'
      using that by (auto simp: iwlog_exit_def ebind_Inr_iff proc_call_simps close_fd_def Let_def same_fsys_def
          dest!: log_pmsg_files simp: same_files_def split: logptr.splits if_splits)
    then show ?thesis using r2 by (fastforce simp: ebind_Inr_iff)
  qed
  ultimately show ?thesis using same_fsys_trans by blast
qed

lemma say_fsys: "say nm args d = Inr d' \<Longrightarrow> same_fsys (env d) (env d')"
  using prep_say [of nm args d d'] by (simp add: prep_def same_files_def same_fsys_def)

lemma main_ferr_fsys: "main_ferr x tf ds d = Inr (r, d') \<Longrightarrow> same_fsys (env d) (env d')"
  unfolding main_ferr_def
  by (elim ebind_InrE) (auto dest!: main_exit_fsys say_fsys elim: same_fsys_trans split: if_splits)

section \<open>The service and the files\<close>

lemma register_server_same:
  "register_server fs w = (k, w') \<Longrightarrow> same_files w w' \<and> same_env w w' \<and> socks w' = socks w"
proof (induction fs w arbitrary: k rule: register_server.induct)
  case (2 fd fs w)
  show ?case
  proof (cases "fd = -1")
    case True
    with 2 show ?thesis by simp
  next
    case False
    obtain ok w1 j w2 where e: "sys_epoll_add w fd = (ok, w1)" "register_server fs w1 = (j, w2)"
      by (cases "sys_epoll_add w fd", cases "register_server fs (snd (sys_epoll_add w fd))") auto
    with False "2.prems" have "w2 = w'" by simp
    note e = e [unfolded this]
    have "socks w1 = socks w" using e(1) by (auto simp: sys_epoll_add_def sys_call_def draw_def split: if_splits)
    then show ?thesis
      using "2.IH"(1) [OF False e(1) [symmetric] e(2)] e(1) files_epoll_add [OF e(1)] env_epoll_add [OF e(1)]
        same_files_trans same_env_trans by auto
  qed
qed (simp add: same_files_def same_env_def)

lemma service_end:
  assumes "del_allsession ins w = Inr (ins1, w1)" and "close_server ins1 w1 = (ins', w')" and "ds_ok (tads ins) w qs"
  shows "untouched w w' \<and> seshead ins' = None \<and> (\<forall>s \<in> set (svsocks ins'). s = -1) \<and> ds_ok (tads ins') w' qs"
proof -
  note f = del_allsession_files [OF assms(1)] close_server_files [of w1 ins1, unfolded assms(2) snd_conv]
  have u: "untouched w w'" using untouched_trans [OF untouched_same untouched_same, of w w1] f by blast
  have "tads ins1 = tads ins \<and> seshead ins1 = None" using assms(1) by (auto simp: del_allsession_def ebind_Inr_iff)
  moreover have "tads ins' = tads ins1 \<and> seshead ins' = seshead ins1 \<and> (\<forall>s \<in> set (svsocks ins'). s = -1)"
    using assms(2) by (auto simp: close_server_def)
  moreover have "ds_ok (tads ins) w' qs"
    using ds_ok_same_files [OF ds_ok_same_files [OF assms(3)]] f by blast
  ultimately show ?thesis using u by simp
qed

text \<open>Started in a state the invariant allows, the service makes new files only, and leaves no
  session, no server socket and a table of open files in order.\<close>

lemma iwtftp_service_end:
  assumes r: "iwtftp_service ins rbuf mbuf rs w = Inr (r, ins', w')"
    and s: "svc_start \<lparr>v_ins = ins, v_rbuf = rbuf, v_si = \<lparr>si_ses = None, si_msgbuf = mbuf, si_msglen = None\<rparr>, v_world = w\<rparr>"
  shows "untouched w w' \<and> seshead ins' = None \<and> (\<forall>s \<in> set (svsocks ins'). s = -1) \<and> (\<exists>qs. ds_ok (tads ins') w' qs)"
proof -
  obtain ok w1 where c: "sys_call w = (ok, w1)" by (cases "sys_call w")
  obtain n w2 where g: "(if ok then register_server (svsocks ins) w1 else (0, w1)) = (n, w2)"
    by (cases "if ok then register_server (svsocks ins) w1 else (0, w1)")
  have k: "same_files w w2 \<and> same_env w w2 \<and> socks w2 = socks w"
    using c g register_server_same by (fastforce simp: sys_call_def draw_def same_files_def same_env_def split: if_splits)
  then have u: "untouched w w2" by (simp add: untouched_same)
  let ?v = "\<lparr>v_ins = ins, v_rbuf = rbuf, v_si = \<lparr>si_ses = None, si_msgbuf = mbuf, si_msglen = None\<rparr>, v_world = w2\<rparr>"
  obtain qs where qs: "ds_ok (tads ins) w2 qs" using s k ds_ok_same_files [of "tads ins" w _ w2] by (auto simp: svc_start_def)
  then have v: "reachable ?v" using s k by (intro reachable.start) (auto simp: svc_start_def)
  show ?thesis
  proof (cases "\<not> ok \<or> n = 0")
    case True
    then have "ebind (del_allsession ins w2) (\<lambda>(ins, w). case close_server ins w of (ins, w) \<Rightarrow> Inr (IW_ERR, ins, w)) = Inr (r, ins', w')"
      using r c g by (simp add: iwtftp_service_def)
    then obtain i3 w3 where "del_allsession ins w2 = Inr (i3, w3)" "close_server i3 w3 = (ins', w')"
      by (elim ebind_pairE) (simp split: prod.splits)
    from service_end [OF this qs] untouched_trans [OF u] show ?thesis by blast
  next
    case False
    then have "ebind (service_loop ?v rs) (\<lambda>v.
       ebind (del_allsession (v_ins v) (v_world v)) (\<lambda>(ins, w).
       case close_server ins w of (ins, w) \<Rightarrow> Inr (IW_OK, ins, w))) = Inr (r, ins', w')"
      using r c g by (simp add: iwtftp_service_def)
    then obtain v' i3 w3 where l: "service_loop ?v rs = Inr v'" "del_allsession (v_ins v') (v_world v') = Inr (i3, w3)"
        "close_server i3 w3 = (ins', w')"
      by (elim ebind_InrE ebind_pairE) (simp split: prod.splits)
    have u2: "untouched w2 (v_world v')" and "reachable v'"
      using service_loop_untouched [OF v l(1)] by simp_all
    then obtain qs' where "ds_ok (tads (v_ins v')) (v_world v') qs'"
      using reachable_inv unfolding svc_inv_def by blast
    from service_end [OF l(2,3) this] untouched_trans [OF untouched_trans [OF u u2]] show ?thesis by blast
  qed
qed

section \<open>A run of the server\<close>

lemma main_serve_fsys:
  assumes "main_serve tf rbuf mbuf rs d = Inr (code, d')"
  obtains r tf' w where "iwtftp_service tf rbuf mbuf rs (env d) = Inr (r, tf', w)" "same_fsys w (env d')"
proof -
  obtain x where x: "iwtftp_service tf rbuf mbuf rs (env d) = Inr x"
    "(case x of (r, tf, w) \<Rightarrow>
      let d = upd_world w d in
      if r = IW_ERR then
        ebind (say ''E_FAIL_SERVICE'' [] d) (\<lambda>d. main_ferr EX_SOFTWARE (Some tf) (Some (tads tf)) d)
      else
        ebind (say ''I_EXIT_SERVER'' [] d) (\<lambda>d.
        ebind (main_exit (Some tf) (Some (tads tf)) d) (\<lambda>d. Inr (EX_OK, d)))) = Inr (code, d')"
    using assms unfolding main_serve_def by (rule ebind_InrE)
  obtain r tf' w where x': "x = (r, tf', w)" by (cases x)
  let ?d = "upd_world w d"
  have "\<exists>nm d2. say nm [] ?d = Inr d2 \<and>
      (main_ferr EX_SOFTWARE (Some tf') (Some (tads tf')) d2 = Inr (code, d') \<or> main_exit (Some tf') (Some (tads tf')) d2 = Inr d')"
    using x(2) by (auto simp: x' Let_def ebind_Inr_iff split: if_splits)
  then have "same_fsys (env ?d) (env d')" using say_fsys main_ferr_fsys main_exit_fsys same_fsys_trans by blast
  with that x(1) x' show thesis by (simp add: upd_world_def)
qed

lemma main_program_files:
  assumes "main_program cl ifs rbuf mbuf rs d = Inr (code, d')"
    and "length rbuf = NWBUF_SIZE" and "length mbuf = TFTP_MSGLEN_MAX" and "distinct (map fst (socks (env d)))"
  obtains "same_fsys (env d) (env d')"
  | c d1 w where "conf_of (cl_opts cl) = Some c" "same_files (env d) (env d1)"
      "canon (env d1) = resolve d (canon (env d) (canon (env d) (store_dir c)))"
      "untouched (env d1) w" "same_fsys w (env d')"
proof -
  obtain st d1 where st: "main_start cl ifs d = Inr (st, d1)"
    and rest: "(case st of
       Parent \<Rightarrow> Inr (IW_OK, d1)
     | Showver \<Rightarrow> ebind (say ''I_SHOW_VER'' [] d1) (\<lambda>d. Inr (EX_OK, d))
     | Ferr exitval tf ds \<Rightarrow> main_ferr exitval tf ds d1
     | Serve tf \<Rightarrow> main_serve tf rbuf mbuf rs d1) = Inr (code, d')"
    using assms(1) unfolding main_program_def by (elim ebind_pairE)
  have sf: "same_files (env d) (env d1)" using keeps_main_start [of d cl ifs] st by (simp add: keeps_def)
  then have k: "same_fsys (env d) (env d1)" by (simp add: same_files_def same_fsys_def)
  show thesis
  proof (cases st)
    case (Serve tf)
    then have "main_serve tf rbuf mbuf rs d1 = Inr (code, d')" using rest by simp
    then obtain r tf' w where s: "iwtftp_service tf rbuf mbuf rs (env d1) = Inr (r, tf', w)" "same_fsys w (env d')"
      by (rule main_serve_fsys)
    have u: "untouched (env d1) w"
      using iwtftp_service_end [OF s(1) main_start_svc [OF st [unfolded Serve] assms(4,2,3)]] by blast
    obtain c user where "conf_of (cl_opts cl) = Some c" "secured d user (canon (env d) (canon (env d) (store_dir c))) d1"
      using main_start_secured [OF st [unfolded Serve]] by blast
    with that(2) [of c d1 w] sf u s(2) show thesis by (simp add: secured_def)
  next
    case Showver
    with rest say_fsys same_fsys_trans [OF k] that(1) show thesis by (auto simp: ebind_Inr_iff)
  next
    case (Ferr x tf ds)
    with rest main_ferr_fsys same_fsys_trans [OF k] that(1) show thesis by auto
  next
    case Parent
    with rest k that(1) show thesis by simp
  qed
qed

section \<open>The end of a run\<close>

lemma exit_loop_ok:
  assumes "chain h pv ys None" and "distinct ys" and "length ys \<le> k" and "distinct (map (\<lambda>a. ds_fp (the (h a))) ys)"
    and "\<forall>a \<in> set ys. \<exists>fp. ds_fp (the (h a)) = Some fp \<and> streams w fp \<noteq> None"
  shows "\<exists>h' w'. exit_loop k h (hd_ptr ys) w = Inr (h', w') \<and>
    (\<forall>a. h' a = (if a \<in> set ys then None else h a)) \<and>
    (\<forall>fp. streams w' fp = (if Some fp \<in> (\<lambda>a. ds_fp (the (h a))) ` set ys then None else streams w fp))"
  using assms
proof (induction ys arbitrary: h k pv w)
  case (Cons a ys)
  then obtain k' where k: "k = Suc k'" by (cases k) auto
  obtain n where n: "h a = Some n" "nxt n = hd_ptr ys" "chain h (Some a) ys None"
    using Cons.prems(1) by (cases ys) (auto split: option.splits if_splits)
  obtain fp where fp: "ds_fp n = Some fp" "streams w fp \<noteq> None" using Cons.prems(5) n(1) by auto
  then obtain b w1 where f: "sys_fclose w fp = Inr (b, w1)" "streams w1 = (streams w)(fp := None)"
    by (auto simp: sys_fclose_def draw_def Let_def)
  let ?h = "h(a := None)"
  have a: "a \<notin> set ys" using Cons.prems(2) by simp
  have fps: "(\<lambda>a. ds_fp (the (?h a))) ` set ys = (\<lambda>a. ds_fp (the (h a))) ` set ys"
    "map (\<lambda>a. ds_fp (the (?h a))) ys = map (\<lambda>a. ds_fp (the (h a))) ys"
    using a by (auto intro!: image_cong)
  have nf: "Some fp \<notin> (\<lambda>a. ds_fp (the (h a))) ` set ys" using Cons.prems(4) n(1) fp(1) by (force simp: image_iff)
  have "chain ?h (Some a) ys None" "distinct ys" "length ys \<le> k'" "distinct (map (\<lambda>a. ds_fp (the (?h a))) ys)"
    using n(3) a Cons.prems(2,3,4) k by (simp_all add: fps(2) del: fun_upd_apply)
  moreover have "\<forall>b \<in> set ys. \<exists>fp. ds_fp (the (?h b)) = Some fp \<and> streams w1 fp \<noteq> None"
  proof
    fix b assume b: "b \<in> set ys"
    then obtain fp' where "ds_fp (the (h b)) = Some fp'" "streams w fp' \<noteq> None" using Cons.prems(5) by auto
    moreover from this b nf have "fp' \<noteq> fp" by (force simp: image_iff)
    ultimately show "\<exists>fp. ds_fp (the (?h b)) = Some fp \<and> streams w1 fp \<noteq> None" using b a f(2) by auto
  qed
  ultimately obtain h' w' where r: "exit_loop k' ?h (hd_ptr ys) w1 = Inr (h', w')"
      "\<forall>a. h' a = (if a \<in> set ys then None else ?h a)"
      "\<forall>fp. streams w' fp = (if Some fp \<in> (\<lambda>a. ds_fp (the (?h a))) ` set ys then None else streams w1 fp)"
    using Cons.IH [of ?h "Some a" k' w1] by blast
  note r3 = r(3) [unfolded fps(1) f(2)]
  have "exit_loop k h (hd_ptr (a # ys)) w = Inr (h', w')" using r(1) n fp(1) f(1) by (simp add: k)
  moreover have "\<forall>b. h' b = (if b \<in> set (a # ys) then None else h b)" using r(2) by auto
  moreover have "\<forall>x. streams w' x = (if Some x \<in> (\<lambda>a. ds_fp (the (h a))) ` set (a # ys) then None else streams w x)"
    using r3 nf n(1) fp(1) by simp
  ultimately show ?case by blast
qed simp

text \<open>\<open>iwds_exit\<close> closes every open file of the table.\<close>

lemma iwds_exit_ok:
  assumes "ds_ok ds w ps"
  shows "\<exists>h w'. iwds_exit ds w = Inr (h, w') \<and> (\<forall>a \<in> set ps. h a = None) \<and>
    (\<forall>c f fp. (c, f, Some fp) \<in> set (dtab ds ps) \<longrightarrow> streams w' fp = None)"
proof -
  note d = ds_okD [OF assms]
  have ch: "dhead ds = hd_ptr ps" "chain (dheap ds) None ps None" "distinct ps"
    using d(1) by (simp_all add: dll_def)
  have m: "map (\<lambda>a. ds_fp (the (dheap ds a))) ps = map (\<lambda>(c, f, p). p) (dtab ds ps)"
    by (simp add: dtab_def keys_of_def dentry_def)
  have "distinct (map (\<lambda>a. ds_fp (the (dheap ds a))) ps)"
    using d(3) unfolding m tab_ok_def by blast
  moreover have "\<forall>a \<in> set ps. \<exists>fp. ds_fp (the (dheap ds a)) = Some fp \<and> streams w fp \<noteq> None"
    using ds_ok_node [OF assms] by (metis option.sel)
  ultimately obtain h' w' where r: "exit_loop (dbrk ds) (dheap ds) (hd_ptr ps) w = Inr (h', w')"
      "\<forall>a. h' a = (if a \<in> set ps then None else dheap ds a)"
      "\<forall>fp. streams w' fp = (if Some fp \<in> (\<lambda>a. ds_fp (the (dheap ds a))) ` set ps then None else streams w fp)"
    using exit_loop_ok [OF ch(2,3) d(2)] by blast
  have "streams w' fp = None" if "(c, f, Some fp) \<in> set (dtab ds ps)" for c f fp
  proof -
    have "Some fp \<in> (\<lambda>a. ds_fp (the (dheap ds a))) ` set ps"
      using that by (force simp: dtab_def keys_of_def dentry_def)
    with r(3) show ?thesis by simp
  qed
  with r(1,2) ch(1) show ?thesis by (auto simp: iwds_exit_def)
qed

lemma iwlog_exit_ok:
  assumes "alog p = Log l" and "is_cstring (errtext p)"
  shows "\<exists>p'. iwlog_exit p = Inr p' \<and> alog p' = Freed_log"
proof -
  let ?p = "close_fd (lg_fd l) (p\<lparr>os := (os p)\<lparr>tick := Suc (tick (os p))\<rparr>\<rparr>)"
  have a: "alog ?p = Log l" using assms(1) by (simp add: close_fd_def)
  have "list_all farg_cstring [Num (lg_fd l), Str (errtext p)]" using assms(2) by simp
  then obtain p' where "log_pmsg 65 [Num (lg_fd l), Str (errtext p)] ?p = Inr p'"
    using log_pmsg_log [OF a iwlog_find(1), of "[Num (lg_fd l), Str (errtext p)]"] by (auto simp: is_cstring_def)
  then show ?thesis
    using assms(1) by (auto simp: iwlog_exit_def proc_call_simps log_code_eval close_fd_def Let_def ebind_Inr_iff)
qed

lemma run_fits:
  "fits iwtftpd_status (statcode ''E_FAIL_SERVICE'') [] ''error: failed to start the service''"
  "fits iwtftpd_status (statcode ''I_EXIT_SERVER'') [] ''info: exiting server''"
  "fits iwtftpd_status (statcode ''E_FATALERR'') [] ''error: fatal error''"
  unfolding fits_def by code_simp+

lemma can_say_log: "\<lbrakk>can_say d; logready (proc d)\<rbrakk> \<Longrightarrow> \<exists>l. alog (proc d) = Log l"
  by (auto simp: can_say_def)

lemma say_ready:
  assumes "fits iwtftpd_status (statcode nm) args t" and "can_say d" and "logready (proc d)"
  obtains d' where "say nm args d = Inr d'" "can_say d'" "logready (proc d')" "\<exists>t. env d' = (env d)\<lparr>tick := t\<rparr>"
proof -
  obtain d' where d': "say nm args d = Inr d'" "said d d'" using say_ok [OF assms(1,2)] by blast
  with that can_say_said [OF d'(2) assms(2)] said_fields [OF d'(2)] assms(3) show thesis by blast
qed

lemma main_exit_ok:
  assumes c: "can_say d" "logready (proc d)" and s: "seshead tf = None" and ds: "ds_ok (tads tf) (env d) qs"
  shows "\<exists>d'. main_exit (Some tf) (Some (tads tf)) d = Inr d' \<and> alog (proc d') = Freed_log"
proof -
  obtain l where l: "alog (proc d) = Log l" using can_say_log [OF c] by blast
  have da: "del_allsession tf (env d) = Inr (tf\<lparr>sheap := sheap tf, seshead := None\<rparr>, env d)"
    using s by (simp add: del_allsession_def)
  obtain w1 where t: "iwtftp_exit tf (env d) = Inr w1" "same_files (env d) w1"
    using close_server_files [of "env d" "tf\<lparr>sheap := sheap tf, seshead := None\<rparr>"] by (simp add: iwtftp_exit_def da)
  obtain h w2 where e: "iwds_exit (tads tf) w1 = Inr (h, w2)"
    using iwds_exit_ok [OF ds_ok_same_files [OF ds t(2)]] by blast
  have "alog (proc (upd_world w2 d)) = Log l" "is_cstring (errtext (proc (upd_world w2 d)))"
    using l c(1) by (simp_all add: upd_world_def can_say_def)
  from iwlog_exit_ok [OF this] obtain p where "iwlog_exit (proc (upd_world w2 d)) = Inr p" "alog p = Freed_log" by blast
  then show ?thesis by (auto simp: main_exit_def t(1) e)
qed

text \<open>A service without turns returns.\<close>

lemma iwtftp_service_idle:
  assumes "seshead ins = None"
  shows "\<exists>r ins' w'. iwtftp_service ins rbuf mbuf [] w = Inr (r, ins', w')"
  using assms by (auto simp: iwtftp_service_def del_allsession_def Let_def split: prod.split)

lemma main_program_returns:
  assumes st: "main_start cl ifs d = Inr (Serve tf, d1)" and c: "can_say d"
    and b: "length rbuf = NWBUF_SIZE" "length mbuf = TFTP_MSGLEN_MAX" "distinct (map fst (socks (env d)))"
    and s: "iwtftp_service tf rbuf mbuf rs (env d1) = Inr (r, tf', w)"
  shows "\<exists>d'. main_program cl ifs rbuf mbuf rs d = Inr (if r = IW_ERR then EX_SOFTWARE else EX_OK, d') \<and>
    alog (proc d') = Freed_log"
proof -
  have cs: "can_say d1" "logready (proc d1)"
    using main_start_secured [OF st] c by blast+
  obtain qs where e: "seshead tf' = None" "ds_ok (tads tf') w qs"
    using iwtftp_service_end [OF s main_start_svc [OF st b(3,1,2)]] by blast
  let ?d = "upd_world w d1"
  have k: "can_say ?d" "logready (proc ?d)" "env ?d = w" using cs by (simp, simp_all add: upd_world_def)
  have m: "main_program cl ifs rbuf mbuf rs d =
      (if r = IW_ERR then
          ebind (say ''E_FAIL_SERVICE'' [] ?d) (\<lambda>d. main_ferr EX_SOFTWARE (Some tf') (Some (tads tf')) d)
        else
          ebind (say ''I_EXIT_SERVER'' [] ?d) (\<lambda>d.
          ebind (main_exit (Some tf') (Some (tads tf')) d) (\<lambda>d. Inr (EX_OK, d))))"
    by (simp add: main_program_def main_serve_def st s Let_def)
  show ?thesis
  proof (cases "r = IW_ERR")
    case True
    obtain d2 t2 where d2: "say ''E_FAIL_SERVICE'' [] ?d = Inr d2" "can_say d2" "logready (proc d2)" "env d2 = w\<lparr>tick := t2\<rparr>"
      using say_ready [OF run_fits(1) k(1,2)] k(3) by metis
    obtain d3 t3 where d3: "say ''E_FATALERR'' [] d2 = Inr d3" "can_say d3" "logready (proc d3)" "env d3 = (env d2)\<lparr>tick := t3\<rparr>"
      using say_ready [OF run_fits(3) d2(2,3)] by metis
    have "ds_ok (tads tf') (env d3) qs" using e(2) by (simp add: d3(4) d2(4))
    from main_exit_ok [OF d3(2,3) e(1) this] True show ?thesis by (auto simp: m d2(1) d3(1) main_ferr_def)
  next
    case False
    obtain d2 t2 where d2: "say ''I_EXIT_SERVER'' [] ?d = Inr d2" "can_say d2" "logready (proc d2)" "env d2 = w\<lparr>tick := t2\<rparr>"
      using say_ready [OF run_fits(2) k(1,2)] k(3) by metis
    have "ds_ok (tads tf') (env d2) qs" using e(2) by (simp add: d2(4))
    from main_exit_ok [OF d2(2,3) e(1) this] False show ?thesis by (auto simp: m d2(1))
  qed
qed

lemma boot_run:
  "\<exists>code d'. main_program no_options [] (replicate NWBUF_SIZE NUL) (replicate TFTP_MSGLEN_MAX NUL) [] boot_daemon = Inr (code, d') \<and>
     alog (proc d') = Freed_log"
proof -
  obtain tf d1 where st: "main_start no_options [] boot_daemon = Inr (Serve tf, d1)" using boot_serves by blast
  have "seshead tf = None" using main_start_secured [OF st] by blast
  from iwtftp_service_idle [OF this] obtain r tf' w
    where "iwtftp_service tf (replicate NWBUF_SIZE NUL) (replicate TFTP_MSGLEN_MAX NUL) [] (env d1) = Inr (r, tf', w)" by blast
  from main_program_returns [OF st boot_ready(3) _ _ boot_ready(5) this] show ?thesis by auto
qed

section \<open>Properties of a run\<close>





text \<open>C39: \<open>iwds_exit\<close> on a table in order frees every node and closes every open file of the table; no
  node is used after its release and no stream is closed twice.\<close>

theorem iwds_exit_closes_all:
  assumes "ds_ok ds w ps"
  shows "\<exists>h w'. iwds_exit ds w = Inr (h, w') \<and> (\<forall>a \<in> set ps. h a = None) \<and>
    (\<forall>c f fp. (c, f, Some fp) \<in> set (dtab ds ps) \<longrightarrow> streams w' fp = None)"
  by (rule iwds_exit_ok [OF assms])

theorem iwds_exit_closes_all_witness:
  "\<exists>h w'. iwds_exit \<lparr>dhead = Some 0, dheap = [0 \<mapsto> \<lparr>nxt = None, prv = None, clid = 5, ds_fp = Some 0,
       ds_filename = Some ''f'', ds_derr = 0\<rparr>], dbrk = 1, dspath = ''/d'', fchroot = False\<rparr>
       ((demo_world [])\<lparr>streams := [0 \<mapsto> new_stream ''/d/f'' False], nstreams := 1\<rparr>) = Inr (h, w') \<and>
     h 0 = None \<and> streams w' 0 = None"
proof -
  let ?ds = "\<lparr>dhead = Some 0, dheap = [0 \<mapsto> \<lparr>nxt = None, prv = None, clid = 5, ds_fp = Some 0,
       ds_filename = Some ''f'', ds_derr = 0\<rparr>], dbrk = 1, dspath = ''/d'', fchroot = False\<rparr>"
  have "ds_ok ?ds ((demo_world [])\<lparr>streams := [0 \<mapsto> new_stream ''/d/f'' False], nstreams := 1\<rparr>) [0]"
    by (simp add: ds_ok_def dll_def tab_ok_def dentry_def is_cstring_def)
  from iwds_exit_closes_all [OF this] show ?thesis by (auto simp: dentry_def)
qed

end
